(* ===== verification/Prelude.thy ===== *)
theory Prelude
  imports Main "HOL-Library.Word" "HOL-Library.Monad_Syntax"
begin

text \<open>
  Shared vocabulary of the development: the machine integer types of the C sources
  (\<open>uint8_t\<close> .. \<open>uint64_t\<close>), C string literals as byte lists, the
  range of C's \<open>int\<close>, and the generic facts about words and lists that
  several components use.  A result \<open>None\<close> of an option-valued model function means that
  the C call does not return normally: it runs forever or its behaviour is undefined
  (a signed overflow, a read past the end of an object).
\<close>

unbundle bit_operations_syntax

type_synonym u8 = "8 word"
type_synonym u16 = "16 word"
type_synonym u32 = "32 word"
type_synonym u64 = "64 word"

named_theorems frame_simps \<open>what an operation leaves unchanged\<close>

section \<open>C literals\<close>

text \<open>A C string literal, without its terminating NUL, as the list of its bytes.\<close>

definition lit :: "string \<Rightarrow> u8 list" where
  "lit cs = map of_char cs"

abbreviation ch :: "char \<Rightarrow> u8" where
  "ch c \<equiv> of_char c"

lemma lit_Nil [simp]: "lit [] = []"
  and lit_Cons [simp]: "lit (c # cs) = of_char c # lit cs"
  by (simp_all add: lit_def)

section \<open>C int\<close>

definition INT_MAX :: int where "INT_MAX = 2147483647"

definition INT_MIN :: int where "INT_MIN = - 2147483648"

text \<open>The value of a signed arithmetic expression, undefined when it leaves the range of \<open>int\<close>.\<close>

definition c_int :: "int \<Rightarrow> int option" where
  "c_int i = (if INT_MIN \<le> i \<and> i \<le> INT_MAX then Some i else None)"

lemma c_int_Some [simp]: "INT_MIN \<le> i \<Longrightarrow> i \<le> INT_MAX \<Longrightarrow> c_int i = Some i"
  by (simp add: c_int_def)

lemma c_int_eq_Some: "c_int i = Some j \<longleftrightarrow> j = i \<and> INT_MIN \<le> i \<and> i \<le> INT_MAX"
  by (auto simp: c_int_def)

section \<open>Words\<close>

lemma unat_of_nat_small: "n < 2 ^ LENGTH('a) \<Longrightarrow> unat (of_nat n :: 'a::len word) = n"
  by (simp add: unat_of_nat take_bit_nat_eq_self)

lemma of_nat_inj_small:
  "n < 2 ^ LENGTH('a) \<Longrightarrow> k < 2 ^ LENGTH('a) \<Longrightarrow>
    (of_nat n :: 'a::len word) = of_nat k \<longleftrightarrow> n = k"
  by (metis unat_of_nat_small)

lemma word_le_unat: "(a :: 'a::len word) \<le> b \<longleftrightarrow> unat a \<le> unat b"
  by (rule word_le_nat_alt)

lemma word_less_unat: "(a :: 'a::len word) < b \<longleftrightarrow> unat a < unat b"
  by (rule word_less_nat_alt)

lemma unat_lt_64 [simp]: "unat (x :: u64) < 18446744073709551616"
proof -
  have "unat x < 2 ^ LENGTH(64)" by (rule unsigned_less)
  then show ?thesis by simp
qed

lemma unat_lt_32 [simp]: "unat (x :: u32) < 4294967296"
proof -
  have "unat x < 2 ^ LENGTH(32)" by (rule unsigned_less)
  then show ?thesis by simp
qed

lemma unat_32_lt_64 [simp]: "unat (x :: u32) < 18446744073709551616"
  by (rule less_trans [OF unat_lt_32]) simp

lemma unat_lt_16 [simp]: "unat (x :: u16) < 65536"
proof -
  have "unat x < 2 ^ LENGTH(16)" by (rule unsigned_less)
  then show ?thesis by simp
qed

lemma unat_lt_8 [simp]: "unat (x :: u8) < 256"
proof -
  have "unat x < 2 ^ LENGTH(8)" by (rule unsigned_less)
  then show ?thesis by simp
qed

text \<open>Widening and back.\<close>

lemma ucast_back_8_32 [simp]: "ucast (ucast (v :: u8) :: u32) = v"
  by (rule bit_word_eqI) (simp add: bit_simps)

lemma ucast_back_16_32 [simp]: "ucast (ucast (v :: u16) :: u32) = v"
  by (rule bit_word_eqI) (simp add: bit_simps)

lemma ucast_back_32_64 [simp]: "ucast (ucast (v :: u32) :: u64) = v"
  by (rule bit_word_eqI) (simp add: bit_simps)

lemma ucast_back_8_64 [simp]: "ucast (ucast (v :: u8) :: u64) = v"
  by (rule bit_word_eqI) (simp add: bit_simps)

lemma unat_minus_1_64 [simp]: "unat (- 1 :: u64) = 18446744073709551615"
  by (simp add: unsigned_minus_1_eq_mask mask_eq_exp_minus_1)

lemma unat_pos_64: "(x :: u64) \<noteq> 0 \<Longrightarrow> 0 < unat x"
  by (simp add: unat_gt_0)

lemma unat_plus_64: "unat a + unat b < 2 ^ 64 \<Longrightarrow> unat (a + b :: u64) = unat a + unat b"
  by (intro unat_add_lem [THEN iffD1]) simp

lemma unat_pred_64: "(x :: u64) \<noteq> 0 \<Longrightarrow> unat (x - 1) = unat x - 1"
  by (metis unat_minus_one)

text \<open>Subtraction of one address from another at a known distance.\<close>

lemma unat_diff_of_nat:
  assumes "k \<le> n" and "n < 2 ^ LENGTH('a)"
  shows "unat (of_nat n - of_nat k :: 'a::len word) = n - k"
proof -
  have "(of_nat n - of_nat k :: 'a word) = of_nat (n - k)"
    using assms(1) by simp
  moreover have "unat (of_nat (n - k) :: 'a word) = n - k"
    using assms by (intro unat_of_nat_small) auto
  ultimately show ?thesis by simp
qed

lemma unat_diff_of_nat_neg:
  assumes "n < k" and "k < 2 ^ LENGTH('a)"
  shows "unat (of_nat n - of_nat k :: 'a::len word) = 2 ^ LENGTH('a) + n - k"
proof -
  have "(of_nat n - of_nat k :: 'a word) = of_nat (2 ^ LENGTH('a) + n) - of_nat k"
    by simp
  also have "\<dots> = of_nat (2 ^ LENGTH('a) + n - k)"
    using assms by (subst of_nat_diff) auto
  moreover have "unat (of_nat (2 ^ LENGTH('a) + n - k) :: 'a word) = 2 ^ LENGTH('a) + n - k"
    using assms by (intro unat_of_nat_small) auto
  ultimately show ?thesis by simp
qed

lemma of_nat_div_small:
  assumes "a < 2 ^ LENGTH('a)" and "b < 2 ^ LENGTH('a)"
  shows "(of_nat a :: 'a::len word) div of_nat b = of_nat (a div b)"
proof -
  have "a div b < 2 ^ LENGTH('a)" using assms(1) div_le_dividend le_less_trans by blast
  then show ?thesis using assms by (simp add: word_unat_eq_iff unat_div unat_of_nat_small)
qed

lemma of_nat_mod_small:
  assumes "a < 2 ^ LENGTH('a)" and "b < 2 ^ LENGTH('a)"
  shows "(of_nat a :: 'a::len word) mod of_nat b = of_nat (a mod b)"
proof -
  have "a mod b < 2 ^ LENGTH('a)" using assms(1) mod_less_eq_dividend le_less_trans by blast
  then show ?thesis using assms by (simp add: word_unat_eq_iff unat_mod unat_of_nat_small)
qed

text \<open>A length that goes through a 64-bit register and comes back as an \<open>int\<close>.\<close>

lemma sint_low: "i < 2 ^ 31 \<Longrightarrow> sint (ucast (of_nat i :: u64) :: u32) = int i"
proof -
  assume i: "i < 2 ^ 31"
  then have "uint (of_nat i :: u32) = int i" by (simp add: unsigned_of_nat take_bit_nat_eq_self uint_nat)
  moreover have "(ucast (of_nat i :: u64) :: u32) = of_nat i"
    using i by (simp add: unsigned_of_nat take_bit_nat_eq_self)
  moreover have "signed_take_bit 31 (int i) = int i"
    using i by (intro signed_take_bit_int_eq_self) simp_all
  ultimately show ?thesis by (simp add: sint_uint)
qed

section \<open>Lists\<close>

lemma list_update_append2: "length xs = i \<Longrightarrow> (xs @ y # ys)[i := z] = xs @ z # ys"
  by auto

lemma nth_append2: "length xs = i \<Longrightarrow> (xs @ y # ys) ! i = y"
  by auto

end
