(* ===== verification/ByteMemory.thy ===== *)
theory ByteMemory
  imports Prelude
begin

text \<open>
  The byte-addressed physical memory the kernel runs in, and the 32-bit and 64-bit
  little-endian accesses the compiler makes for \<open>uint32_t\<close>, \<open>uint64_t\<close> and pointer lvalues.
  The interface \<open>scalar\<close> collects what the rest of the development uses of an access: a
  load returns what was stored, reads only its own bytes, and a store changes only its own
  bytes; it is interpreted for both widths.
\<close>

type_synonym memory = "u64 \<Rightarrow> u8"

text \<open>The \<open>n\<close> bytes from address \<open>a\<close> on; addresses wrap at the end of the address space.\<close>

definition region :: "u64 \<Rightarrow> nat \<Rightarrow> u64 set" where
  "region a n = {x. unat (x - a) < n}"

definition agree_on :: "u64 set \<Rightarrow> memory \<Rightarrow> memory \<Rightarrow> bool" where
  "agree_on S m m' \<longleftrightarrow> (\<forall>x \<in> S. m' x = m x)"

lemma agree_on_refl [simp]: "agree_on S m m"
  by (simp add: agree_on_def)

lemma agree_on_trans: "agree_on S m m' \<Longrightarrow> agree_on S m' m'' \<Longrightarrow> agree_on S m m''"
  by (simp add: agree_on_def)

lemma agree_on_subset: "agree_on S m m' \<Longrightarrow> T \<subseteq> S \<Longrightarrow> agree_on T m m'"
  by (auto simp: agree_on_def)

lemma agree_onD: "agree_on S m m' \<Longrightarrow> x \<in> S \<Longrightarrow> m' x = m x"
  by (simp add: agree_on_def)

section \<open>Little-endian scalars\<close>

definition byte_of :: "nat \<Rightarrow> 'a::len word \<Rightarrow> u8" where
  "byte_of i v = ucast (drop_bit (8 * i) v)"

definition rd32 :: "memory \<Rightarrow> u64 \<Rightarrow> u32" where
  "rd32 m a = ucast (m a) OR push_bit 8 (ucast (m (a + 1)))
     OR push_bit 16 (ucast (m (a + 2))) OR push_bit 24 (ucast (m (a + 3)))"

definition wr32 :: "memory \<Rightarrow> u64 \<Rightarrow> u32 \<Rightarrow> memory" where
  "wr32 m a v = m(a := byte_of 0 v, a + 1 := byte_of 1 v,
     a + 2 := byte_of 2 v, a + 3 := byte_of 3 v)"

definition rd64 :: "memory \<Rightarrow> u64 \<Rightarrow> u64" where
  "rd64 m a = ucast (rd32 m a) OR push_bit 32 (ucast (rd32 m (a + 4)))"

definition wr64 :: "memory \<Rightarrow> u64 \<Rightarrow> u64 \<Rightarrow> memory" where
  "wr64 m a v = wr32 (wr32 m a (ucast v)) (a + 4) (ucast (drop_bit 32 v))"

lemma join_bytes32:
  "ucast (byte_of 0 v) OR push_bit 8 (ucast (byte_of (Suc 0) v))
     OR push_bit 16 (ucast (byte_of 2 v)) OR push_bit 24 (ucast (byte_of 3 v)) = (v :: u32)"
proof (rule bit_word_eqI)
  fix n
  assume "n < LENGTH(32)"
  then show "bit (ucast (byte_of 0 v) OR push_bit 8 (ucast (byte_of (Suc 0) v))
     OR push_bit 16 (ucast (byte_of 2 v)) OR push_bit 24 (ucast (byte_of 3 v)) :: u32) n = bit v n"
    by (cases "n < 8"; cases "n < 16"; cases "n < 24")
      (simp_all add: byte_of_def bit_simps, auto)
qed

lemma join_halves64: "ucast (ucast v :: u32) OR push_bit 32 (ucast (ucast (drop_bit 32 v) :: u32))
    = (v :: u64)"
proof (rule bit_word_eqI)
  fix n
  assume "n < LENGTH(64)"
  then show "bit (ucast (ucast v :: u32) OR push_bit 32 (ucast (ucast (drop_bit 32 v) :: u32)) :: u64) n
      = bit v n"
    by (cases "n < 32") (simp_all add: bit_simps, auto)
qed

lemma rd32_wr32: "rd32 (wr32 m a v) a = v"
  by (simp add: rd32_def wr32_def join_bytes32)

lemma rd64_wr64: "rd64 (wr64 m a v) a = v"
proof -
  have "rd32 (wr64 m a v) a = ucast v"
    using join_bytes32 [of "ucast v"] by (simp add: rd32_def wr64_def wr32_def)
  moreover have "rd32 (wr64 m a v) (a + 4) = ucast (drop_bit 32 v)"
    by (simp add: wr64_def rd32_wr32)
  ultimately show ?thesis by (simp add: rd64_def join_halves64)
qed

lemma mem_region_offset: "unat k < n \<Longrightarrow> a + k \<in> region a n"
  by (simp add: region_def)

lemma wr32_frame: "x \<notin> region a 4 \<Longrightarrow> wr32 m a v x = m x"
  by (auto simp: region_def wr32_def)

lemma wr64_frame: "x \<notin> region a 8 \<Longrightarrow> wr64 m a v x = m x"
  by (auto simp: region_def wr64_def wr32_def)

lemma rd32_cong: "agree_on (region a 4) m m' \<Longrightarrow> rd32 m' a = rd32 m a"
  by (simp add: agree_on_def region_def rd32_def)

lemma rd64_cong: "agree_on (region a 8) m m' \<Longrightarrow> rd64 m' a = rd64 m a"
  by (simp add: agree_on_def region_def rd64_def rd32_def)

section \<open>The access interface\<close>

locale scalar =
  fixes rd :: "memory \<Rightarrow> u64 \<Rightarrow> 'v"
    and wr :: "memory \<Rightarrow> u64 \<Rightarrow> 'v \<Rightarrow> memory"
    and width :: nat
  assumes load_store: "rd (wr m a v) a = v"
    and load_cong: "agree_on (region a width) m m' \<Longrightarrow> rd m' a = rd m a"
    and store_frame: "x \<notin> region a width \<Longrightarrow> wr m a v x = m x"
begin

lemma store_agree: "S \<inter> region a width = {} \<Longrightarrow> agree_on S m (wr m a v)"
  unfolding agree_on_def using store_frame by blast

lemma load_store_apart: "region b width \<inter> region a width = {} \<Longrightarrow> rd (wr m a v) b = rd m b"
  by (intro load_cong store_agree)

lemma store_within: "region a width \<subseteq> region b n \<Longrightarrow> S \<inter> region b n = {} \<Longrightarrow> agree_on S m (wr m a v)"
  by (rule store_agree) blast

end

interpretation w32: scalar rd32 wr32 4
  by unfold_locales (auto intro: rd32_wr32 rd32_cong wr32_frame)

interpretation w64: scalar rd64 wr64 8
  by unfold_locales (auto intro: rd64_wr64 rd64_cong wr64_frame)

lemma region_offset_subset:
  assumes "unat k + n \<le> l" and "l < 2 ^ 64"
  shows "region (a + k) n \<subseteq> region a l"
proof
  fix x
  assume "x \<in> region (a + k) n"
  then have lt: "unat (x - (a + k)) < n" by (simp add: region_def)
  have eq: "x - a = (x - (a + k)) + k" by simp
  have "unat (x - a) = unat (x - (a + k)) + unat k"
    using lt assms by (subst eq, subst unat_add_lem [THEN iffD1]) auto
  with lt assms show "x \<in> region a l" by (simp add: region_def)
qed

text \<open>Two regions at natural-number addresses below the top of the address space.\<close>

lemma region_of_nat_disjoint:
  assumes "p + n \<le> q \<or> q + l \<le> p" and "p + n < 2 ^ 64" and "q + l < 2 ^ 64"
  shows "region (of_nat p) n \<inter> region (of_nat q) l = {}"
proof (rule ccontr)
  assume "region (of_nat p) n \<inter> region (of_nat q) l \<noteq> {}"
  then obtain x :: u64 where x: "unat (x - of_nat p) < n" "unat (x - of_nat q) < l"
    by (auto simp: region_def)
  define y where "y = unat x"
  have xy: "x = of_nat y" and y: "y < 2 ^ 64" by (simp_all add: y_def)
  have py: "p < 2 ^ 64" "q < 2 ^ 64" using assms by auto
  have "p \<le> y"
  proof (rule ccontr)
    assume "\<not> p \<le> y"
    with x(1) py show False
      using unat_diff_of_nat_neg [of y p, where 'a = 64] assms(2) by (simp add: xy)
  qed
  moreover have "q \<le> y"
  proof (rule ccontr)
    assume "\<not> q \<le> y"
    with x(2) py show False
      using unat_diff_of_nat_neg [of y q, where 'a = 64] assms(3) by (simp add: xy)
  qed
  ultimately show False
    using x y assms(1) unat_diff_of_nat [of p y, where 'a = 64] unat_diff_of_nat [of q y, where 'a = 64]
    by (auto simp: xy)
qed

lemma mem_region_of_nat:
  assumes "p + n < 2 ^ 64"
  shows "x \<in> region (of_nat p) n \<longleftrightarrow> p \<le> unat x \<and> unat x < p + n"
proof -
  have x: "x = of_nat (unat x)" "unat x < 2 ^ 64" by simp_all
  show ?thesis
  proof (cases "p \<le> unat x")
    case True
    then show ?thesis using x unat_diff_of_nat [of p "unat x", where 'a = 64]
      by (auto simp: region_def)
  next
    case False
    then show ?thesis using x assms unat_diff_of_nat_neg [of "unat x" p, where 'a = 64]
      by (auto simp: region_def)
  qed
qed

end
