(* ===== verification/Machine.thy ===== *)
theory Machine
  imports ByteMemory
begin

text \<open>
  The machine the kernel runs on, as far as the C code sees it: physical memory, the port
  I/O bus, the control registers, the model-specific registers and the interrupt flag, with
  the accessors of \<open>cpu/cpu.c\<close>.  The devices behind the ports are not part of the repository:
  \<open>io\<close> is the history of port accesses (latest first) and \<open>bus\<close> is an arbitrary function
  that says what a device answers to a read, given the history.  What the code relies on of
  a device is a named hypothesis on \<open>bus\<close>; \<open>crtc_ok\<close> is the one of the VGA cursor registers.
\<close>

section \<open>State\<close>

datatype io_width = IO8 | IO16 | IO32

datatype io_event =
    PortIn io_width u16 u32
  | PortOut io_width u16 u32

type_synonym io_history = "io_event list"

record machine =
  mem :: memory
  io :: io_history
  bus :: "io_history \<Rightarrow> io_width \<Rightarrow> u16 \<Rightarrow> u32"
  cr0 :: u64
  cr3 :: u64
  cr4 :: u64
  msrs :: "u32 \<Rightarrow> u64"
  iflag :: bool

section \<open>Port I/O\<close>

definition inb :: "u16 \<Rightarrow> 'a machine_scheme \<Rightarrow> u8 \<times> 'a machine_scheme" where
  "inb port s = (let value = ucast (bus s (io s) IO8 port) :: u8
     in (value, s\<lparr>io := PortIn IO8 port (ucast value) # io s\<rparr>))"

definition inw :: "u16 \<Rightarrow> 'a machine_scheme \<Rightarrow> u16 \<times> 'a machine_scheme" where
  "inw port s = (let value = ucast (bus s (io s) IO16 port) :: u16
     in (value, s\<lparr>io := PortIn IO16 port (ucast value) # io s\<rparr>))"

definition inl :: "u16 \<Rightarrow> 'a machine_scheme \<Rightarrow> u32 \<times> 'a machine_scheme" where
  "inl port s = (let value = bus s (io s) IO32 port
     in (value, s\<lparr>io := PortIn IO32 port value # io s\<rparr>))"

definition outb :: "u16 \<Rightarrow> u8 \<Rightarrow> 'a machine_scheme \<Rightarrow> 'a machine_scheme" where
  "outb port value s = s\<lparr>io := PortOut IO8 port (ucast value) # io s\<rparr>"

definition outw :: "u16 \<Rightarrow> u16 \<Rightarrow> 'a machine_scheme \<Rightarrow> 'a machine_scheme" where
  "outw port value s = s\<lparr>io := PortOut IO16 port (ucast value) # io s\<rparr>"

definition outl :: "u16 \<Rightarrow> u32 \<Rightarrow> 'a machine_scheme \<Rightarrow> 'a machine_scheme" where
  "outl port value s = s\<lparr>io := PortOut IO32 port value # io s\<rparr>"

section \<open>CPU registers\<close>

definition cpu_read_msr :: "u32 \<Rightarrow> 'a machine_scheme \<Rightarrow> u64" where
  "cpu_read_msr msr s =
    (let low = ucast (msrs s msr) :: u32; high = ucast (drop_bit 32 (msrs s msr)) :: u32
     in push_bit 32 (ucast high) OR ucast low)"

definition cpu_write_msr :: "u32 \<Rightarrow> u64 \<Rightarrow> 'a machine_scheme \<Rightarrow> 'a machine_scheme" where
  "cpu_write_msr msr value s =
    (let low = ucast value :: u32; high = ucast (drop_bit 32 value) :: u32
     in s\<lparr>msrs := (msrs s)(msr := push_bit 32 (ucast high) OR ucast low)\<rparr>)"

definition cpu_read_cr3 :: "'a machine_scheme \<Rightarrow> u64" where
  "cpu_read_cr3 s = cr3 s"

definition cpu_write_cr3 :: "u64 \<Rightarrow> 'a machine_scheme \<Rightarrow> 'a machine_scheme" where
  "cpu_write_cr3 value s = s\<lparr>cr3 := value\<rparr>"

definition cpu_disable_interrupts :: "'a machine_scheme \<Rightarrow> 'a machine_scheme" where
  "cpu_disable_interrupts s = s\<lparr>iflag := False\<rparr>"

text \<open>\<open>cpu_enable_interrupts\<close> reports \<open>STI\<close> on the debug port 0xE9, then executes \<open>sti\<close>.\<close>

definition cpu_enable_interrupts :: "'a machine_scheme \<Rightarrow> 'a machine_scheme" where
  "cpu_enable_interrupts s = (fold (outb 0xE9) (lit ''STI'' @ [10]) s)\<lparr>iflag := True\<rparr>"

lemma cpu_read_msr_value: "cpu_read_msr r s = msrs s r"
  using join_halves64 [of "msrs s r"] by (simp add: cpu_read_msr_def Let_def or.commute)

lemma cpu_write_msr_value: "cpu_write_msr r v s = s\<lparr>msrs := (msrs s)(r := v)\<rparr>"
  using join_halves64 [of v] by (simp add: cpu_write_msr_def Let_def or.commute)

lemma cpu_msr_roundtrip: "cpu_read_msr r (cpu_write_msr r v s) = v"
  by (simp add: cpu_read_msr_value cpu_write_msr_value)

section \<open>The cursor registers of the VGA CRT controller\<close>

text \<open>
  Port 0x3D4 selects a register of the CRT controller, port 0x3D5 accesses it; registers 14
  and 15 hold the high and low byte of the cursor location and read back what was last
  written.  After a 16-bit or 32-bit write nothing is claimed.
\<close>

fun crtc_index :: "io_history \<Rightarrow> u8 option" where
  "crtc_index [] = None"
| "crtc_index (PortIn w p v # h) = crtc_index h"
| "crtc_index (PortOut IO8 p v # h) = (if p = 0x3d4 then Some (ucast v) else crtc_index h)"
| "crtc_index (PortOut IO16 p v # h) = None"
| "crtc_index (PortOut IO32 p v # h) = None"

fun crtc_reg :: "u8 \<Rightarrow> io_history \<Rightarrow> u8 option" where
  "crtc_reg i [] = None"
| "crtc_reg i (PortIn w p v # h) = crtc_reg i h"
| "crtc_reg i (PortOut IO8 p v # h) =
    (if p = 0x3d5 then
       (case crtc_index h of
          None \<Rightarrow> None
        | Some j \<Rightarrow> if j = i then Some (ucast v) else crtc_reg i h)
     else crtc_reg i h)"
| "crtc_reg i (PortOut IO16 p v # h) = None"
| "crtc_reg i (PortOut IO32 p v # h) = None"

definition crtc_ok :: "(io_history \<Rightarrow> io_width \<Rightarrow> u16 \<Rightarrow> u32) \<Rightarrow> bool" where
  "crtc_ok b \<longleftrightarrow> (\<forall>h i v. i \<in> {14, 15} \<longrightarrow> crtc_index h = Some i \<longrightarrow> crtc_reg i h = Some v \<longrightarrow>
     ucast (b h IO8 0x3d5) = v)"

text \<open>A bus on which the cursor registers behave so and every other device answers 0.\<close>

definition crtc_bus :: "io_history \<Rightarrow> io_width \<Rightarrow> u16 \<Rightarrow> u32" where
  "crtc_bus h w p = (case crtc_index h of
      None \<Rightarrow> 0
    | Some i \<Rightarrow> (case crtc_reg i h of None \<Rightarrow> 0 | Some v \<Rightarrow> if p = 0x3d5 then ucast v else 0))"

lemma crtc_bus_ok: "crtc_ok crtc_bus"
  by (auto simp: crtc_ok_def crtc_bus_def)

text \<open>The cursor location (in character cells) that the history leaves in the registers.\<close>

definition cursor_of :: "io_history \<Rightarrow> u16 option" where
  "cursor_of h = (case (crtc_reg 14 h, crtc_reg 15 h) of
      (Some hi, Some lo) \<Rightarrow> Some (push_bit 8 (ucast hi) + ucast lo)
    | _ \<Rightarrow> None)"

definition boot_machine :: machine where
  "boot_machine = \<lparr>mem = (\<lambda>_. 0), io = [], bus = crtc_bus, cr0 = 0, cr3 = 0, cr4 = 0,
     msrs = (\<lambda>_. 0), iflag = False\<rparr>"

end
