(* ===== verification/MemOps.thy ===== *)
theory MemOps
  imports ByteMemory
begin

text \<open>
  The block memory functions of \<open>libc/string.c\<close> (\<open>memset\<close>, \<open>memcpy\<close>, \<open>memcp\<close>, \<open>memmove\<close>,
  \<open>memcmp\<close>) on the byte memory, with their functional contracts.  A loop
  \<open>while (n--)\<close> over an unsigned counter is a recursion on the counter; each step
  makes exactly the load and the store of the C statement, so overlapping operands behave as
  they do in the program.
\<close>

section \<open>Definitions\<close>

primrec memset_loop :: "memory \<Rightarrow> u64 \<Rightarrow> u8 \<Rightarrow> nat \<Rightarrow> memory" where
  "memset_loop m temp val 0 = m"
| "memset_loop m temp val (Suc count) = memset_loop (m(temp := val)) (temp + 1) val count"

definition memset :: "memory \<Rightarrow> u64 \<Rightarrow> u8 \<Rightarrow> u32 \<Rightarrow> memory" where
  "memset m dest val count = memset_loop m dest val (unat count)"

text \<open>
  Byte-wise ascending copy.  \<open>memcpy\<close> indexes both operands with an \<open>int\<close>; a count above
  \<open>INT_MAX\<close>, where that index would overflow, has no defined behaviour in C and the model
  goes on counting.
\<close>

primrec copy_up :: "memory \<Rightarrow> u64 \<Rightarrow> u64 \<Rightarrow> nat \<Rightarrow> memory" where
  "copy_up m d s 0 = m"
| "copy_up m d s (Suc n) = copy_up (m(d := m s)) (d + 1) (s + 1) n"

definition memcpy :: "memory \<Rightarrow> u64 \<Rightarrow> u64 \<Rightarrow> u32 \<Rightarrow> memory" where
  "memcpy m dest src bytes = copy_up m dest src (unat bytes)"

text \<open>\<open>memcp\<close> has the source first and does nothing for a negative count.\<close>

definition memcp :: "memory \<Rightarrow> u64 \<Rightarrow> u64 \<Rightarrow> u32 \<Rightarrow> memory" where
  "memcp m source dest nbytes = copy_up m dest source (nat (sint nbytes))"

text \<open>The descending copy of \<open>memmove\<close>: \<open>d\<close> and \<open>s\<close> point past the bytes left to copy.\<close>

primrec copy_down :: "memory \<Rightarrow> u64 \<Rightarrow> u64 \<Rightarrow> nat \<Rightarrow> memory" where
  "copy_down m d s 0 = m"
| "copy_down m d s (Suc n) = copy_down (m(d - 1 := m (s - 1))) (d - 1) (s - 1) n"

definition memmove :: "memory \<Rightarrow> u64 \<Rightarrow> u64 \<Rightarrow> u64 \<Rightarrow> memory" where
  "memmove m dest src n =
    (if dest < src \<or> src + n \<le> dest then copy_up m dest src (unat n)
     else copy_down m (dest + n) (src + n) (unat n))"

primrec memcmp_loop :: "memory \<Rightarrow> u64 \<Rightarrow> u64 \<Rightarrow> nat \<Rightarrow> int" where
  "memcmp_loop m p1 p2 0 = 0"
| "memcmp_loop m p1 p2 (Suc n) =
    (if m p1 \<noteq> m p2 then uint (m p1) - uint (m p2) else memcmp_loop m (p1 + 1) (p2 + 1) n)"

definition memcmp :: "memory \<Rightarrow> u64 \<Rightarrow> u64 \<Rightarrow> u64 \<Rightarrow> int" where
  "memcmp m s1 s2 n = memcmp_loop m s1 s2 (unat n)"

section \<open>Regions, one byte at a time\<close>

lemma region_0 [simp]: "region a 0 = {}"
  by (simp add: region_def)

lemma region_Suc: "n < 2 ^ 64 \<Longrightarrow> region a (Suc n) = insert a (region (a + 1) n)"
proof (rule set_eqI)
  fix x
  assume n: "n < 2 ^ 64"
  have eq: "x - (a + 1) = (x - a) - 1" by simp
  show "x \<in> region a (Suc n) \<longleftrightarrow> x \<in> insert a (region (a + 1) n)"
  proof (cases "x = a")
    case False
    then have nz: "x - a \<noteq> 0" by simp
    from unat_pred_64 [OF nz] unat_pos_64 [OF nz]
    have "unat (x - (a + 1)) = unat (x - a) - 1" and "0 < unat (x - a)"
      by (simp_all only: eq)
    then show ?thesis using False by (auto simp: region_def)
  qed (simp add: region_def)
qed

text \<open>Membership by offset.\<close>

lemma region_iff_offset:
  "n < 2 ^ 64 \<Longrightarrow> x \<in> region a n \<longleftrightarrow> (\<exists>i < n. x = a + of_nat i)"
proof
  assume "x \<in> region a n"
  then have "unat (x - a) < n" and "x = a + of_nat (unat (x - a))" by (simp_all add: region_def)
  then show "\<exists>i < n. x = a + of_nat i" by blast
next
  assume n: "n < 2 ^ 64" and "\<exists>i < n. x = a + of_nat i"
  then obtain i where i: "i < n" "x = a + of_nat i" by blast
  then have "unat (of_nat i :: u64) = i" using n by (intro unat_of_nat_small) simp
  with i show "x \<in> region a n" by (simp add: region_def)
qed

section \<open>Contracts\<close>

lemma memset_loop_value:
  "n < 2 ^ 64 \<Longrightarrow> memset_loop m a v n x = (if x \<in> region a n then v else m x)"
proof (induction n arbitrary: m a)
  case (Suc n)
  then have n: "n < 2 ^ 64" by simp
  show ?case using Suc.IH [OF n] n by (auto simp: region_Suc)
qed simp

lemma memset_value: "memset m a v n x = (if x \<in> region a (unat n) then v else m x)"
proof -
  have "unat n < 2 ^ 64" by simp
  then show ?thesis unfolding memset_def by (rule memset_loop_value)
qed

lemma memset_frame: "S \<inter> region a (unat n) = {} \<Longrightarrow> agree_on S m (memset m a v n)"
  by (auto simp: agree_on_def memset_value)

lemma copy_up_frame: "n < 2 ^ 64 \<Longrightarrow> x \<notin> region d n \<Longrightarrow> copy_up m d s n x = m x"
proof (induction n arbitrary: m d s)
  case (Suc n)
  then have "n < 2 ^ 64" by simp
  with Suc show ?case by (simp add: region_Suc)
qed simp

text \<open>
  An ascending copy is exact unless the destination starts inside the source, after its first
  byte; a descending copy is exact unless the source starts inside the destination, after its
  first byte.
\<close>

lemma copy_up_value:
  assumes "n < 2 ^ 64" and "d = s \<or> n \<le> unat (d - s)" and "i < n"
  shows "copy_up m d s n (d + of_nat i) = m (s + of_nat i)"
  using assms
proof (induction n arbitrary: m d s i)
  case (Suc n)
  have n: "n < 2 ^ 64" using Suc.prems(1) by simp
  have rest: "copy_up (m(d := m s)) (d + 1) (s + 1) n (d + 1 + of_nat j) = m (s + 1 + of_nat j)"
    if j: "j < n" for j
  proof -
    have "s + 1 + of_nat j \<noteq> d \<or> d = s"
    proof (cases "d = s")
      case False
      have "d - s \<noteq> of_nat (Suc j)"
      proof
        assume "d - s = of_nat (Suc j)"
        moreover have "unat (of_nat (Suc j) :: u64) = Suc j"
          using j n by (intro unat_of_nat_small) simp
        ultimately show False using Suc.prems(2) False j by simp
      qed
      then show ?thesis by (auto simp: algebra_simps)
    qed simp
    then have "(m(d := m s)) (s + 1 + of_nat j) = m (s + 1 + of_nat j)"
      by (cases "d = s") (simp_all del: fun_upd_apply, simp)
    moreover have "d + 1 = s + 1 \<or> n \<le> unat (d + 1 - (s + 1))" using Suc.prems(2) by auto
    ultimately show ?thesis using Suc.IH [OF n _ j] by metis
  qed
  have start: "d \<notin> region (d + 1) n"
    using n by (simp add: region_def)
  show ?case
  proof (cases i)
    case 0
    then show ?thesis using copy_up_frame [OF n start] by simp
  next
    case (Suc j)
    then show ?thesis using rest [of j] Suc.prems(3) by (simp add: add.assoc)
  qed
qed simp

lemma copy_down_frame: "n < 2 ^ 64 \<Longrightarrow> x \<notin> region (d - of_nat n) n \<Longrightarrow> copy_down m d s n x = m x"
proof (induction n arbitrary: m d s)
  case (Suc n)
  have n: "n < 2 ^ 64" using Suc.prems(1) by simp
  have r: "region (d - of_nat (Suc n)) (Suc n) = insert (d - 1) (region (d - 1 - of_nat n) n)"
  proof (rule set_eqI)
    fix y
    have "(\<exists>i < Suc n. y = d - of_nat (Suc n) + of_nat i) \<longleftrightarrow>
        y = d - 1 \<or> (\<exists>i < n. y = d - 1 - of_nat n + of_nat i)"
      by (auto simp: less_Suc_eq)
    then show "y \<in> region (d - of_nat (Suc n)) (Suc n) \<longleftrightarrow>
        y \<in> insert (d - 1) (region (d - 1 - of_nat n) n)"
      using n Suc.prems(1) by (simp only: region_iff_offset insert_iff)
  qed
  show ?case using Suc.IH [OF n, of "d - 1"] Suc.prems(2) unfolding r by simp
qed simp

lemma copy_down_value:
  assumes "n < 2 ^ 64" and "d = s \<or> n \<le> unat (s - d)" and "i < n"
  shows "copy_down m (d + of_nat n) (s + of_nat n) n (d + of_nat i) = m (s + of_nat i)"
  using assms
proof (induction n arbitrary: m i)
  case (Suc n)
  have n: "n < 2 ^ 64" using Suc.prems(1) by simp
  let ?m = "m(d + of_nat n := m (s + of_nat n))"
  have step: "copy_down m (d + of_nat (Suc n)) (s + of_nat (Suc n)) (Suc n)
      = copy_down ?m (d + of_nat n) (s + of_nat n) n"
    by simp
  show ?case
  proof (cases "i = n")
    case True
    have "d + of_nat n \<notin> region (d + of_nat n - of_nat n) n"
      using n by (simp add: region_def unat_of_nat_small)
    then show ?thesis unfolding step using True copy_down_frame [OF n] by simp
  next
    case False
    then have i: "i < n" using Suc.prems(3) by simp
    have "s + of_nat i \<noteq> d + of_nat n \<or> d = s"
    proof (cases "d = s")
      case False
      have "s - d \<noteq> of_nat (n - i)"
      proof
        assume "s - d = of_nat (n - i)"
        moreover have "unat (of_nat (n - i) :: u64) = n - i"
          using n by (intro unat_of_nat_small) simp
        ultimately show False using Suc.prems(2) False i by simp
      qed
      then show ?thesis using i by (auto simp: algebra_simps)
    qed simp
    then have "?m (s + of_nat i) = m (s + of_nat i)"
      by (cases "d = s") (simp_all del: fun_upd_apply, simp)
    moreover have "d = s \<or> n \<le> unat (s - d)" using Suc.prems(2) by auto
    ultimately show ?thesis unfolding step using Suc.IH [OF n _ i, of ?m] by metis
  qed
qed simp

text \<open>What a faithful block copy leaves in memory.\<close>

definition copied :: "memory \<Rightarrow> u64 \<Rightarrow> u64 \<Rightarrow> nat \<Rightarrow> memory" where
  "copied m d s n = (\<lambda>x. if x \<in> region d n then m (s + (x - d)) else m x)"

lemma copied_inside: "n < 2 ^ 64 \<Longrightarrow> i < n \<Longrightarrow> copied m d s n (d + of_nat i) = m (s + of_nat i)"
  by (auto simp: copied_def region_iff_offset)

lemma copied_outside [simp]: "x \<notin> region d n \<Longrightarrow> copied m d s n x = m x"
  by (simp add: copied_def)

lemma eq_copiedI:
  assumes n: "n < 2 ^ 64" and "\<And>i. i < n \<Longrightarrow> m' (d + of_nat i) = m (s + of_nat i)"
    and "\<And>x. x \<notin> region d n \<Longrightarrow> m' x = m x"
  shows "m' = copied m d s n"
proof
  fix x
  show "m' x = copied m d s n x"
    using assms(2,3) by (cases "x \<in> region d n") (auto simp: copied_def region_iff_offset [OF n])
qed

lemma copy_up_copied:
  "n < 2 ^ 64 \<Longrightarrow> d = s \<or> n \<le> unat (d - s) \<Longrightarrow> copy_up m d s n = copied m d s n"
  by (rule eq_copiedI) (simp_all add: copy_up_value copy_up_frame)

lemma copy_down_copied:
  assumes n: "n < 2 ^ 64" and "d = s \<or> n \<le> unat (s - d)"
  shows "copy_down m (d + of_nat n) (s + of_nat n) n = copied m d s n"
proof (rule eq_copiedI [OF n])
  show "copy_down m (d + of_nat n) (s + of_nat n) n (d + of_nat i) = m (s + of_nat i)"
    if "i < n" for i
    using assms that by (rule copy_down_value)
  show "copy_down m (d + of_nat n) (s + of_nat n) n x = m x" if "x \<notin> region d n" for x
    using that by (intro copy_down_frame [OF n]) simp
qed

lemma memcpy_copied:
  "dest = src \<or> unat bytes \<le> unat (dest - src) \<Longrightarrow>
    memcpy m dest src bytes = copied m dest src (unat bytes)"
  unfolding memcpy_def by (rule copy_up_copied) simp_all

lemma unat_diff_wrap:
  fixes a b :: u64
  shows "unat (a - b) = (if b \<le> a then unat a - unat b else 2 ^ 64 + unat a - unat b)"
proof -
  have ab: "a = of_nat (unat a)" "b = of_nat (unat b)" by simp_all
  show ?thesis
  proof (cases "b \<le> a")
    case True
    then show ?thesis
      using unat_diff_of_nat [of "unat b" "unat a", where 'a = 64] by (simp add: word_le_unat)
  next
    case False
    then show ?thesis
      using unat_diff_of_nat_neg [of "unat a" "unat b", where 'a = 64] by (simp add: word_le_unat)
  qed
qed

lemma memmove_eq:
  assumes "unat src + unat n \<le> 2 ^ 64 - 1" and "unat dest + unat n \<le> 2 ^ 64 - 1"
  shows "memmove m dest src n = copied m dest src (unat n)"
proof -
  have sn: "unat (src + n) = unat src + unat n" 
    using assms(1) by (intro unat_add_lem [THEN iffD1]) simp
  have n: "unat n < 2 ^ 64" by simp
  show ?thesis
  proof (cases "dest < src \<or> src + n \<le> dest")
    case True
    then have "dest = src \<or> unat n \<le> unat (dest - src)"
      using assms sn by (auto simp: unat_diff_wrap word_le_unat word_less_unat word_unat_eq_iff)
    then show ?thesis using True n by (simp add: memmove_def copy_up_copied)
  next
    case False
    then have "dest = src \<or> unat n \<le> unat (src - dest)"
      using assms sn by (auto simp: unat_diff_wrap word_le_unat word_less_unat word_unat_eq_iff)
    then show ?thesis using False copy_down_copied [OF n] by (simp add: memmove_def)
  qed
qed

text \<open>
  C21.  \<open>memmove\<close> copies the \<open>n\<close> source bytes exactly, however the two operands overlap, and
  changes nothing else, as long as neither operand wraps around the end of the address space.
\<close>

theorem memmove_copied:
  assumes "unat src + unat n \<le> 2 ^ 64 - 1" and "unat dest + unat n \<le> 2 ^ 64 - 1"
  shows "memmove m dest src n x =
    (if x \<in> region dest (unat n) then m (src + (x - dest)) else m x)"
  unfolding memmove_eq [OF assms] by (simp add: copied_def)

lemma memmove_copied_witness:
  "memmove (\<lambda>a. ucast a) 0x1001 0x1000 4 0x1004 = 3"
  using memmove_copied [where src = "0x1000" and n = 4 and dest = "0x1001" and x = "0x1004"
      and m = "\<lambda>a. ucast a"] by (simp add: region_def)

end
