(* ===== verification/Vga.thy ===== *)
theory Vga
  imports Machine MemOps
begin

text \<open>
  The VGA text console of \<open>drivers/output/vga.c\<close>: the hardware cursor, writing a cell of the
  80 x 25 text buffer at 0xB8000, \<open>kputchar\<close> with its control characters, scrolling and
  clearing.  Offsets into the buffer are byte offsets of type \<open>uint16_t\<close>, two bytes per
  cell; the cursor registers count cells.
\<close>

section \<open>Definitions\<close>

definition VIDEO_ADDRESS :: u64 where "VIDEO_ADDRESS = 0xb8000"
definition MAX_ROWS :: nat where "MAX_ROWS = 25"
definition MAX_COLS :: nat where "MAX_COLS = 80"
definition WHITE_ON_BLACK :: u8 where "WHITE_ON_BLACK = 0x0f"
definition GRAY_ON_BLACK :: u8 where "GRAY_ON_BLACK = 0x07"
definition REG_SCREEN_CTRL :: u16 where "REG_SCREEN_CTRL = 0x3d4"
definition REG_SCREEN_DATA :: u16 where "REG_SCREEN_DATA = 0x3d5"

lemmas vga_consts = VIDEO_ADDRESS_def MAX_ROWS_def MAX_COLS_def WHITE_ON_BLACK_def
  GRAY_ON_BLACK_def REG_SCREEN_CTRL_def REG_SCREEN_DATA_def

definition get_cursor :: "'a machine_scheme \<Rightarrow> u16 \<times> 'a machine_scheme" where
  "get_cursor s =
    (let s1 = outb REG_SCREEN_CTRL 14 s;
         (high_byte, s2) = inb REG_SCREEN_DATA s1;
         s3 = outb REG_SCREEN_CTRL 15 s2;
         (low_byte, s4) = inb REG_SCREEN_DATA s3
     in ((push_bit 8 (ucast high_byte) + ucast low_byte) * 2, s4))"

definition set_cursor :: "u16 \<Rightarrow> 'a machine_scheme \<Rightarrow> 'a machine_scheme" where
  "set_cursor pos s =
    (let pos = pos div 2;
         s1 = outb REG_SCREEN_CTRL 14 s;
         s2 = outb REG_SCREEN_DATA (ucast (drop_bit 8 pos)) s1;
         s3 = outb REG_SCREEN_CTRL 15 s2
     in outb REG_SCREEN_DATA (ucast (pos AND 0xff)) s3)"

definition vga_write :: "u8 \<Rightarrow> u8 \<Rightarrow> u16 \<Rightarrow> 'a machine_scheme \<Rightarrow> 'a machine_scheme" where
  "vga_write character attribute_byte offset s =
    s\<lparr>mem := (mem s)(VIDEO_ADDRESS + ucast offset := character,
                     VIDEO_ADDRESS + (ucast offset + 1) := attribute_byte)\<rparr>"

function scroll_rows :: "nat \<Rightarrow> memory \<Rightarrow> memory" where
  "scroll_rows i m =
    (if i < MAX_ROWS then
       scroll_rows (i + 1) (memcpy m (VIDEO_ADDRESS + of_nat (MAX_COLS * i * 2))
         (VIDEO_ADDRESS + of_nat (MAX_COLS * (i - 1) * 2)) (of_nat (MAX_COLS * 2)))
     else m)"
  by pat_completeness auto
termination
  by (relation "measure (\<lambda>(i, m). MAX_ROWS - i)") auto

declare scroll_rows.simps [simp del]

definition scroll_line :: "'a machine_scheme \<Rightarrow> 'a machine_scheme" where
  "scroll_line s =
    (let s1 = s\<lparr>mem := scroll_rows 1 (mem s)\<rparr>;
         last_line = of_nat (MAX_COLS * MAX_ROWS * 2 - MAX_COLS * 2);
         s2 = fold (\<lambda>i. vga_write 0 WHITE_ON_BLACK (last_line + of_nat i * 2)) [0 ..< MAX_COLS] s1
     in set_cursor last_line s2)"

definition kclear :: "'a machine_scheme \<Rightarrow> 'a machine_scheme" where
  "kclear s =
    set_cursor 0 (fold (\<lambda>i. vga_write 0 WHITE_ON_BLACK (of_nat (2 * i))) [0 ..< MAX_ROWS * MAX_COLS] s)"

text \<open>\<open>kputchar\<close>: the backspace branch calls \<open>kputchar\<close> itself, once, with a space.\<close>

function kputchar :: "u8 \<Rightarrow> u8 \<Rightarrow> 'a machine_scheme \<Rightarrow> 'a machine_scheme" where
  "kputchar character attribute_byte s =
    (let (offset, s) = get_cursor s in
     if character = 10 then
       (if offset div 2 div of_nat MAX_COLS = of_nat (MAX_ROWS - 1) then scroll_line s
        else set_cursor ((offset - offset mod of_nat (MAX_COLS * 2)) + of_nat (MAX_COLS * 2)) s)
     else if character = 8 then
       (let (pos, s) = get_cursor s;
            s = set_cursor (pos - 1) s;
            s = kputchar 32 attribute_byte s;
            (pos, s) = get_cursor s
        in set_cursor (pos - 2) s)
     else
       (let s = (if offset = of_nat (MAX_COLS * MAX_ROWS * 2) then scroll_line s else s);
            s = vga_write character attribute_byte offset s
        in set_cursor (offset + 2) s))"
  by pat_completeness auto
termination
  by (relation "measure (\<lambda>(c, _). if c = 8 then 1 else 0)") auto

declare kputchar.simps [simp del]

partial_function (option) kprint :: "u64 \<Rightarrow> 'a machine_scheme \<Rightarrow> 'a machine_scheme option" where
  "kprint str s =
    (if mem s str = 0 then Some s
     else kprint (str + 1) (kputchar (mem s str) GRAY_ON_BLACK s))"

definition get_cursor_x :: "'a machine_scheme \<Rightarrow> u16 \<times> 'a machine_scheme" where
  "get_cursor_x s = (let (offset, s) = get_cursor s in (offset mod of_nat (MAX_COLS * 2), s))"

definition get_cursor_y :: "'a machine_scheme \<Rightarrow> u16 \<times> 'a machine_scheme" where
  "get_cursor_y s = (let (offset, s) = get_cursor s in (offset div of_nat (MAX_COLS * 2), s))"

definition set_cursor_x :: "u16 \<Rightarrow> 'a machine_scheme \<Rightarrow> 'a machine_scheme" where
  "set_cursor_x x s =
    (let (offset, s) = get_cursor s;
         new_offset = (offset div of_nat (MAX_COLS * 2)) * of_nat (MAX_COLS * 2) + x * 2
     in set_cursor new_offset s)"

definition set_cursor_y :: "u16 \<Rightarrow> 'a machine_scheme \<Rightarrow> 'a machine_scheme" where
  "set_cursor_y y s =
    (let (offset, s) = get_cursor s;
         new_offset = y * of_nat MAX_COLS * 2 + offset mod of_nat (MAX_COLS * 2)
     in set_cursor new_offset s)"

section \<open>What the console leaves alone\<close>

text \<open>
  The window of memory that an offset of 16 bits can reach.  Every console operation changes
  only this window and the port history.
\<close>

definition video_window :: "u64 set" where
  "video_window = region VIDEO_ADDRESS 65537"

text \<open>The history grows, by events of the given kind only.\<close>

definition ports_by :: "(io_event \<Rightarrow> bool) \<Rightarrow> io_history \<Rightarrow> io_history \<Rightarrow> bool" where
  "ports_by P h h' \<longleftrightarrow> (\<exists>k. h' = k @ h \<and> (\<forall>e \<in> set k. P e))"

lemma ports_by_refl [simp]: "ports_by P h h"
  by (simp add: ports_by_def)

lemma ports_by_trans: "ports_by P h h' \<Longrightarrow> ports_by P h' h'' \<Longrightarrow> ports_by P h h''"
  unfolding ports_by_def
proof (elim exE conjE)
  fix k k'
  assume "h' = k @ h" "\<forall>e \<in> set k. P e" "h'' = k' @ h'" "\<forall>e \<in> set k'. P e"
  then show "\<exists>k. h'' = k @ h \<and> (\<forall>e \<in> set k. P e)" by (intro exI [of _ "k' @ k"]) auto
qed

lemma ports_by_Cons [simp]: "P e \<Longrightarrow> ports_by P h h' \<Longrightarrow> ports_by P h (e # h')"
  unfolding ports_by_def
proof (elim exE conjE)
  fix k
  assume "P e" "h' = k @ h" "\<forall>e \<in> set k. P e"
  then show "\<exists>k. e # h' = k @ h \<and> (\<forall>e \<in> set k. P e)" by (intro exI [of _ "e # k"]) simp
qed

text \<open>The ports of the cursor registers.\<close>

fun crtc_event :: "io_event \<Rightarrow> bool" where
  "crtc_event (PortIn w p v) \<longleftrightarrow> w = IO8 \<and> p = REG_SCREEN_DATA"
| "crtc_event (PortOut w p v) \<longleftrightarrow> w = IO8 \<and> (p = REG_SCREEN_CTRL \<or> p = REG_SCREEN_DATA)"

definition con_frame :: "'a machine_scheme \<Rightarrow> 'a machine_scheme \<Rightarrow> bool" where
  "con_frame s s' \<longleftrightarrow> machine.more s' = machine.more s \<and> bus s' = bus s \<and>
     cr0 s' = cr0 s \<and> cr3 s' = cr3 s \<and> cr4 s' = cr4 s \<and> msrs s' = msrs s \<and> iflag s' = iflag s \<and>
     ports_by crtc_event (io s) (io s') \<and> agree_on (- video_window) (mem s) (mem s')"

lemma con_frame_refl [simp]: "con_frame s s"
  by (simp add: con_frame_def)

lemma con_frame_trans [trans]: "con_frame s s' \<Longrightarrow> con_frame s' s'' \<Longrightarrow> con_frame s s''"
  by (auto simp: con_frame_def intro: agree_on_trans ports_by_trans)

lemma con_frame_bus: "con_frame s s' \<Longrightarrow> bus s' = bus s"
  by (simp add: con_frame_def)

lemma con_frame_mem: "con_frame s s' \<Longrightarrow> x \<notin> video_window \<Longrightarrow> mem s' x = mem s x"
  by (simp add: con_frame_def agree_on_def)

lemma con_frame_fold: "(\<And>x s. con_frame s (f x s)) \<Longrightarrow> con_frame s (fold f xs s)"
  by (induction xs arbitrary: s) (auto intro: con_frame_trans)

text \<open>The \<open>k\<close>-th byte of the window.\<close>

definition vaddr :: "nat \<Rightarrow> u64" where
  "vaddr k = of_nat (0xb8000 + k)"

lemma vaddr_eq: "VIDEO_ADDRESS + of_nat k = vaddr k"
  by (simp add: vaddr_def VIDEO_ADDRESS_def)

lemma vaddr_offset: "VIDEO_ADDRESS + ucast (o16 :: u16) = vaddr (unat o16)"
  "VIDEO_ADDRESS + (ucast o16 + 1) = vaddr (Suc (unat o16))"
  by (simp_all add: vaddr_def VIDEO_ADDRESS_def algebra_simps)

lemma vaddr_inj: "j < 2 ^ 32 \<Longrightarrow> k < 2 ^ 32 \<Longrightarrow> vaddr j = vaddr k \<longleftrightarrow> j = k"
  unfolding vaddr_def by (subst of_nat_inj_small) auto

lemma unat_vaddr: "k < 2 ^ 32 \<Longrightarrow> unat (vaddr k) = 0xb8000 + k"
  unfolding vaddr_def by (rule unat_of_nat_small) simp

lemma vaddr_region: "j < 2 ^ 32 \<Longrightarrow> k + n < 2 ^ 32 \<Longrightarrow> vaddr j \<in> region (vaddr k) n \<longleftrightarrow> k \<le> j \<and> j < k + n"
  unfolding vaddr_def [of k] by (subst mem_region_of_nat) (auto simp: unat_vaddr)

lemma vaddr_in_window: "k < 65537 \<Longrightarrow> vaddr k \<in> video_window"
  using vaddr_region [of k 0 65537] vaddr_eq [of 0] by (simp add: video_window_def)

lemma con_frame_get_cursor [simp]: "con_frame s (snd (get_cursor s))"
  by (simp add: con_frame_def get_cursor_def Let_def outb_def inb_def)

lemma con_frame_set_cursor [simp]: "con_frame s (set_cursor pos s)"
  by (simp add: con_frame_def set_cursor_def Let_def outb_def)

lemma con_frame_vga_write [simp]: "con_frame s (vga_write c a off s)"
  using vaddr_in_window [of "unat off"] vaddr_in_window [of "Suc (unat off)"] unat_lt_16 [of off]
  by (auto simp: con_frame_def vga_write_def vaddr_offset agree_on_def simp del: unat_lt_16)

lemma scroll_rows_frame: "1 \<le> i \<Longrightarrow> agree_on (- video_window) m (scroll_rows i m)"
proof (induction i m rule: scroll_rows.induct)
  case (1 i m)
  show ?case
  proof (cases "i < 25")
    case True
    let ?V = VIDEO_ADDRESS
    have sub: "region (?V + of_nat (80 * i * 2)) 160 \<subseteq> video_window"
    proof
      fix x
      assume "x \<in> region (?V + of_nat (80 * i * 2)) 160"
      then obtain j where "j < 160" "x = vaddr (80 * i * 2 + j)"
        by (auto simp: region_iff_offset vaddr_eq [symmetric] algebra_simps)
      then show "x \<in> video_window" using True vaddr_in_window by simp
    qed
    have "agree_on (- video_window) m (memcpy m (?V + of_nat (80 * i * 2))
        (?V + of_nat (80 * (i - 1) * 2)) (of_nat (80 * 2)))"
      using sub by (auto simp: agree_on_def memcpy_def intro!: copy_up_frame)
    then show ?thesis
      using "1.IH" "1.prems" True
      by (subst scroll_rows.simps) (auto simp: MAX_ROWS_def MAX_COLS_def intro: agree_on_trans)
  next
    case False
    then show ?thesis by (subst scroll_rows.simps) (simp add: MAX_ROWS_def)
  qed
qed

lemma con_frame_scroll_line [simp]: "con_frame s (scroll_line s)"
proof -
  let ?s1 = "s\<lparr>mem := scroll_rows 1 (mem s)\<rparr>"
  have "con_frame s ?s1" using scroll_rows_frame [of 1 "mem s"] by (simp add: con_frame_def)
  also have "con_frame ?s1 (fold (\<lambda>i. vga_write 0 WHITE_ON_BLACK
      (of_nat (MAX_COLS * MAX_ROWS * 2 - MAX_COLS * 2) + of_nat i * 2)) [0 ..< MAX_COLS] ?s1)"
    by (rule con_frame_fold) simp
  also have "con_frame \<dots> (scroll_line s)"
    unfolding scroll_line_def Let_def by simp
  finally show ?thesis .
qed

lemma con_frame_kclear [simp]: "con_frame s (kclear s)"
proof -
  have "con_frame s (fold (\<lambda>i. vga_write 0 WHITE_ON_BLACK (of_nat (2 * i))) [0 ..< MAX_ROWS * MAX_COLS] s)"
    by (rule con_frame_fold) simp
  also have "con_frame \<dots> (kclear s)" unfolding kclear_def by simp
  finally show ?thesis .
qed

section \<open>Printing a character\<close>

lemma kputchar_newline_eq:
  "get_cursor s = (off, t) \<Longrightarrow> kputchar 10 a s =
    (if off div 2 div 80 = 24 then scroll_line t else set_cursor ((off - off mod 160) + 160) t)"
  by (subst kputchar.simps) (simp add: MAX_COLS_def MAX_ROWS_def)

lemma kputchar_char_eq:
  "get_cursor s = (off, t) \<Longrightarrow> c \<noteq> 10 \<Longrightarrow> c \<noteq> 8 \<Longrightarrow> kputchar c a s =
    set_cursor (off + 2) (vga_write c a off (if off = 4000 then scroll_line t else t))"
  by (subst kputchar.simps) (simp add: MAX_COLS_def MAX_ROWS_def)

lemma kputchar_backspace_eq:
  "get_cursor s = (off, s0) \<Longrightarrow> get_cursor s0 = (pos, s1) \<Longrightarrow>
    get_cursor (kputchar 32 a (set_cursor (pos - 1) s1)) = (pos2, s3) \<Longrightarrow>
    kputchar 8 a s = set_cursor (pos2 - 2) s3"
  by (subst kputchar.simps) simp

lemma con_frame_get: "get_cursor s = (off, t) \<Longrightarrow> con_frame s t"
  using con_frame_get_cursor [of s] by simp

lemma con_frame_kputchar_char:
  assumes "c \<noteq> 10" and "c \<noteq> 8"
  shows "con_frame s (kputchar c a s)"
proof -
  obtain off t where g: "get_cursor s = (off, t)" by (cases "get_cursor s")
  then have "con_frame s t" by (rule con_frame_get)
  also have "con_frame t (if off = 4000 then scroll_line t else t)" by simp
  also have "con_frame \<dots> (vga_write c a off \<dots>)" by simp
  also have "con_frame \<dots> (kputchar c a s)" using assms by (simp add: kputchar_char_eq [OF g])
  finally show ?thesis .
qed

lemma con_frame_kputchar [simp]: "con_frame s (kputchar c a s)"
proof -
  obtain off s0 where g: "get_cursor s = (off, s0)" by (cases "get_cursor s")
  then have f0: "con_frame s s0" by (rule con_frame_get)
  consider "c = 10" | "c = 8" | "c \<noteq> 10" "c \<noteq> 8" by blast
  then show ?thesis
  proof cases
    case 1
    then show ?thesis using f0 con_frame_trans [OF f0 con_frame_scroll_line]
        con_frame_trans [OF f0 con_frame_set_cursor] by (simp add: kputchar_newline_eq [OF g])
  next
    case 2
    obtain pos s1 where g1: "get_cursor s0 = (pos, s1)" by (cases "get_cursor s0")
    let ?s2 = "kputchar 32 a (set_cursor (pos - 1) s1)"
    obtain pos2 s3 where g2: "get_cursor ?s2 = (pos2, s3)" by (cases "get_cursor ?s2")
    note f0
    also have "con_frame s0 s1" using g1 by (rule con_frame_get)
    also have "con_frame s1 (set_cursor (pos - 1) s1)" by simp
    also have "con_frame \<dots> ?s2" by (rule con_frame_kputchar_char) simp_all
    also have "con_frame \<dots> s3" using g2 by (rule con_frame_get)
    also have "con_frame s3 (set_cursor (pos2 - 2) s3)" by simp
    finally show ?thesis using 2 by (simp add: kputchar_backspace_eq [OF g g1 g2])
  next
    case 3
    then show ?thesis by (rule con_frame_kputchar_char)
  qed
qed

end
