(* ===== verification/CString.thy ===== *)
theory CString
  imports MemOps
begin

text \<open>
  NUL-terminated strings in memory, the representation all of \<open>libc/string.c\<close> works on.
\<close>

text \<open>The bytes at \<open>p\<close> are those of \<open>bs\<close>, none of them NUL, followed by a NUL.\<close>

fun cstr :: "memory \<Rightarrow> u64 \<Rightarrow> u8 list \<Rightarrow> bool" where
  "cstr m p [] \<longleftrightarrow> m p = 0"
| "cstr m p (b # bs) \<longleftrightarrow> b \<noteq> 0 \<and> m p = b \<and> cstr m (p + 1) bs"

lemma region_step: "x \<in> region (p + 1) n \<Longrightarrow> n < 2 ^ 64 \<Longrightarrow> x \<in> region p (Suc n)"
  by (simp add: region_Suc)

lemma cstr_agree:
  "cstr m p bs \<Longrightarrow> agree_on (region p (Suc (length bs))) m m' \<Longrightarrow> length bs < 2 ^ 64 \<Longrightarrow> cstr m' p bs"
proof (induction m p bs rule: cstr.induct)
  case (1 m p)
  then show ?case by (simp add: agree_on_def region_def)
next
  case (2 m p b bs)
  have "agree_on (region (p + 1) (Suc (length bs))) m m'"
    using "2.prems"(2,3) by (simp add: region_Suc agree_on_def)
  moreover have "m' p = m p" using "2.prems"(2) by (simp add: agree_on_def region_def)
  ultimately show ?case using 2 by simp
qed

lemma cstr_unique: "cstr m p bs \<Longrightarrow> cstr m p cs \<Longrightarrow> bs = cs"
  by (induction m p bs arbitrary: cs rule: cstr.induct; case_tac cs) auto

lemma cstr_nth: "cstr m p bs \<Longrightarrow> i < length bs \<Longrightarrow> m (p + of_nat i) = bs ! i \<and> bs ! i \<noteq> 0"
proof (induction m p bs arbitrary: i rule: cstr.induct)
  case (2 m p b bs)
  then show ?case using "2.IH" [of "i - 1"] by (cases i) (simp_all add: add.assoc)
qed simp

lemma cstr_end: "cstr m p bs \<Longrightarrow> m (p + of_nat (length bs)) = 0"
  by (induction m p bs rule: cstr.induct) (simp_all add: add.assoc)

end
