(* ===== verification/Console.thy ===== *)
theory Console
  imports Vga CString
begin

text \<open>
  What the VGA console of \<open>Vga\<close> does, on every branch, for a machine whose cursor registers
  behave as documented (\<open>crtc_ok\<close>): the cursor round trip, the cells after a scroll, after a
  character, a newline and a backspace, and after a whole string.
\<close>

section \<open>The cursor\<close>

definition cursor :: "'a machine_scheme \<Rightarrow> u16 option" where
  "cursor s = cursor_of (io s)"

lemma join_bytes16:
  "push_bit 8 (ucast (ucast (drop_bit 8 p) :: u8)) + ucast (ucast (p AND 0xff) :: u8) = (p :: u16)"
proof -
  have "push_bit 8 (ucast (ucast (drop_bit 8 p) :: u8)) + ucast (ucast (p AND 0xff) :: u8)
      = push_bit 8 (ucast (ucast (drop_bit 8 p) :: u8)) OR (ucast (ucast (p AND 0xff) :: u8) :: u16)"
    by (rule disjunctive_add) (auto simp: bit_simps)
  also have "\<dots> = p"
  proof (rule bit_word_eqI)
    fix n
    assume "n < LENGTH(16)"
    moreover have "p AND 0xff = take_bit 8 p" by (simp add: take_bit_eq_mask mask_eq_exp_minus_1)
    ultimately show "bit (push_bit 8 (ucast (ucast (drop_bit 8 p) :: u8))
        OR (ucast (ucast (p AND 0xff) :: u8) :: u16)) n = bit p n"
      by (cases "n < 8") (auto simp: bit_simps)
  qed
  finally show ?thesis .
qed

lemma cursor_set_cursor [simp]: "cursor (set_cursor pos s) = Some (pos div 2)"
  using join_bytes16 [of "pos div 2"]
  by (simp add: cursor_def cursor_of_def set_cursor_def Let_def outb_def vga_consts)

lemma cursor_vga_write [simp]: "cursor (vga_write c a off s) = cursor s"
  by (simp add: cursor_def vga_write_def)

lemma cursor_mem_update [simp]: "cursor (s\<lparr>mem := m\<rparr>) = cursor s"
  by (simp add: cursor_def)

lemma crtc_okD:
  "crtc_ok b \<Longrightarrow> i = 14 \<or> i = 15 \<Longrightarrow> crtc_index h = Some i \<Longrightarrow> crtc_reg i h = Some v \<Longrightarrow>
    ucast (b h IO8 0x3d5) = v"
  unfolding crtc_ok_def by blast

lemma get_cursor_value:
  assumes "crtc_ok (bus s)" and "cursor s = Some c"
  shows "fst (get_cursor s) = c * 2" and "cursor (snd (get_cursor s)) = Some c"
proof -
  obtain hi lo where r: "crtc_reg 14 (io s) = Some hi" "crtc_reg 15 (io s) = Some lo"
      "c = push_bit 8 (ucast hi) + ucast lo"
    using assms(2) by (auto simp: cursor_def cursor_of_def split: option.splits)
  define h1 where "h1 = PortOut IO8 0x3d4 14 # io s"
  define v1 where "v1 = (ucast (bus s h1 IO8 0x3d5) :: u8)"
  have v1: "v1 = hi"
    unfolding v1_def by (rule crtc_okD [OF assms(1), of 14]) (simp_all add: h1_def r)
  define h2 where "h2 = PortOut IO8 0x3d4 15 # PortIn IO8 0x3d5 (ucast v1) # h1"
  define v2 where "v2 = (ucast (bus s h2 IO8 0x3d5) :: u8)"
  have v2: "v2 = lo"
    unfolding v2_def by (rule crtc_okD [OF assms(1), of 15]) (simp_all add: h2_def h1_def r)
  have "get_cursor s = ((push_bit 8 (ucast v1) + ucast v2) * 2,
      s\<lparr>io := PortIn IO8 0x3d5 (ucast v2) # h2\<rparr>)"
    by (simp add: get_cursor_def outb_def inb_def vga_consts h1_def h2_def v1_def v2_def Let_def)
  then show "fst (get_cursor s) = c * 2" and "cursor (snd (get_cursor s)) = Some c"
    by (simp_all add: v1 v2 r cursor_def cursor_of_def h1_def h2_def)
qed

lemma get_cursor_mem [simp]: "mem (snd (get_cursor s)) = mem s"
  by (simp add: get_cursor_def Let_def outb_def inb_def)

lemma set_cursor_mem [simp]: "mem (set_cursor p s) = mem s"
  by (simp add: set_cursor_def Let_def outb_def)

lemma get_cursor_bus [simp]: "bus (snd (get_cursor s)) = bus s"
  by (simp add: get_cursor_def Let_def outb_def inb_def)

lemma set_cursor_bus [simp]: "bus (set_cursor p s) = bus s"
  by (simp add: set_cursor_def Let_def outb_def)

lemma vga_write_bus [simp]: "bus (vga_write c a off s) = bus s"
  by (simp add: vga_write_def)

text \<open>A state in which the cursor stands on cell \<open>c\<close>.\<close>

definition at_cell :: "nat \<Rightarrow> 'a machine_scheme \<Rightarrow> bool" where
  "at_cell c s \<longleftrightarrow> crtc_ok (bus s) \<and> c < 32768 \<and> cursor s = Some (of_nat c)"

lemma at_cell_get_cursor:
  assumes "at_cell c s"
  obtains s' where "get_cursor s = (of_nat (2 * c), s')" and "at_cell c s'" and "mem s' = mem s"
    and "con_frame s s'"
proof -
  from assms have c: "crtc_ok (bus s)" "cursor s = Some (of_nat c)" by (simp_all add: at_cell_def)
  have "get_cursor s = (of_nat (2 * c), snd (get_cursor s))"
    using get_cursor_value(1) [OF c] by (simp add: prod_eq_iff mult.commute)
  moreover have "at_cell c (snd (get_cursor s))"
    using get_cursor_value(2) [OF c] assms by (simp add: at_cell_def)
  ultimately show ?thesis using that by auto
qed

lemma at_cell_set_cursor:
  assumes "crtc_ok (bus s)" and "p < 65536"
  shows "at_cell (p div 2) (set_cursor (of_nat p) s)"
  using assms of_nat_div_small [of p 2, where 'a = 16] by (simp add: at_cell_def)

lemma at_cellD: "at_cell c s \<Longrightarrow> crtc_ok (bus s)"
  by (simp add: at_cell_def)

section \<open>Scrolling\<close>

text \<open>The character and the attribute shown in a cell.\<close>

definition cell :: "nat \<Rightarrow> 'a machine_scheme \<Rightarrow> u8 \<times> u8" where
  "cell k s = (mem s (vaddr (2 * k)), mem s (vaddr (2 * k + 1)))"

text \<open>
  One iteration copies row \<open>i - 1\<close> onto row \<open>i\<close>, so the loop spreads the row above its first
  index over all the rows below.
\<close>

lemma scroll_copy:
  assumes "1 \<le> i" and "i < 25" and "k < 65537"
  shows "memcpy m (VIDEO_ADDRESS + of_nat (80 * i * 2)) (VIDEO_ADDRESS + of_nat (80 * (i - 1) * 2))
      (of_nat (80 * 2)) (vaddr k) =
    (if 160 * i \<le> k \<and> k < 160 * i + 160 then m (vaddr (k - 160)) else m (vaddr k))"
proof -
  have d: "vaddr (160 * i) - vaddr (160 * (i - 1)) = (160 :: u64)"
    using assms by (cases i) (simp_all add: vaddr_def algebra_simps)
  have "memcpy m (vaddr (160 * i)) (vaddr (160 * (i - 1))) 160
      = copied m (vaddr (160 * i)) (vaddr (160 * (i - 1))) 160"
    using memcpy_copied [of "vaddr (160 * i)" "vaddr (160 * (i - 1))" 160 m] unfolding d by simp
  moreover have "vaddr (160 * (i - 1)) + (vaddr k - vaddr (160 * i)) = vaddr (k - 160)"
    if "160 * i \<le> k"
    using that assms by (cases i) (simp_all add: vaddr_def algebra_simps)
  moreover have "80 * i * 2 = 160 * i" "80 * (i - 1) * 2 = 160 * (i - 1)" "of_nat (80 * 2) = (160 :: u32)"
    by simp_all
  ultimately show ?thesis
    using assms vaddr_region [of k "160 * i" 160] unfolding vaddr_eq by (auto simp: copied_def)
qed

lemma scroll_rows_value:
  assumes "1 \<le> i" and "k < 65537"
  shows "scroll_rows i m (vaddr k) =
    (if 160 * i \<le> k \<and> k < 4000 then m (vaddr (160 * (i - 1) + k mod 160)) else m (vaddr k))"
  using assms
proof (induction i m rule: scroll_rows.induct)
  case (1 i m)
  show ?case
  proof (cases "i < 25")
    case False
    then show ?thesis by (subst scroll_rows.simps) (auto simp: MAX_ROWS_def)
  next
    case True
    let ?m = "memcpy m (VIDEO_ADDRESS + of_nat (80 * i * 2)) (VIDEO_ADDRESS + of_nat (80 * (i - 1) * 2))
      (of_nat (80 * 2))"
    have step: "scroll_rows i m (vaddr k) = scroll_rows (i + 1) ?m (vaddr k)"
      using True by (subst scroll_rows.simps) (simp add: MAX_ROWS_def MAX_COLS_def)
    have IH: "scroll_rows (i + 1) ?m (vaddr k) =
      (if 160 * (i + 1) \<le> k \<and> k < 4000 then ?m (vaddr (160 * i + k mod 160)) else ?m (vaddr k))"
      using "1.IH" [unfolded MAX_ROWS_def MAX_COLS_def, OF True] "1.prems" by simp
    have copy: "?m (vaddr j) =
      (if 160 * i \<le> j \<and> j < 160 * i + 160 then m (vaddr (j - 160)) else m (vaddr j))"
      if "j < 65537" for j
      using scroll_copy [OF "1.prems"(1) True that] .
    have r: "k mod 160 < 160" by simp
    consider "k < 160 * i \<or> 4000 \<le> k" | "160 * i \<le> k" "k < 160 * i + 160"
      | "160 * i + 160 \<le> k" "k < 4000" by linarith
    then show ?thesis
    proof cases
      case 1
      then show ?thesis using True step IH copy [OF "1.prems"(2)] by auto
    next
      case 2
      then have "k mod 160 = k - 160 * i"
        by (metis add_diff_cancel_left' le_iff_add less_diff_conv2 mod_less mod_mult_self2 add.commute mult.commute)
      then show ?thesis using 2 True step IH copy [OF "1.prems"(2)] "1.prems"(1)
        by (simp add: diff_mult_distrib2)
    next
      case 3
      then show ?thesis
        using True step IH copy [of "160 * i + k mod 160"] r "1.prems"(1) by (simp add: diff_mult_distrib2)
    qed
  qed
qed

lemma vga_write_at:
  assumes "o' < 65536" and "k < 65537"
  shows "mem (vga_write c a (of_nat o') s) (vaddr k) =
    (if k = o' + 1 then a else if k = o' then c else mem s (vaddr k))"
proof -
  have "unat (of_nat o' :: u16) = o'" using assms by (intro unat_of_nat_small) simp
  then show ?thesis using assms by (simp add: vga_write_def vaddr_offset vaddr_inj)
qed

lemma vga_fill_at:
  assumes "b + 2 * n \<le> 65536" and "k < 65537"
  shows "mem (fold (\<lambda>i. vga_write c a (of_nat (b + 2 * i))) [0 ..< n] s) (vaddr k) =
    (if b \<le> k \<and> k < b + 2 * n then if even (k - b) then c else a else mem s (vaddr k))"
  using assms(1)
proof (induction n)
  case (Suc n)
  have w: "mem (vga_write c a (of_nat (b + 2 * n)) t) (vaddr k) =
      (if k = b + 2 * n + 1 then a else if k = b + 2 * n then c else mem t (vaddr k))" for t :: "'a machine_scheme"
    using vga_write_at [of "b + 2 * n" k c a t] Suc.prems assms(2) by simp
  show ?case using Suc by (simp add: w del: of_nat_add of_nat_mult)
qed auto

lemma cursor_vga_fill [simp]: "cursor (fold (\<lambda>i. vga_write c a (f i)) xs s) = cursor s"
  by (induction xs arbitrary: s) simp_all

lemma bus_vga_fill [simp]: "bus (fold (\<lambda>i. vga_write c a (f i)) xs s) = bus s"
  by (induction xs arbitrary: s) simp_all

lemma at_cell_con_frame:
  "con_frame s t \<Longrightarrow> crtc_ok (bus s) \<Longrightarrow> crtc_ok (bus t)"
  by (simp add: con_frame_def)

text \<open>The cells after a scroll, and where the cursor stands.\<close>

lemma scroll_line_at:
  assumes "j < 65537"
  shows "mem (scroll_line s) (vaddr j) = (if 4000 \<le> j then mem s (vaddr j) else if 3840 \<le> j then if even j then 0 else 0x0f
      else if 160 \<le> j then mem s (vaddr (j mod 160)) else mem s (vaddr j))"
proof -
  have "mem (scroll_line s) = mem (fold (\<lambda>i. vga_write 0 0x0f (of_nat (3840 + 2 * i))) [0 ..< 80]
      (s\<lparr>mem := scroll_rows 1 (mem s)\<rparr>))"
    unfolding scroll_line_def Let_def set_cursor_mem
    by (simp add: MAX_COLS_def MAX_ROWS_def WHITE_ON_BLACK_def mult.commute del: upt_rec_numeral)
  then show ?thesis using assms
    by (simp only: vga_fill_at) (simp add: scroll_rows_value)
qed

lemma scroll_line_cell:
  assumes "k < 2000"
  shows "cell k (scroll_line s) =
    (if k < 80 then cell k s else if k < 1920 then cell (k mod 80) s else (0, 0x0f))"
proof -
  have e: "2 * k mod 160 = 2 * (k mod 80)" using mult_mod_right [of 2 k 80] by simp
  moreover have "Suc (2 * (k mod 80)) \<noteq> 160" by arith
  then have "Suc (2 * k) mod 160 = Suc (2 * (k mod 80))" unfolding mod_Suc e by (rule if_not_P)
  ultimately show ?thesis using assms by (simp add: cell_def scroll_line_at)
qed

lemma scroll_line_at_cell: "crtc_ok (bus s) \<Longrightarrow> at_cell 1920 (scroll_line s)"
proof -
  let ?t = "fold (\<lambda>i. vga_write 0 WHITE_ON_BLACK
      (of_nat (MAX_COLS * MAX_ROWS * 2 - MAX_COLS * 2) + of_nat i * 2)) [0 ..< MAX_COLS]
      (s\<lparr>mem := scroll_rows 1 (mem s)\<rparr>)"
  assume "crtc_ok (bus s)"
  then have "crtc_ok (bus ?t)" by (simp del: upt_rec_numeral)
  from at_cell_set_cursor [OF this, of 3840] show ?thesis
    unfolding scroll_line_def Let_def by (simp add: MAX_COLS_def MAX_ROWS_def del: upt_rec_numeral)
qed

lemma kputchar_char_at:
  assumes "at_cell c s" and "x \<noteq> 10" and "x \<noteq> 8" and "c < 32767"
  shows "at_cell (c + 1) (kputchar x a s)"
    and "c \<noteq> 2000 \<Longrightarrow> k < 65537 \<Longrightarrow> mem (kputchar x a s) (vaddr k) =
      (if k = 2 * c then x else if k = 2 * c + 1 then a else mem s (vaddr k))"
    and "c = 2000 \<Longrightarrow> k < 65537 \<Longrightarrow> mem (kputchar x a s) (vaddr k) =
      (if k = 4000 then x else if k = 4001 then a else mem (scroll_line s) (vaddr k))"
proof -
  from assms(1) obtain t where g: "get_cursor s = (of_nat (2 * c), t)"
    and t: "at_cell c t" "mem t = mem s" "con_frame s t" by (rule at_cell_get_cursor)
  let ?u = "if of_nat (2 * c) = (4000 :: u16) then scroll_line t else t"
  have c: "of_nat (2 * c) = (4000 :: u16) \<longleftrightarrow> c = 2000"
    using of_nat_inj_small [of "2 * c" 4000, where 'a = 16] assms(4) by simp
  have eq: "kputchar x a s = set_cursor (of_nat (2 * (c + 1))) (vga_write x a (of_nat (2 * c)) ?u)"
    using kputchar_char_eq [OF g assms(2,3)] by (simp add: add.commute)
  have "crtc_ok (bus ?u)" using at_cellD [OF t(1)] by (auto intro: at_cell_con_frame con_frame_scroll_line)
  then show "at_cell (c + 1) (kputchar x a s)"
    using at_cell_set_cursor [of "vga_write x a (of_nat (2 * c)) ?u" "2 * (c + 1)"] assms(4)
    unfolding eq by simp
  have m: "mem (kputchar x a s) (vaddr k) =
      (if k = 2 * c + 1 then a else if k = 2 * c then x else mem ?u (vaddr k))" if "k < 65537"
    unfolding eq set_cursor_mem using assms(4) that by (intro vga_write_at) auto
  then show "c \<noteq> 2000 \<Longrightarrow> k < 65537 \<Longrightarrow> mem (kputchar x a s) (vaddr k) =
      (if k = 2 * c then x else if k = 2 * c + 1 then a else mem s (vaddr k))"
    by (simp add: c t(2) del: of_nat_mult)
  have "mem (scroll_line t) (vaddr k) = mem (scroll_line s) (vaddr k)" if "k < 65537"
    using that by (simp add: scroll_line_at t(2))
  then show "c = 2000 \<Longrightarrow> k < 65537 \<Longrightarrow> mem (kputchar x a s) (vaddr k) =
      (if k = 4000 then x else if k = 4001 then a else mem (scroll_line s) (vaddr k))"
    using m by (simp add: c del: of_nat_mult)
qed

text \<open>A machine with a working cursor, standing on cell \<open>c\<close> of an empty screen.\<close>

definition console_at :: "nat \<Rightarrow> machine" where
  "console_at c = set_cursor (of_nat (2 * c)) boot_machine"

lemma console_at_cell: "c < 32768 \<Longrightarrow> at_cell c (console_at c)"
  using at_cell_set_cursor [of boot_machine "2 * c"] crtc_bus_ok
  by (simp add: console_at_def boot_machine_def)

text \<open>
  C34.  On the screen, \<open>kputchar\<close> of a character other than newline and backspace writes that
  character with its attribute into the cell under the cursor, leaves every other cell as it
  was, and advances the cursor by one cell.
\<close>

theorem kputchar_char:
  assumes "at_cell c s" and "c < 2000" and "x \<noteq> 10" and "x \<noteq> 8"
  shows "at_cell (c + 1) (kputchar x a s) \<and>
    (\<forall>k < 2000. cell k (kputchar x a s) = (if k = c then (x, a) else cell k s))"
  using kputchar_char_at [OF assms(1,3,4)] assms(2) by (auto simp: cell_def)

lemma kputchar_char_witness:
  "at_cell 6 (kputchar 65 7 (console_at 5)) \<and> cell 5 (kputchar 65 7 (console_at 5)) = (65, 7)"
  using kputchar_char [OF console_at_cell [of 5], of 65 7] by simp

text \<open>
  A newline on the screen moves the cursor to the start of the next row and changes no
  cell, except in the last row, where it scrolls.
\<close>

theorem kputchar_newline:
  assumes "at_cell c s" and "c < 2000"
  shows "if c div 80 = 24
    then at_cell 1920 (kputchar 10 a s) \<and> (\<forall>k < 2000. cell k (kputchar 10 a s) = cell k (scroll_line s))
    else at_cell (80 * (c div 80 + 1)) (kputchar 10 a s) \<and> mem (kputchar 10 a s) = mem s"
proof -
  from assms(1) obtain t where g: "get_cursor s = (of_nat (2 * c), t)"
    and t: "at_cell c t" "mem t = mem s" "con_frame s t" by (rule at_cell_get_cursor)
  let ?o = "of_nat (2 * c) :: u16"
  have row: "?o div 2 div 80 = of_nat (c div 80)"
    using assms(2) of_nat_div_small [of "2 * c" 2, where 'a = 16] of_nat_div_small [of c 80, where 'a = 16]
    by simp
  have test: "(of_nat (c div 80) = (24 :: u16)) = (c div 80 = 24)"
    using assms(2) of_nat_inj_small [of "c div 80" 24, where 'a = 16] by simp
  have le: "2 * c mod 160 \<le> 2 * c" by simp
  have "?o - ?o mod 160 + 160 = of_nat (2 * c - 2 * c mod 160 + 160)"
    using assms(2) of_nat_mod_small [of "2 * c" 160, where 'a = 16] le by (simp add: of_nat_diff)
  also have "2 * c - 2 * c mod 160 = 2 * (80 * (c div 80))"
    using mult_mod_right [of 2 c 80] by (simp add: minus_mod_eq_mult_div [symmetric] diff_mult_distrib2)
  finally have nxt: "?o - ?o mod 160 + 160 = of_nat (2 * (80 * (c div 80 + 1)))" by (simp add: algebra_simps)
  have "c div 80 < 25" using assms(2) by (simp add: div_less_iff_less_mult)
  then have "at_cell (80 * (c div 80 + 1)) (set_cursor (?o - ?o mod 160 + 160) t)"
    unfolding nxt using at_cell_set_cursor [OF at_cellD [OF t(1)], of "2 * (80 * (c div 80 + 1))"] by simp
  moreover have "at_cell 1920 (scroll_line t)" by (rule scroll_line_at_cell [OF at_cellD [OF t(1)]])
  moreover have "cell k (scroll_line t) = cell k (scroll_line s)" if "k < 2000" for k
    using that by (simp add: cell_def scroll_line_at t(2))
  ultimately show ?thesis
    using kputchar_newline_eq [OF g, of a] t(2) unfolding row test by simp
qed

lemma kputchar_newline_witness:
  "at_cell 160 (kputchar 10 7 (console_at 85)) \<and> at_cell 1920 (kputchar 10 7 (console_at 1999))"
  using kputchar_newline [OF console_at_cell [of 85], of 7] kputchar_newline [OF console_at_cell [of 1999], of 7]
  by simp

text \<open>
  A backspace on the screen (not in its first cell) blanks the cell before the cursor and
  moves the cursor onto it.
\<close>

theorem kputchar_backspace:
  assumes "at_cell c s" and "0 < c" and "c \<le> 2000"
  shows "at_cell (c - 1) (kputchar 8 a s) \<and>
    (\<forall>k < 2000. cell k (kputchar 8 a s) = (if k = c - 1 then (32, a) else cell k s))"
proof -
  from assms(1) obtain t where g: "get_cursor s = (of_nat (2 * c), t)"
    and t: "at_cell c t" "mem t = mem s" by (rule at_cell_get_cursor)
  from t(1) obtain t1 where g1: "get_cursor t = (of_nat (2 * c), t1)"
    and t1: "at_cell c t1" "mem t1 = mem t" by (rule at_cell_get_cursor)
  let ?t2 = "set_cursor (of_nat (2 * c) - 1) t1"
  have "of_nat (2 * c) - 1 = (of_nat (2 * c - 1) :: u16)" using assms(2) by (simp add: of_nat_diff)
  moreover have "(2 * c - 1) div 2 = c - 1" using assms(2) by (cases c) simp_all
  ultimately have t2: "at_cell (c - 1) ?t2" and m2: "mem ?t2 = mem s"
    using at_cell_set_cursor [OF at_cellD [OF t1(1)], of "2 * c - 1"] assms(3) t(2) t1(2) by simp_all
  define t3 where "t3 = kputchar 32 a ?t2"
  have t3: "at_cell c t3" unfolding t3_def using kputchar_char_at(1) [OF t2, of 32 a] assms(2,3) by simp
  have m3: "mem t3 (vaddr k) =
      (if k = 2 * (c - 1) then 32 else if k = 2 * (c - 1) + 1 then a else mem s (vaddr k))"
    if "k < 65537" for k
    unfolding t3_def using kputchar_char_at(2) [OF t2 _ _ _ _ that, of 32 a] assms(2,3) m2 by simp
  from t3 obtain t4 where g4: "get_cursor t3 = (of_nat (2 * c), t4)"
    and t4: "at_cell c t4" "mem t4 = mem t3" by (rule at_cell_get_cursor)
  have eq: "kputchar 8 a s = set_cursor (of_nat (2 * (c - 1))) t4"
    using kputchar_backspace_eq [OF g g1 g4 [unfolded t3_def]] assms(2) by (simp add: of_nat_diff algebra_simps)
  have "at_cell (c - 1) (kputchar 8 a s)"
    using at_cell_set_cursor [OF at_cellD [OF t4(1)], of "2 * (c - 1)"] assms(2,3) unfolding eq by simp
  moreover have "cell k (kputchar 8 a s) = (if k = c - 1 then (32, a) else cell k s)" if "k < 2000" for k
    using that unfolding eq cell_def set_cursor_mem t4(2) by (auto simp: m3)
  ultimately show ?thesis by blast
qed

lemma kputchar_backspace_witness: "at_cell 4 (kputchar 8 7 (console_at 5))"
  using kputchar_backspace [OF console_at_cell [of 5], of 7] by simp

text \<open>
  C36.  What the code does at the end of the screen.  With the cursor just past the last cell
  (where printing into the last cell leaves it), \<open>kputchar\<close> scrolls but then stores at the old
  offset: a line of characters is written, one after the other, into the 16-bit cells behind the
  text buffer's 2000 (from cell 2000 on), none of them appears in a visible cell, all of which show what \<open>scroll_line\<close>
  alone would show, the other cells of the 64 KiB that an offset reaches are left alone, and the
  cursor runs on below the screen.
\<close>

theorem console_runs_off:
  assumes "at_cell 2000 s" and "xs \<noteq> []" and "\<forall>x \<in> set xs. x \<noteq> 8 \<and> x \<noteq> 10" and "length xs < 30000"
  shows "at_cell (2000 + length xs) (fold (\<lambda>x. kputchar x a) xs s) \<and>
    (\<forall>k < 32768. cell k (fold (\<lambda>x. kputchar x a) xs s) =
      (if k < 2000 then cell k (scroll_line s)
       else if k < 2000 + length xs then (xs ! (k - 2000), a)
       else cell k s))"
  using assms(2-4)
proof (induction xs rule: rev_induct)
  case (snoc x xs)
  let ?t = "fold (\<lambda>x. kputchar x a) xs s"
  have x: "x \<noteq> 10" "x \<noteq> 8" using snoc.prems(2) by simp_all
  show ?case
  proof (cases "xs = []")
    case True
    have "cell k (kputchar x a s) = (if k < 2000 then cell k (scroll_line s) else if k = 2000 then (x, a) else cell k s)"
      if "k < 32768" for k
      using that kputchar_char_at(3) [OF assms(1) x, where a = a] by (auto simp: cell_def scroll_line_at)
    then show ?thesis using True kputchar_char_at(1) [OF assms(1) x, where a = a] by (auto simp: less_Suc_eq_le)
  next
    case False
    let ?c = "2000 + length xs"
    have IH: "at_cell ?c ?t"
      "\<forall>k < 32768. cell k ?t = (if k < 2000 then cell k (scroll_line s)
        else if k < ?c then (xs ! (k - 2000), a) else cell k s)"
      using snoc False by auto
    have c: "?c \<noteq> 2000" "?c < 32767" using False snoc.prems(3) by simp_all
    have "cell k (kputchar x a ?t) = (if k = ?c then (x, a) else cell k ?t)" if "k < 32768" for k
      using that kputchar_char_at(2) [OF IH(1) x c(2,1), where a = a] by (auto simp: cell_def)
    moreover have "(xs @ [x]) ! (k - 2000) = (if k = ?c then x else xs ! (k - 2000))" if "2000 \<le> k" "k < Suc ?c" for k
      using that by (auto simp: nth_append)
    ultimately show ?thesis
      using IH kputchar_char_at(1) [OF IH(1) x c(2), where a = a] by (auto simp: less_Suc_eq)
  qed
qed simp

lemma console_runs_off_witness:
  "at_cell 2003 (fold (\<lambda>x. kputchar x 7) (lit ''abc'') (console_at 2000)) \<and>
    cell 2001 (fold (\<lambda>x. kputchar x 7) (lit ''abc'') (console_at 2000)) = (98, 7)"
proof -
  have "\<forall>x \<in> set (lit ''abc''). x \<noteq> 8 \<and> x \<noteq> 10" by simp
  from console_runs_off [OF console_at_cell [of 2000] _ this, of 7] show ?thesis
    by (simp del: fold_simps)
qed

text \<open>
  C35.  \<open>scroll_line\<close> as written copies every row onto the one below it, top row first: all the
  rows but the last become copies of the first row, the last is blank, and the cursor stands at
  its start.
\<close>

theorem scroll_line_rows:
  assumes "crtc_ok (bus s)"
  shows "at_cell 1920 (scroll_line s) \<and>
    (\<forall>r < 25. \<forall>j < 80. cell (80 * r + j) (scroll_line s) = (if r < 24 then cell j s else (0, 0x0f)))"
proof -
  have "cell (80 * r + j) (scroll_line s) = (if r < 24 then cell j s else (0, 0x0f))"
    if "r < 25" "j < 80" for r j
  proof -
    have lt: "80 * r + j < 2000" using that by simp
    have "80 * r + j < 1920 \<longleftrightarrow> r < 24" and "80 * r + j < 80 \<longleftrightarrow> r = 0" using that by auto
    moreover have "(80 * r + j) mod 80 = j" using that by simp
    ultimately show ?thesis using scroll_line_cell [OF lt, of s] by auto
  qed
  with scroll_line_at_cell [OF assms] show ?thesis by blast
qed

lemma scroll_line_rows_witness: "cell 1600 (scroll_line boot_machine) = cell 0 boot_machine"
proof -
  have "crtc_ok (bus boot_machine)" by (simp add: boot_machine_def crtc_bus_ok)
  from scroll_line_rows [OF this] have "\<forall>r < 25. \<forall>j < 80. cell (80 * r + j) (scroll_line boot_machine)
      = (if r < 24 then cell j boot_machine else (0, 0x0f))" by blast
  from this [rule_format, of 20 0] show ?thesis by simp
qed

text \<open>\<open>kclear\<close> blanks all 2000 cells and homes the cursor.\<close>

theorem kclear_screen:
  assumes "crtc_ok (bus s)"
  shows "at_cell 0 (kclear s) \<and> (\<forall>k < 2000. cell k (kclear s) = (0, WHITE_ON_BLACK))"
proof -
  let ?t = "fold (\<lambda>i. vga_write 0 WHITE_ON_BLACK (of_nat (0 + 2 * i))) [0 ..< 2000] s"
  have eq: "kclear s = set_cursor (of_nat 0) ?t"
    by (simp add: kclear_def MAX_ROWS_def MAX_COLS_def del: upt_rec_numeral)
  have "crtc_ok (bus ?t)" using assms by (simp del: upt_rec_numeral)
  from at_cell_set_cursor [OF this, of 0] have "at_cell 0 (kclear s)" unfolding eq by simp
  moreover have "cell k (kclear s) = (0, WHITE_ON_BLACK)" if "k < 2000" for k
    unfolding eq cell_def set_cursor_mem using that by (simp only: vga_fill_at) simp
  ultimately show ?thesis by blast
qed

lemma kclear_screen_witness: "at_cell 0 (kclear (console_at 77))"
  using kclear_screen [OF at_cellD [OF console_at_cell [of 77]]] by simp

text \<open>
  Printing a string that lies outside the text buffer and holds no control characters, with
  room for it before the end of the screen, terminates, shows the string in light grey from the
  cursor on, leaves the other cells alone, and puts the cursor behind it.
\<close>

theorem kprint_text:
  assumes "cstr (mem s) str bs" and "region str (Suc (length bs)) \<inter> video_window = {}"
    and "\<forall>b \<in> set bs. b \<noteq> 8 \<and> b \<noteq> 10" and "at_cell c s" and "c + length bs \<le> 2000"
  shows "\<exists>s'. kprint str s = Some s' \<and> at_cell (c + length bs) s' \<and>
    (\<forall>k < 2000. cell k s' = (if c \<le> k \<and> k < c + length bs then (bs ! (k - c), GRAY_ON_BLACK) else cell k s))"
  using assms
proof (induction bs arbitrary: str c s)
  case Nil
  then show ?case by (subst kprint.simps) auto
next
  case (Cons b bs)
  let ?s = "kputchar b GRAY_ON_BLACK s"
  have small: "Suc (length bs) < 2 ^ 64" using Cons.prems(5) by simp
  have b: "b \<noteq> 0" "mem s str = b" "cstr (mem s) (str + 1) bs" "b \<noteq> 8" "b \<noteq> 10" "c < 2000"
    using Cons.prems by auto
  have apart: "region (str + 1) (Suc (length bs)) \<inter> video_window = {}"
    using Cons.prems(2) region_Suc [OF small, of str] by auto
  have "agree_on (region (str + 1) (Suc (length bs))) (mem s) (mem ?s)"
    using con_frame_kputchar [of s b GRAY_ON_BLACK] apart
    unfolding con_frame_def by (blast intro: agree_on_subset)
  then have str: "cstr (mem ?s) (str + 1) bs" using b(3) small by (auto intro: cstr_agree)
  have at: "at_cell (c + 1) ?s" using kputchar_char_at(1) [OF Cons.prems(4)] b by simp
  have cells: "cell k ?s = (if k = c then (b, GRAY_ON_BLACK) else cell k s)" if "k < 2000" for k
    using that kputchar_char_at(2) [OF Cons.prems(4), where x = b and a = GRAY_ON_BLACK] b
    by (auto simp: cell_def)
  have tl: "\<forall>b \<in> set bs. b \<noteq> 8 \<and> b \<noteq> 10" "c + 1 + length bs \<le> 2000"
    using Cons.prems(3,5) by simp_all
  from Cons.IH [OF str apart tl(1) at tl(2)] obtain s' where s': "kprint (str + 1) ?s = Some s'"
    "at_cell (c + 1 + length bs) s'"
    "\<forall>k < 2000. cell k s' = (if c + 1 \<le> k \<and> k < c + 1 + length bs
       then (bs ! (k - (c + 1)), GRAY_ON_BLACK) else cell k ?s)"
    by blast
  have "kprint str s = Some s'" using s'(1) b by (subst kprint.simps) simp
  moreover have "cell k s' = (if c \<le> k \<and> k < c + length (b # bs)
      then ((b # bs) ! (k - c), GRAY_ON_BLACK) else cell k s)" if "k < 2000" for k
    using that s'(3) cells [OF that] by (auto simp: nth_Cons')
  ultimately show ?case using s'(2) by auto
qed

definition hello_machine :: machine where
  "hello_machine = (console_at 79)\<lparr>mem := (\<lambda>_. 0)(0x200000 := ch CHR ''o'', 0x200001 := ch CHR ''k'')\<rparr>"

lemma kprint_text_witness:
  "\<exists>s'. kprint 0x200000 hello_machine = Some s' \<and> at_cell 81 s' \<and> cell 80 s' = (ch CHR ''k'', 7)"
proof -
  have at: "at_cell 79 hello_machine"
    using console_at_cell [of 79] by (simp add: at_cell_def hello_machine_def)
  have "cstr (mem hello_machine) 0x200000 (lit ''ok'')" by (simp add: hello_machine_def)
  moreover have "region 0x200000 (Suc (Suc (Suc 0))) \<inter> video_window = {}"
    using region_of_nat_disjoint [of "0xb8000" 65537 "0x200000" 3]
    by (simp add: video_window_def VIDEO_ADDRESS_def Int_commute numeral_3_eq_3)
  ultimately obtain s' where s': "kprint 0x200000 hello_machine = Some s'" "at_cell 81 s'"
    "\<forall>k < 2000. cell k s' = (if 79 \<le> k \<and> k < 81 then (lit ''ok'' ! (k - 79), GRAY_ON_BLACK)
       else cell k hello_machine)"
    using kprint_text [of hello_machine "0x200000" "lit ''ok''" 79] at by auto
  from s'(3) have "cell 80 s' = (ch CHR ''k'', 7)" by (simp add: GRAY_ON_BLACK_def)
  with s'(1,2) show ?thesis by blast
qed

section \<open>Cursor coordinates\<close>

lemma row_col_bound: "(y :: nat) < 25 \<Longrightarrow> x < 80 \<Longrightarrow> 2 * (80 * y + x) < 65536"
  by simp

text \<open>
  \<open>set_cursor_y\<close> then \<open>set_cursor_x\<close> puts the cursor on column \<open>x\<close> of row \<open>y\<close>; the getters
  report the row, and twice the column (\<open>get_cursor_x\<close> is a byte offset within the row).
\<close>

theorem cursor_coordinates:
  assumes "at_cell c s" and "x < 80" and "y < 25"
  shows "at_cell (80 * y + x) (set_cursor_x (of_nat x) (set_cursor_y (of_nat y) s)) \<and>
    fst (get_cursor_x s) = of_nat (2 * (c mod 80)) \<and> fst (get_cursor_y s) = of_nat (c div 80)"
proof -
  let ?y = "80 * y + c mod 80"
  have c: "c < 32768" using assms(1) by (simp add: at_cell_def)
  have m80: "c mod 80 < 80" by simp
  have dm: "2 * k mod 160 = 2 * (k mod 80)" "2 * k div 160 = k div 80" for k :: nat
    using mult_mod_right [of 2 k 80] div_mult2_eq [of "2 * k" 2 80] by simp_all
  from assms(1) obtain t where g: "get_cursor s = (of_nat (2 * c), t)"
    and t: "at_cell c t" by (rule at_cell_get_cursor)
  have mod: "(of_nat (2 * c) :: u16) mod of_nat (MAX_COLS * 2) = of_nat (2 * (c mod 80))"
    using c by (subst of_nat_mod_small) (simp_all add: MAX_COLS_def dm)
  have dv: "(of_nat (2 * c) :: u16) div of_nat (MAX_COLS * 2) = of_nat (c div 80)"
    using c by (subst of_nat_div_small) (simp_all add: MAX_COLS_def dm)
  have "of_nat y * of_nat MAX_COLS * 2 + of_nat (2 * (c mod 80)) = (of_nat (2 * ?y) :: u16)"
    by (simp add: MAX_COLS_def algebra_simps)
  then have "set_cursor_y (of_nat y) s = set_cursor (of_nat (2 * ?y)) t"
    by (simp only: set_cursor_y_def g mod Let_def split_conv)
  moreover have "2 * ?y < 65536" using assms(3) m80 by (rule row_col_bound)
  ultimately have sy: "at_cell ?y (set_cursor_y (of_nat y) s)"
    using at_cell_set_cursor [OF at_cellD [OF t], of "2 * ?y"] by simp
  then obtain u where gu: "get_cursor (set_cursor_y (of_nat y) s) = (of_nat (2 * ?y), u)"
    and u: "at_cell ?y u" by (rule at_cell_get_cursor)
  have "(of_nat (2 * ?y) :: u16) div of_nat (MAX_COLS * 2) = of_nat y"
    using \<open>2 * ?y < 65536\<close> m80 by (subst of_nat_div_small) (simp_all add: MAX_COLS_def dm(2))
  moreover have "of_nat y * of_nat (MAX_COLS * 2) + of_nat x * 2 = (of_nat (2 * (80 * y + x)) :: u16)"
    by (simp add: MAX_COLS_def algebra_simps)
  ultimately have "set_cursor_x (of_nat x) (set_cursor_y (of_nat y) s) = set_cursor (of_nat (2 * (80 * y + x))) u"
    by (simp only: set_cursor_x_def gu Let_def split_conv)
  moreover have "2 * (80 * y + x) < 65536" using assms(3,2) by (rule row_col_bound)
  ultimately have "at_cell (80 * y + x) (set_cursor_x (of_nat x) (set_cursor_y (of_nat y) s))"
    using at_cell_set_cursor [OF at_cellD [OF u], of "2 * (80 * y + x)"] by simp
  then show ?thesis by (simp only: get_cursor_x_def get_cursor_y_def g mod dv Let_def split_conv fst_conv simp_thms)
qed

lemma cursor_coordinates_witness:
  "at_cell 163 (set_cursor_x 3 (set_cursor_y 2 (console_at 85)))"
  using cursor_coordinates [OF console_at_cell [of 85], of 3 2] by simp

end
