(* ===== verification/Printf.thy ===== *)
theory Printf
  imports Console
begin

text \<open>
  The formatted output of \<open>cpu/kprintf.c\<close>: \<open>kvprintf\<close> and \<open>kprintf\<close> on the VGA console.  The
  format is the list of its bytes before the terminating NUL; a read behind the NUL is undefined
  (\<open>None\<close>), as is a width or precision beyond \<open>INT_MAX\<close>.  The variable arguments are the list of
  64-bit argument slots that \<open>va_arg\<close> takes one by one.  Every \<open>kputc\<close> is a
  \<open>kputchar\<close> on the machine.
\<close>

section \<open>Definitions\<close>

definition kputc :: "u8 \<Rightarrow> 'a machine_scheme \<Rightarrow> 'a machine_scheme" where
  "kputc c s = kputchar c 0x07 s"

text \<open>The loops that put several characters in a row.\<close>

definition kputs :: "u8 list \<Rightarrow> 'a machine_scheme \<Rightarrow> 'a machine_scheme" where
  "kputs bs s = fold kputc bs s"

record directive =
  left :: bool
  zero :: bool
  width :: int
  precision :: int

definition is_digit :: "u8 \<Rightarrow> bool" where
  "is_digit c \<longleftrightarrow> 48 \<le> c \<and> c \<le> 57"

fun parse_int :: "u8 list \<Rightarrow> int \<Rightarrow> (int \<times> u8 list) option" where
  "parse_int [] n = Some (n, [])"
| "parse_int (c # p) n =
    (if is_digit c then do { n' \<leftarrow> c_int (n * 10 + (uint c - 48)); parse_int p n' }
     else Some (n, c # p))"

text \<open>Skip one given character, reporting whether it was there.\<close>

fun accept :: "u8 \<Rightarrow> u8 list \<Rightarrow> bool \<times> u8 list" where
  "accept c [] = (False, [])"
| "accept c (d # p) = (if d = c then (True, p) else (False, d # p))"

definition parse_precision :: "u8 list \<Rightarrow> (int \<times> u8 list) option" where
  "parse_precision p =
    (case accept (ch CHR ''.'') p of
       (True, p) \<Rightarrow> parse_int p 0
     | (False, p) \<Rightarrow> Some (-1, p))"

definition parse_directive :: "u8 list \<Rightarrow> (directive \<times> u8 list) option" where
  "parse_directive p =
    (let (left, p) = accept (ch CHR ''-'') p;
         (zero, p) = accept (ch CHR ''0'') p
     in do {
       (width, p) \<leftarrow> parse_int p 0;
       (precision, p) \<leftarrow> parse_precision p;
       let p = snd (accept (ch CHR ''l'') p);
       Some (\<lparr>left = left, zero = zero, width = width, precision = precision\<rparr>, p)
     })"

text \<open>The digits of \<open>numbuf\<close>, least significant first.\<close>

function dec_digits :: "u64 \<Rightarrow> u8 list" where
  "dec_digits u = (if u = 0 then [] else (48 + ucast (u mod 10)) # dec_digits (u div 10))"
  by pat_completeness auto
termination
  by (relation "measure unat") (auto simp: unat_div unat_gt_0)

definition hex_digit :: "u64 \<Rightarrow> u8" where
  "hex_digit d = (if d < 10 then 48 + ucast d else 97 + (ucast d - 10))"

function hex_digits :: "u64 \<Rightarrow> u8 list" where
  "hex_digits u = (if u = 0 then [] else hex_digit (u AND 0xF) # hex_digits (drop_bit 4 u))"
  by pat_completeness auto
termination
  by (relation "measure unat") (auto simp: drop_bit_eq_div unat_div unat_gt_0)

declare dec_digits.simps [simp del] hex_digits.simps [simp del]

definition dec_numbuf :: "u64 \<Rightarrow> u8 list" where
  "dec_numbuf u = (if u = 0 then [ch CHR ''0''] else dec_digits u)"

definition hex_numbuf :: "u64 \<Rightarrow> u8 list" where
  "hex_numbuf u = (if u = 0 then [ch CHR ''0''] else hex_digits u)"

text \<open>The padding common to \<open>d\<close>, \<open>u\<close> and \<open>x\<close>; \<open>numbuf\<close> includes the sign.\<close>

definition put_number :: "directive \<Rightarrow> u8 list \<Rightarrow> 'a machine_scheme \<Rightarrow> 'a machine_scheme" where
  "put_number d numbuf s =
    (let len = int (length numbuf);
         precpad = (if precision d > len then precision d - len else 0);
         total_len = len + precpad;
         pad = (if width d > total_len then width d - total_len else 0);
         s = (if left d then s
              else kputs (replicate (nat pad) (if zero d then ch CHR ''0'' else ch CHR '' '')) s);
         s = kputs (replicate (nat precpad) (ch CHR ''0'')) s;
         s = kputs (rev numbuf) s
     in if left d then kputs (replicate (nat pad) (ch CHR '' '')) s else s)"

function str_len :: "memory \<Rightarrow> u64 \<Rightarrow> int \<Rightarrow> int \<Rightarrow> int option" where
  "str_len m p prec len =
    (if m (p + of_int len) \<noteq> 0 \<and> (prec < 0 \<or> len < prec)
     then (if len < INT_MAX then str_len m p prec (len + 1) else None)
     else Some len)"
  by pat_completeness auto
termination
  by (relation "measure (\<lambda>(m, p, prec, len). nat (INT_MAX - len))") auto

declare str_len.simps [simp del]

definition pad_before :: "directive \<Rightarrow> int \<Rightarrow> 'a machine_scheme \<Rightarrow> 'a machine_scheme" where
  "pad_before d pad s = (if left d then s else kputs (replicate (nat pad) (ch CHR '' '')) s)"

definition pad_after :: "directive \<Rightarrow> int \<Rightarrow> 'a machine_scheme \<Rightarrow> 'a machine_scheme" where
  "pad_after d pad s = (if left d then kputs (replicate (nat pad) (ch CHR '' '')) s else s)"

definition put_string :: "directive \<Rightarrow> u64 \<Rightarrow> 'a machine_scheme \<Rightarrow> 'a machine_scheme option" where
  "put_string d p s =
    (if p = 0 then
       (let text = lit ''(null)'';
            text = (if precision d < 0 then text else take (nat (precision d)) text);
            pad = (if width d > int (length text) then width d - int (length text) else 0)
        in Some (pad_after d pad (kputs text (pad_before d pad s))))
     else do {
       len \<leftarrow> str_len (mem s) p (precision d) 0;
       let pad = (if width d > len then width d - len else 0);
       let s = pad_before d pad s;
       let s = fold (\<lambda>i s. kputc (mem s (p + of_nat i)) s) [0 ..< nat len] s;
       Some (pad_after d pad s)
     })"

definition put_pointer :: "u64 \<Rightarrow> 'a machine_scheme \<Rightarrow> 'a machine_scheme" where
  "put_pointer u s =
    (let s = kputs (lit ''0x'') s
     in fold (\<lambda>i s. kputc (hex_digit (drop_bit (i * 4) u AND 0xF)) s) (rev [0 ..< 16]) s)"

text \<open>One conversion; takes its argument from the list and returns the rest of the list.\<close>

definition convert ::
  "directive \<Rightarrow> u8 \<Rightarrow> u64 list \<Rightarrow> 'a machine_scheme \<Rightarrow> (u64 list \<times> 'a machine_scheme) option" where
  "convert d spec ap s =
    (if spec = ch CHR ''d'' \<or> spec = ch CHR ''i'' then
       (case ap of [] \<Rightarrow> None | val # ap \<Rightarrow>
         if sint val = - (2 ^ 63) then None
         else let neg = sint val < 0;
                  u = (if neg then - val else val);
                  numbuf = dec_numbuf u @ (if neg then [ch CHR ''-''] else [])
              in Some (ap, put_number d numbuf s))
     else if spec = ch CHR ''u'' then
       (case ap of [] \<Rightarrow> None | u # ap \<Rightarrow>
         Some (ap, put_number d (dec_numbuf u) s))
     else if spec = ch CHR ''x'' \<or> spec = ch CHR ''X'' then
       (case ap of [] \<Rightarrow> None | u # ap \<Rightarrow>
         Some (ap, put_number d (hex_numbuf u) s))
     else if spec = ch CHR ''p'' then
       (case ap of [] \<Rightarrow> None | u # ap \<Rightarrow> Some (ap, put_pointer u s))
     else if spec = ch CHR ''s'' then
       (case ap of [] \<Rightarrow> None | p # ap \<Rightarrow> do { s \<leftarrow> put_string d p s; Some (ap, s) })
     else if spec = ch CHR ''c'' then
       (case ap of [] \<Rightarrow> None | v # ap \<Rightarrow>
         let pad = (if width d > 1 then width d - 1 else 0)
         in Some (ap, pad_after d pad (kputc (ucast v) (pad_before d pad s))))
     else if spec = ch CHR ''%'' then Some (ap, kputc (ch CHR ''%'') s)
     else Some (ap, kputc spec (kputc (ch CHR ''%'') s)))"

lemma parse_int_length: "parse_int p n = Some (k, q) \<Longrightarrow> length q \<le> length p"
  by (induction p n rule: parse_int.induct) (auto split: if_splits bind_splits)

lemma accept_length: "accept c p = (b, q) \<Longrightarrow> length q \<le> length p"
  by (cases p) (auto split: if_splits)

lemma parse_precision_length: "parse_precision p = Some (k, q) \<Longrightarrow> length q \<le> length p"
  by (fastforce simp: parse_precision_def split: prod.splits bool.splits
      dest: parse_int_length accept_length)

lemma accept_snd_length: "length (snd (accept c p)) \<le> length p"
  by (rule accept_length [OF prod.collapse [symmetric]])

lemma parse_directive_length: "parse_directive p = Some (d, q) \<Longrightarrow> length q \<le> length p"
  by (auto simp: parse_directive_def Let_def split: bind_splits prod.splits
      dest!: parse_int_length parse_precision_length accept_length,
      rule order_trans [OF accept_snd_length], linarith)

function kvprintf :: "u8 list \<Rightarrow> u64 list \<Rightarrow> 'a machine_scheme \<Rightarrow> 'a machine_scheme option" where
  "kvprintf [] ap s = Some s"
| "kvprintf (c # p) ap s =
    (if c \<noteq> ch CHR ''%'' then kvprintf p ap (kputc c s)
     else (case parse_directive p of
         None \<Rightarrow> None
       | Some (d, []) \<Rightarrow> None
       | Some (d, spec # q) \<Rightarrow>
           (case convert d spec ap s of
              None \<Rightarrow> None
            | Some (ap, s) \<Rightarrow> kvprintf q ap s)))"
  by pat_completeness auto
termination
  by (relation "measure (\<lambda>(p, ap, s). length p)") (auto dest: parse_directive_length)

definition kprintf :: "string \<Rightarrow> u64 list \<Rightarrow> 'a machine_scheme \<Rightarrow> 'a machine_scheme option" where
  "kprintf fmt args s = kvprintf (lit fmt) args s"

section \<open>Only the console changes\<close>

lemma con_frame_kputc [simp]: "con_frame s (kputc c s)"
  by (simp add: kputc_def)

lemma con_frame_kputs [simp]: "con_frame s (kputs bs s)"
  unfolding kputs_def by (rule con_frame_fold) simp

lemma con_frame_put_number: "con_frame s (put_number d numbuf s)"
  unfolding put_number_def Let_def
  by (auto intro: con_frame_trans [OF con_frame_kputs con_frame_trans [OF con_frame_kputs con_frame_kputs]]
      con_frame_trans [OF con_frame_kputs con_frame_kputs]
      con_frame_trans [OF con_frame_kputs con_frame_trans [OF con_frame_kputs con_frame_kputs]])

lemma con_frame_pad_before [simp]: "con_frame s (pad_before d k s)"
  and con_frame_pad_after [simp]: "con_frame s (pad_after d k s)"
  by (simp_all add: pad_before_def pad_after_def)

lemma con_frame_padded: "con_frame (pad_before d k s) t \<Longrightarrow> con_frame s (pad_after d k t)"
  by (rule con_frame_trans [OF con_frame_pad_before con_frame_trans [OF _ con_frame_pad_after]])

lemma con_frame_put_string: "put_string d p s = Some s' \<Longrightarrow> con_frame s s'"
  unfolding put_string_def Let_def
  by (auto split: if_splits bind_splits
      intro!: con_frame_padded con_frame_fold con_frame_kputs con_frame_kputc)

lemma con_frame_put_pointer: "con_frame s (put_pointer u s)"
  unfolding put_pointer_def Let_def by (rule con_frame_trans [OF con_frame_kputs con_frame_fold]) simp

lemma con_frame_convert: "convert d spec ap s = Some (ap', s') \<Longrightarrow> con_frame s s'"
  unfolding convert_def Let_def
  by (auto split: if_splits list.splits bind_splits
      intro: con_frame_put_number con_frame_put_string con_frame_put_pointer
      con_frame_trans [OF con_frame_kputc con_frame_kputc]
      con_frame_padded con_frame_kputc)

lemma con_frame_kvprintf: "kvprintf p ap s = Some s' \<Longrightarrow> con_frame s s'"
proof (induction p ap s rule: kvprintf.induct)
  case (2 c p ap s)
  then show ?case
    by (auto split: if_splits option.splits list.splits prod.splits
        intro: con_frame_trans [OF con_frame_kputc] con_frame_trans [OF con_frame_convert])
qed simp

lemma con_frame_kprintf: "kprintf fmt args s = Some s' \<Longrightarrow> con_frame s s'"
  unfolding kprintf_def by (rule con_frame_kvprintf)

end
