(* ===== verification/PrintfSpec.thy ===== *)
theory PrintfSpec
  imports Printf
begin

text \<open>
  What \<open>kprintf\<close> prints: plain text goes out unchanged, a number comes out as its decimal or
  hexadecimal numeral (the digits read back give the argument, without leading zeros), a width
  pads it.  Also what it does with a length modifier \<open>ll\<close> or \<open>z\<close>, with a zero-padded negative
  number and with a lone percent sign at the end, where it departs from C's \<open>printf\<close>.
\<close>

section \<open>Text\<close>

lemma kputs_Nil [simp]: "kputs [] s = s"
  and kputs_Cons: "kputs (b # bs) s = kputs bs (kputc b s)"
  and kputs_append: "kputs (xs @ ys) s = kputs ys (kputs xs s)"
  by (simp_all add: kputs_def)

lemma kvprintf_text: "\<forall>b \<in> set xs. b \<noteq> 37 \<Longrightarrow> kvprintf (xs @ p) ap s = kvprintf p ap (kputs xs s)"
  by (induction xs arbitrary: s) (simp_all add: kputs_Cons)

lemma kvprintf_plain: "\<forall>b \<in> set xs. b \<noteq> 37 \<Longrightarrow> kvprintf xs ap s = Some (kputs xs s)"
  using kvprintf_text [of xs "[]" ap s] by simp

section \<open>Numerals\<close>

definition numeral_value :: "nat \<Rightarrow> (u8 \<Rightarrow> nat) \<Rightarrow> u8 list \<Rightarrow> nat" where
  "numeral_value base val bs = foldl (\<lambda>n b. base * n + val b) 0 bs"

definition dec_val :: "u8 \<Rightarrow> nat" where
  "dec_val b = unat b - 48"

definition hex_val :: "u8 \<Rightarrow> nat" where
  "hex_val b = (if is_digit b then unat b - 48 else unat b - 87)"

abbreviation decimal_value :: "u8 list \<Rightarrow> nat" where
  "decimal_value \<equiv> numeral_value 10 dec_val"

abbreviation hex_value :: "u8 list \<Rightarrow> nat" where
  "hex_value \<equiv> numeral_value 16 hex_val"

lemma numeral_value_snoc [simp]:
  "numeral_value b v (xs @ [x]) = b * numeral_value b v xs + v x"
  "numeral_value b v [] = 0"
  by (simp_all add: numeral_value_def)

text \<open>A decimal (lower-case hexadecimal) numeral for \<open>n\<close> as a person would write it.\<close>

definition is_decimal :: "nat \<Rightarrow> u8 list \<Rightarrow> bool" where
  "is_decimal n bs \<longleftrightarrow> bs \<noteq> [] \<and> (\<forall>b \<in> set bs. is_digit b) \<and> decimal_value bs = n \<and>
     (hd bs = 48 \<longrightarrow> bs = [48])"

definition is_hex_digit :: "u8 \<Rightarrow> bool" where
  "is_hex_digit b \<longleftrightarrow> is_digit b \<or> (97 \<le> b \<and> b \<le> 102)"

definition is_hexadecimal :: "nat \<Rightarrow> u8 list \<Rightarrow> bool" where
  "is_hexadecimal n bs \<longleftrightarrow> bs \<noteq> [] \<and> (\<forall>b \<in> set bs. is_hex_digit b) \<and> hex_value bs = n \<and>
     (hd bs = 48 \<longrightarrow> bs = [48])"

lemma unat_dec_digit: "d < 10 \<Longrightarrow> unat (48 + ucast (of_nat d :: u64) :: u8) = 48 + d"
proof -
  assume d: "d < 10"
  have "(48 + ucast (of_nat d :: u64) :: u8) = of_nat (48 + d)"
  proof -
    have "(ucast (of_nat d :: u64) :: u8) = of_nat d"
      using d by (simp add: unsigned_of_nat take_bit_nat_eq_self)
    then show ?thesis by simp
  qed
  then show ?thesis using d by (simp add: unat_of_nat_small del: of_nat_add)
qed

lemma dec_digit:
  fixes u :: u64
  defines "b \<equiv> 48 + ucast (u mod 10) :: u8"
  shows "is_digit b" and "dec_val b = unat u mod 10" and "b = 48 \<Longrightarrow> u mod 10 = 0"
proof -
  have m: "u mod 10 = of_nat (unat u mod 10)" by (simp add: word_unat_eq_iff unat_mod unat_of_nat_small)
  have u: "unat b = 48 + unat u mod 10" unfolding b_def m by (rule unat_dec_digit) simp
  have "unat u mod 10 < 10" by simp
  then show "is_digit b" "dec_val b = unat u mod 10" "b = 48 \<Longrightarrow> u mod 10 = 0"
    using u by (auto simp: is_digit_def dec_val_def word_le_unat word_unat_eq_iff unat_mod)
qed

lemma hex_digit_val:
  fixes u :: u64
  defines "b \<equiv> hex_digit (u AND 0xF)"
  shows "is_hex_digit b" and "hex_val b = unat u mod 16" and "b = 48 \<Longrightarrow> u AND 0xF = 0"
proof -
  have "u AND 0xF = take_bit 4 u" by (simp add: take_bit_eq_mask mask_eq_exp_minus_1)
  also have "\<dots> = u mod 16" by (simp add: take_bit_eq_mod)
  finally have m: "u AND 0xF = of_nat (unat u mod 16)"
    by (simp add: word_unat_eq_iff unat_mod unat_of_nat_small)
  define d where "d = unat u mod 16"
  have d: "d < 16" by (simp add: d_def)
  have c: "(ucast (of_nat d :: u64) :: u8) = of_nat d"
    using d by (simp add: unsigned_of_nat take_bit_nat_eq_self)
  have lt: "(of_nat d :: u64) < 10 \<longleftrightarrow> d < 10"
    using d by (simp add: word_less_unat unat_of_nat_small)
  have b: "b = (if d < 10 then of_nat (48 + d) else of_nat (87 + d))"
    using d by (simp add: b_def m d_def [symmetric] hex_digit_def lt c)
  have u: "unat b = (if d < 10 then 48 + d else 87 + d)"
    unfolding b using d by (simp add: unat_of_nat_small del: of_nat_add)
  show "is_hex_digit b" "hex_val b = unat u mod 16" "b = 48 \<Longrightarrow> u AND 0xF = 0"
    using u d by (auto simp: is_hex_digit_def hex_val_def is_digit_def word_le_unat m d_def [symmetric]
        split: if_splits)
qed

lemma dec_digits_value: "decimal_value (rev (dec_digits u)) = unat u"
proof (induction u rule: dec_digits.induct)
  case (1 u)
  then show ?case by (subst dec_digits.simps) (simp add: dec_digit(2) unat_div)
qed

lemma dec_digits_digits: "\<forall>b \<in> set (dec_digits u). is_digit b"
proof (induction u rule: dec_digits.induct)
  case (1 u)
  then show ?case by (subst dec_digits.simps) (simp add: dec_digit(1))
qed

lemma dec_digits_last: "u \<noteq> 0 \<Longrightarrow> dec_digits u \<noteq> [] \<and> last (dec_digits u) \<noteq> 48"
proof (induction u rule: dec_digits.induct)
  case (1 u)
  show ?case
  proof (cases "u div 10 = 0")
    case True
    then have "48 + ucast (u mod 10) \<noteq> (48 :: u8)"
      using dec_digit(3) [of u] "1.prems" div_mult_mod_eq [of u 10] by auto
    then show ?thesis using "1.prems" True
      by (subst (1 2) dec_digits.simps) (simp add: dec_digits.simps [of 0])
  next
    case False
    then show ?thesis using 1 by (subst (1 2) dec_digits.simps) simp
  qed
qed

lemma dec_digits_length: "unat u < 10 ^ n \<Longrightarrow> length (dec_digits u) \<le> n"
proof (induction u arbitrary: n rule: dec_digits.induct)
  case (1 u)
  show ?case
  proof (cases "u = 0")
    case False
    then obtain k where n: "n = Suc k" using "1.prems" by (cases n) (auto simp: unat_eq_0)
    then have "unat (u div 10) < 10 ^ k" using "1.prems" by (simp add: unat_div less_mult_imp_div_less)
    then show ?thesis using "1.IH" [OF False] n False by (subst dec_digits.simps) simp
  qed (simp add: dec_digits.simps)
qed

lemma drop_bit_4_unat: "unat (drop_bit 4 u :: u64) = unat u div 16"
  by (simp add: drop_bit_eq_div unat_div)

lemma hex_digits_value: "hex_value (rev (hex_digits u)) = unat u"
proof (induction u rule: hex_digits.induct)
  case (1 u)
  then show ?case by (subst hex_digits.simps) (simp add: hex_digit_val(2) drop_bit_4_unat)
qed

lemma hex_digits_digits: "\<forall>b \<in> set (hex_digits u). is_hex_digit b"
proof (induction u rule: hex_digits.induct)
  case (1 u)
  then show ?case by (subst hex_digits.simps) (simp add: hex_digit_val(1))
qed

lemma hex_digits_last: "u \<noteq> 0 \<Longrightarrow> hex_digits u \<noteq> [] \<and> last (hex_digits u) \<noteq> 48"
proof (induction u rule: hex_digits.induct)
  case (1 u)
  show ?case
  proof (cases "drop_bit 4 u = 0")
    case True
    have "u AND 0xF \<noteq> 0"
    proof
      assume "u AND 0xF = 0"
      moreover have "u AND 0xF = take_bit 4 u" by (simp add: take_bit_eq_mask mask_eq_exp_minus_1)
      ultimately have "u = 0" using True bits_ident [of 4 u] by simp
      with "1.prems" show False by simp
    qed
    then have "hex_digit (u AND 0xF) \<noteq> 48" using hex_digit_val(3) [of u] by blast
    then show ?thesis using "1.prems" True
      by (subst (1 2) hex_digits.simps) (simp add: hex_digits.simps [of 0])
  next
    case False
    then show ?thesis using 1 by (subst (1 2) hex_digits.simps) simp
  qed
qed

text \<open>The digits of a number as \<open>kvprintf\<close> collects them, read in output order.\<close>

definition dec_text :: "u64 \<Rightarrow> u8 list" where
  "dec_text u = rev (dec_numbuf u)"

definition hex_text :: "u64 \<Rightarrow> u8 list" where
  "hex_text u = rev (hex_numbuf u)"

lemma dec_text_decimal: "is_decimal (unat u) (dec_text u)"
  using dec_digits_value [of u] dec_digits_digits [of u] dec_digits_last [of u]
  by (auto simp: is_decimal_def dec_text_def dec_numbuf_def hd_rev numeral_value_def dec_val_def is_digit_def)

lemma hex_text_hexadecimal: "is_hexadecimal (unat u) (hex_text u)"
  using hex_digits_value [of u] hex_digits_digits [of u] hex_digits_last [of u]
  by (auto simp: is_hexadecimal_def hex_text_def hex_numbuf_def hd_rev numeral_value_def hex_val_def
      is_hex_digit_def is_digit_def)

lemma dec_text_length: "length (dec_text u) \<le> 20"
  using dec_digits_length [of u 20] unat_lt_64 [of u]
  by (auto simp: dec_text_def dec_numbuf_def simp del: unat_lt_64)

section \<open>Parsing a conversion specification\<close>

lemma foldl_digits_mono: "k \<le> foldl (\<lambda>n b. 10 * n + dec_val b) k w"
proof (induction w arbitrary: k)
  case (Cons b w)
  have "k \<le> 10 * k + dec_val b" by simp
  also have "\<dots> \<le> foldl (\<lambda>n b. 10 * n + dec_val b) (10 * k + dec_val b) w" by (rule Cons)
  finally show ?case by simp
qed simp

lemma parse_int_digits:
  assumes "\<forall>b \<in> set w. is_digit b" and "q = [] \<or> \<not> is_digit (hd q)"
    and "int (foldl (\<lambda>n b. 10 * n + dec_val b) n w) \<le> INT_MAX"
  shows "parse_int (w @ q) (int n) = Some (int (foldl (\<lambda>n b. 10 * n + dec_val b) n w), q)"
  using assms
proof (induction w arbitrary: n)
  case Nil
  then show ?case by (cases q) auto
next
  case (Cons b w)
  let ?n = "10 * n + dec_val b"
  have b: "is_digit b" "48 \<le> unat b" using Cons.prems(1) by (auto simp: is_digit_def word_le_unat)
  have v: "int n * 10 + (uint b - 48) = int ?n" using b(2) by (simp add: dec_val_def of_nat_diff)
  have "int ?n \<le> INT_MAX" using foldl_digits_mono [of ?n w] Cons.prems(3) by simp
  then have "c_int (int n * 10 + (uint b - 48)) = Some (int ?n)"
    unfolding v by (simp add: INT_MIN_def)
  then show ?case using b(1) Cons.IH [of ?n] Cons.prems by simp
qed

text \<open>The text of a flag and width specification, and the padded text it asks for.\<close>

definition spec_text :: "bool \<Rightarrow> bool \<Rightarrow> u8 list \<Rightarrow> u8 list" where
  "spec_text l z w = (if l then [45] else []) @ (if z then [48] else []) @ w"

definition padded :: "bool \<Rightarrow> bool \<Rightarrow> nat \<Rightarrow> u8 list \<Rightarrow> u8 list" where
  "padded l z n bs =
    (if l then bs @ replicate (n - length bs) 32
     else replicate (n - length bs) (if z then 48 else 32) @ bs)"

lemma padded_length: "length (padded l z n bs) = max n (length bs)"
  by (auto simp: padded_def)

lemma parse_directive_spec:
  assumes w: "\<forall>b \<in> set w. is_digit b" "w = [] \<or> hd w \<noteq> 48" "int (decimal_value w) \<le> INT_MAX"
    and c: "\<not> is_digit c" "c \<noteq> 45" "c \<noteq> 46" "c \<noteq> 108"
  shows "parse_directive (spec_text l z w @ c # p) =
    Some (\<lparr>left = l, zero = z, width = int (decimal_value w), precision = -1\<rparr>, c # p)"
proof -
  have c48: "c \<noteq> 48" using c(1) by (auto simp: is_digit_def)
  have a0: "accept 48 ((if z then [48] else []) @ w @ c # p) = (z, w @ c # p)"
    using w(2) c48 by (cases w) auto
  have "hd ((if z then [48] else []) @ w @ c # p) \<noteq> 45"
    using w(1) c(2) by (cases z; cases w) (auto simp: is_digit_def)
  then have a1: "accept 45 (spec_text l z w @ c # p) = (l, (if z then [48] else []) @ w @ c # p)"
    by (cases l; cases "(if z then [48] else []) @ w @ c # p") (auto simp: spec_text_def)
  have i: "parse_int (w @ c # p) 0 = Some (int (decimal_value w), c # p)"
    using parse_int_digits [OF w(1), of "c # p" 0] w(3) c(1) by (simp add: numeral_value_def)
  show ?thesis using c(3,4)
    by (simp add: parse_directive_def a0 a1 i parse_precision_def)
qed

lemma put_number_padded:
  "put_number \<lparr>left = l, zero = z, width = int n, precision = -1\<rparr> (rev bs) s = kputs (padded l z n bs) s"
  by (cases l; cases "length bs < n")
    (simp_all add: put_number_def padded_def kputs_append Let_def nat_diff_distrib' of_nat_diff)

section \<open>Conversions\<close>

text \<open>
  An unsigned conversion with optional \<open>-\<close> and \<open>0\<close> flags and a width prints the decimal
  numeral of its argument, padded to the width on the side the flags ask for.
\<close>

theorem kvprintf_unsigned:
  assumes "\<forall>b \<in> set w. is_digit b" and "w = [] \<or> hd w \<noteq> 48" and "decimal_value w \<le> 2147483647"
  shows "kvprintf (37 # spec_text l z w @ [ch CHR ''u'']) [u] s
      = Some (kputs (padded l z (decimal_value w) (dec_text u)) s) \<and>
    is_decimal (unat u) (dec_text u) \<and> length (dec_text u) \<le> 20"
proof -
  have "int (decimal_value w) \<le> INT_MAX" using assms(3) by (simp add: INT_MAX_def)
  then have "parse_directive (spec_text l z w @ [117]) =
      Some (\<lparr>left = l, zero = z, width = int (decimal_value w), precision = -1\<rparr>, [117])"
    using parse_directive_spec [OF assms(1,2), of 117 l z "[]"] by (simp add: is_digit_def)
  moreover have "put_number \<lparr>left = l, zero = z, width = int (decimal_value w), precision = -1\<rparr>
      (dec_numbuf u) s = kputs (padded l z (decimal_value w) (dec_text u)) s"
    using put_number_padded [of l z "decimal_value w" "dec_text u" s] by (simp add: dec_text_def)
  ultimately show ?thesis
    using dec_text_decimal [of u] dec_text_length [of u] by (simp add: convert_def)
qed

lemma kvprintf_unsigned_witness:
  "kvprintf (lit ''%06u'') [42] boot_machine = Some (kputs (lit ''000042'') boot_machine)"
proof -
  have "decimal_value (lit ''6'') \<le> 2147483647" by (simp add: numeral_value_def dec_val_def)
  moreover have "dec_text 42 = lit ''42''" by (simp add: dec_text_def dec_numbuf_def dec_digits.simps)
  moreover have "replicate 4 (48 :: u8) = [48, 48, 48, 48]" by (simp add: numeral_eq_Suc)
  ultimately show ?thesis
    using kvprintf_unsigned [of "lit ''6''" False True 42 boot_machine]
    by (simp add: is_digit_def spec_text_def padded_def numeral_value_def dec_val_def)
qed

lemma parse_directive_plain:
  "\<not> is_digit c \<Longrightarrow> c \<noteq> 45 \<Longrightarrow> c \<noteq> 46 \<Longrightarrow> c \<noteq> 108 \<Longrightarrow>
    parse_directive (c # p) = Some (\<lparr>left = False, zero = False, width = 0, precision = -1\<rparr>, c # p)"
  using parse_directive_spec [of "[]" c False False p]
  by (simp add: spec_text_def numeral_value_def INT_MAX_def)

lemma unat_abs: "unat (if sint v < 0 then - v else v) = nat \<bar>sint (v :: u64)\<bar>"
proof (cases "sint v < 0")
  case True
  have "- (2 ^ 63) \<le> sint v" using sint_greater_eq [of v] by simp
  then have r: "0 \<le> - sint v" "- sint v < 2 ^ 64" using True by simp_all
  have "- v = word_of_int (- sint v)" by simp
  then have "uint (- v) = - sint v" using r by (simp only: uint_word_of_int_eq) (simp add: take_bit_int_eq_self)
  then show ?thesis using True by (simp add: unat_eq_nat_uint)
next
  case False
  have "sint v < 2 ^ 63" using sint_lt [of v] by simp
  then have "uint v = sint v" using False
    by (subst uint_sint) (simp add: take_bit_int_eq_self)
  then show ?thesis using False by (simp add: unat_eq_nat_uint)
qed

text \<open>A signed conversion prints the sign and the decimal numeral of the absolute value.\<close>

theorem kvprintf_signed:
  assumes "sint v \<noteq> - (2 ^ 63)"
  shows "\<exists>bs. kvprintf (lit ''%d'') [v] s =
      Some (kputs ((if sint v < 0 then [ch CHR ''-''] else []) @ bs) s) \<and> is_decimal (nat \<bar>sint v\<bar>) bs"
proof -
  let ?u = "if sint v < 0 then - v else v"
  let ?sign = "if sint v < 0 then [ch CHR ''-''] else []"
  have abs: "unat ?u = nat \<bar>sint v\<bar>" by (rule unat_abs)
  have "put_number \<lparr>left = False, zero = False, width = 0, precision = -1\<rparr> (dec_numbuf ?u @ ?sign) s
      = kputs (?sign @ dec_text ?u) s"
    using put_number_padded [of False False 0 "?sign @ dec_text ?u" s]
    by (auto simp: dec_text_def padded_def)
  then have "kvprintf (lit ''%d'') [v] s = Some (kputs (?sign @ dec_text ?u) s)"
    using assms by (simp add: parse_directive_plain is_digit_def convert_def Let_def split del: if_split)
  moreover have "is_decimal (nat \<bar>sint v\<bar>) (dec_text ?u)"
    using dec_text_decimal [of ?u] unfolding abs .
  ultimately show ?thesis by auto
qed

lemma kvprintf_signed_witness:
  "\<exists>bs. kvprintf (lit ''%d'') [- 17] boot_machine = Some (kputs (ch CHR ''-'' # bs) boot_machine) \<and> is_decimal 17 bs"
  using kvprintf_signed [of "- 17" boot_machine] by simp

text \<open>A hexadecimal conversion prints the hexadecimal numeral of its argument.\<close>

theorem kvprintf_hex:
  "\<exists>bs. kvprintf (lit ''0x%x'') [u] s = Some (kputs (lit ''0x'' @ bs) s) \<and> is_hexadecimal (unat u) bs"
proof -
  have "put_number \<lparr>left = False, zero = False, width = 0, precision = -1\<rparr> (hex_numbuf u) t
      = kputs (hex_text u) t" for t :: "'a machine_scheme"
    using put_number_padded [of False False 0 "hex_text u" t] by (simp add: hex_text_def padded_def)
  then have "kvprintf (lit ''0x%x'') [u] s = Some (kputs (lit ''0x'' @ hex_text u) s)"
    by (simp add: parse_directive_plain is_digit_def convert_def kputs_Cons)
  then show ?thesis using hex_text_hexadecimal [of u] by blast
qed

section \<open>Departures from C's printf\<close>

lemma parse_directive_l:
  "\<not> is_digit c \<Longrightarrow> c \<noteq> 45 \<Longrightarrow> c \<noteq> 46 \<Longrightarrow>
    parse_directive (108 # c # p) = Some (\<lparr>left = False, zero = False, width = 0, precision = -1\<rparr>, c # p)"
  by (simp add: parse_directive_def parse_precision_def is_digit_def)

text \<open>
  Only one \<open>l\<close> is skipped: the \<open>%llx\<close> that the heap uses for its addresses prints the
  text \<open>%lx\<close> and takes no argument, and \<open>%zu\<close> prints \<open>%zu\<close>, so neither ever shows a number.
\<close>

theorem kvprintf_long_long:
  "kvprintf (lit ''%llx'' @ p) ap s = kvprintf p ap (kputs (lit ''%lx'') s) \<and>
   kvprintf (lit ''%zu'' @ p) ap s = kvprintf p ap (kputs (lit ''%zu'') s)"
  by (simp add: parse_directive_l parse_directive_plain is_digit_def convert_def kputs_Cons)

text \<open>Zero padding goes in front of the sign, and so does the zero fill of a precision.\<close>

theorem kvprintf_zero_pad_negative:
  "kvprintf (lit ''%05d'') [- 42] s = Some (kputs (lit ''00-42'') s) \<and>
   kvprintf (lit ''%.5d'') [- 42] s = Some (kputs (lit ''00-42'') s)"
proof -
  have "replicate 2 (48 :: u8) = [48, 48]" by (simp add: numeral_eq_Suc)
  then show ?thesis
    by (simp add: parse_directive_def parse_precision_def is_digit_def convert_def put_number_def
        dec_numbuf_def dec_digits.simps kputs_Cons kputs_append Let_def c_int_def INT_MAX_def INT_MIN_def)
qed

text \<open>A format that ends in a percent sign makes \<open>kvprintf\<close> read behind the terminating NUL.\<close>

theorem kvprintf_trailing_percent: "\<forall>b \<in> set xs. b \<noteq> 37 \<Longrightarrow> kvprintf (xs @ [37]) ap s = None"
  by (simp add: kvprintf_text parse_directive_def parse_precision_def)

lemma kvprintf_trailing_percent_witness: "kvprintf (lit ''100%'') [] boot_machine = None"
  using kvprintf_trailing_percent [of "lit ''100''" "[]" boot_machine] by simp

end
