(* ===== verification/Heap.thy ===== *)
theory Heap
  imports Printf
begin

text \<open>
  The kernel heap of \<open>mem/heap.c\<close>: a doubly linked list of blocks that tile the heap area, each
  with a 32-byte header in memory, first-fit search, splitting, merging and growth.  Headers live
  in the byte memory, so a pointer that is not a block's reads whatever bytes are there, as
  in the program.  Functions that follow the list return \<open>None\<close> if they never stop.
\<close>

section \<open>Constants and state\<close>

definition HEAP_START_ADDRESS :: u64 where "HEAP_START_ADDRESS = 0x1000000"
definition HEAP_INITIAL_SIZE :: u64 where "HEAP_INITIAL_SIZE = 0x100000"
definition HEAP_MAX_SIZE :: u64 where "HEAP_MAX_SIZE = 0x10000000"
definition HEAP_BLOCK_SIZE :: u64 where "HEAP_BLOCK_SIZE = 0x1000"
definition HEAP_MAGIC :: u32 where "HEAP_MAGIC = 0xDEADBEEF"

lemmas heap_consts = HEAP_START_ADDRESS_def HEAP_INITIAL_SIZE_def HEAP_MAX_SIZE_def
  HEAP_BLOCK_SIZE_def HEAP_MAGIC_def

definition HEAP_ALIGN :: "u64 \<Rightarrow> u64" where
  "HEAP_ALIGN sz = (sz + 7) AND NOT 7"

text \<open>The header of a block: fields at offsets 0, 4, 8, 16 and 24, 32 bytes in all.\<close>

record heap_block =
  magic :: u32
  bsize :: u32
  used :: u32
  "next" :: u64
  prev :: u64

definition SIZEOF_BLOCK :: u64 where "SIZEOF_BLOCK = 32"

definition load_block :: "memory \<Rightarrow> u64 \<Rightarrow> heap_block" where
  "load_block m b = \<lparr>magic = rd32 m b, bsize = rd32 m (b + 4), used = rd32 m (b + 8),
     next = rd64 m (b + 16), prev = rd64 m (b + 24)\<rparr>"

definition set_magic :: "u64 \<Rightarrow> u32 \<Rightarrow> memory \<Rightarrow> memory" where "set_magic b v m = wr32 m b v"
definition set_bsize :: "u64 \<Rightarrow> u32 \<Rightarrow> memory \<Rightarrow> memory" where "set_bsize b v m = wr32 m (b + 4) v"
definition set_used :: "u64 \<Rightarrow> u32 \<Rightarrow> memory \<Rightarrow> memory" where "set_used b v m = wr32 m (b + 8) v"
definition set_next :: "u64 \<Rightarrow> u64 \<Rightarrow> memory \<Rightarrow> memory" where "set_next b v m = wr64 m (b + 16) v"
definition set_prev :: "u64 \<Rightarrow> u64 \<Rightarrow> memory \<Rightarrow> memory" where "set_prev b v m = wr64 m (b + 24) v"

lemmas set_field_defs = set_magic_def set_bsize_def set_used_def set_next_def set_prev_def

record heap_t =
  start_address :: u64
  end_address :: u64
  max_address :: u64
  first_block :: u64
  total_blocks :: u32
  used_blocks :: u32

record heap_machine = machine +
  kernel_heap :: heap_t

section \<open>Operations\<close>

definition heap_init :: "'a heap_machine_scheme \<Rightarrow> 'a heap_machine_scheme option" where
  "heap_init s =
    (let h = \<lparr>start_address = HEAP_START_ADDRESS,
              end_address = HEAP_START_ADDRESS + HEAP_INITIAL_SIZE,
              max_address = HEAP_START_ADDRESS + HEAP_MAX_SIZE,
              first_block = HEAP_START_ADDRESS, total_blocks = 1, used_blocks = 0\<rparr>;
         first = start_address h;
         m = set_prev first 0 (set_next first 0 (set_used first 0
               (set_bsize first (ucast HEAP_INITIAL_SIZE) (set_magic first HEAP_MAGIC (mem s)))))
     in kprintf ''heap initialized: start=0x%llx, end=0x%llx\<newline>''
          [start_address h, end_address h] (s\<lparr>mem := m, kernel_heap := h\<rparr>))"

partial_function (option) find_loop :: "memory \<Rightarrow> u64 \<Rightarrow> u64 \<Rightarrow> u64 option" where
  "find_loop m current total_size =
    (if current = 0 then Some 0
     else if used (load_block m current) = 0 \<and> total_size \<le> ucast (bsize (load_block m current))
     then Some current
     else find_loop m (next (load_block m current)) total_size)"

definition heap_find_free_block :: "u64 \<Rightarrow> 'a heap_machine_scheme \<Rightarrow> u64 option" where
  "heap_find_free_block sz s =
    (let total_size = HEAP_ALIGN (sz + SIZEOF_BLOCK)
     in find_loop (mem s) (first_block (kernel_heap s)) total_size)"

definition heap_split_block ::
  "u64 \<Rightarrow> u64 \<Rightarrow> 'a heap_machine_scheme \<Rightarrow> u64 \<times> 'a heap_machine_scheme" where
  "heap_split_block block sz s =
    (let total_size = HEAP_ALIGN (sz + SIZEOF_BLOCK); m = mem s in
     if ucast (bsize (load_block m block)) < total_size + 64 then (block, s)
     else
       let new_block = block + total_size;
           m = set_magic new_block HEAP_MAGIC m;
           m = set_bsize new_block (ucast (ucast (bsize (load_block m block)) - total_size)) m;
           m = set_used new_block 0 m;
           m = set_next new_block (next (load_block m block)) m;
           m = set_prev new_block block m;
           m = set_bsize block (ucast total_size) m;
           m = set_used block 1 m;
           m = (if next (load_block m block) \<noteq> 0 then set_prev (next (load_block m block)) new_block m else m);
           m = set_next block new_block m;
           h = kernel_heap s
       in (block, s\<lparr>mem := m, kernel_heap := h\<lparr>total_blocks := total_blocks h + 1\<rparr>\<rparr>))"

text \<open>The two halves of \<open>heap_merge_adjacent_blocks\<close>, on the memory and the block counter.\<close>

definition merge_next :: "u64 \<Rightarrow> memory \<times> u32 \<Rightarrow> memory \<times> u32" where
  "merge_next block mc =
    (let (m, total) = mc; nxt = next (load_block m block) in
     if nxt \<noteq> 0 \<and> used (load_block m nxt) = 0 then
       let m = set_bsize block (bsize (load_block m block) + bsize (load_block m nxt)) m;
           m = set_next block (next (load_block m (next (load_block m block)))) m;
           m = (if next (load_block m block) \<noteq> 0 then set_prev (next (load_block m block)) block m else m)
       in (m, total - 1)
     else (m, total))"

definition merge_prev :: "u64 \<Rightarrow> memory \<times> u32 \<Rightarrow> memory \<times> u32" where
  "merge_prev block mc =
    (let (m, total) = mc; prv = prev (load_block m block) in
     if prv \<noteq> 0 \<and> used (load_block m prv) = 0 then
       let m = set_bsize prv (bsize (load_block m prv) + bsize (load_block m block)) m;
           m = set_next (prev (load_block m block)) (next (load_block m block)) m;
           m = (if next (load_block m block) \<noteq> 0
                then set_prev (next (load_block m block)) (prev (load_block m block)) m else m)
       in (m, total - 1)
     else (m, total))"

definition heap_merge_adjacent_blocks ::
  "u64 \<Rightarrow> 'a heap_machine_scheme \<Rightarrow> 'a heap_machine_scheme" where
  "heap_merge_adjacent_blocks block s =
    (let (m, total) = merge_prev block (merge_next block (mem s, total_blocks (kernel_heap s)))
     in s\<lparr>mem := m, kernel_heap := (kernel_heap s)\<lparr>total_blocks := total\<rparr>\<rparr>)"

partial_function (option) last_loop :: "memory \<Rightarrow> u64 \<Rightarrow> u64 option" where
  "last_loop m last_block =
    (if next (load_block m last_block) \<noteq> 0 then last_loop m (next (load_block m last_block))
     else Some last_block)"

definition heap_expand_heap :: "u64 \<Rightarrow> 'a heap_machine_scheme \<Rightarrow> 'a heap_machine_scheme option" where
  "heap_expand_heap sz s =
    (let expand_size = HEAP_ALIGN sz;
         expand_size = (if expand_size < HEAP_BLOCK_SIZE then HEAP_BLOCK_SIZE else expand_size);
         h = kernel_heap s in
     if max_address h < end_address h + expand_size
     then kprintf ''heap expansion failed: would exceed max size\<newline>'' [] s
     else do {
       let new_block = end_address h;
       let m = set_next new_block 0 (set_used new_block 0 (set_bsize new_block (ucast expand_size)
                 (set_magic new_block HEAP_MAGIC (mem s))));
       last_block \<leftarrow> last_loop m (first_block h);
       let m = set_next last_block new_block m;
       let m = set_prev new_block last_block m;
       let h = h\<lparr>end_address := end_address h + expand_size, total_blocks := total_blocks h + 1\<rparr>;
       kprintf ''heap expanded by %zu bytes, new end: 0x%llx\<newline>'' [expand_size, end_address h]
         (s\<lparr>mem := m, kernel_heap := h\<rparr>)
     })"

definition kmalloc :: "u64 \<Rightarrow> 'a heap_machine_scheme \<Rightarrow> (u64 \<times> 'a heap_machine_scheme) option" where
  "kmalloc sz s =
    (if sz = 0 then Some (0, s)
     else do {
       block \<leftarrow> heap_find_free_block sz s;
       (block, s) \<leftarrow>
         (if block \<noteq> 0 then Some (block, s)
          else do {
            s \<leftarrow> heap_expand_heap sz s;
            block \<leftarrow> heap_find_free_block sz s;
            Some (block, s)
          });
       if block = 0 then do {
         s \<leftarrow> kprintf ''kmalloc failed: out of memory (requested %zu bytes)\<newline>'' [sz] s;
         Some (0, s)
       } else
         let (block, s) = heap_split_block block sz s;
             h = kernel_heap s;
             s = s\<lparr>kernel_heap := h\<lparr>used_blocks := used_blocks h + 1\<rparr>\<rparr>
         in Some (block + SIZEOF_BLOCK, s)
     })"

definition kmfree :: "u64 \<Rightarrow> 'a heap_machine_scheme \<Rightarrow> 'a heap_machine_scheme option" where
  "kmfree ptr s =
    (if ptr = 0 then Some s
     else
       let block = ptr - SIZEOF_BLOCK; b = load_block (mem s) block in
       if magic b \<noteq> HEAP_MAGIC then kprintf ''kmfree: invalid block magic number\<newline>'' [] s
       else if used b = 0 then kprintf ''kmfree: double free detected\<newline>'' [] s
       else
         let h = kernel_heap s;
             s = s\<lparr>mem := set_used block 0 (mem s), kernel_heap := h\<lparr>used_blocks := used_blocks h - 1\<rparr>\<rparr>
         in Some (heap_merge_adjacent_blocks block s))"

definition malloc :: "u64 \<Rightarrow> 'a heap_machine_scheme \<Rightarrow> (u64 \<times> 'a heap_machine_scheme) option" where
  "malloc sz s = kmalloc sz s"

definition mfree :: "u64 \<Rightarrow> 'a heap_machine_scheme \<Rightarrow> 'a heap_machine_scheme option" where
  "mfree ptr s = kmfree ptr s"

section \<open>Diagnostics\<close>

definition heap_get_total_size :: "'a heap_machine_scheme \<Rightarrow> u32" where
  "heap_get_total_size s = ucast (end_address (kernel_heap s) - start_address (kernel_heap s))"

partial_function (option) used_loop :: "memory \<Rightarrow> u64 \<Rightarrow> u32 \<Rightarrow> u32 option" where
  "used_loop m current used_size =
    (if current = 0 then Some used_size
     else used_loop m (next (load_block m current))
       (if used (load_block m current) \<noteq> 0 then used_size + bsize (load_block m current) else used_size))"

definition heap_get_used_size :: "'a heap_machine_scheme \<Rightarrow> u32 option" where
  "heap_get_used_size s = used_loop (mem s) (first_block (kernel_heap s)) 0"

definition heap_get_free_size :: "'a heap_machine_scheme \<Rightarrow> u32 option" where
  "heap_get_free_size s = do { u \<leftarrow> heap_get_used_size s; Some (heap_get_total_size s - u) }"

text \<open>\<open>Inl\<close>: the number of the first corrupt block; \<open>Inr\<close>: the number of blocks on the list.\<close>

partial_function (option) integrity_loop :: "memory \<Rightarrow> u64 \<Rightarrow> u32 \<Rightarrow> (u32 + u32) option" where
  "integrity_loop m current block_count =
    (if current = 0 then Some (Inr block_count)
     else if magic (load_block m current) \<noteq> HEAP_MAGIC then Some (Inl block_count)
     else integrity_loop m (next (load_block m current)) (block_count + 1))"

definition heap_validate_integrity :: "'a heap_machine_scheme \<Rightarrow> 'a heap_machine_scheme option" where
  "heap_validate_integrity s = do {
     r \<leftarrow> integrity_loop (mem s) (first_block (kernel_heap s)) 0;
     (case r of
        Inl block_count \<Rightarrow> kprintf ''heap corruption detected at block %u\<newline>'' [ucast block_count] s
      | Inr block_count \<Rightarrow>
          if block_count \<noteq> total_blocks (kernel_heap s)
          then kprintf ''heap block count mismatch: expected %u, found %u\<newline>''
                 [ucast (total_blocks (kernel_heap s)), ucast block_count] s
          else Some s)
   }"

definition heap_print_info :: "'a heap_machine_scheme \<Rightarrow> 'a heap_machine_scheme option" where
  "heap_print_info s = do {
     s \<leftarrow> kprintf ''heap info:\<newline>'' [] s;
     s \<leftarrow> kprintf ''  start: 0x%llx\<newline>'' [start_address (kernel_heap s)] s;
     s \<leftarrow> kprintf ''  end: 0x%llx\<newline>'' [end_address (kernel_heap s)] s;
     s \<leftarrow> kprintf ''  max: 0x%llx\<newline>'' [max_address (kernel_heap s)] s;
     s \<leftarrow> kprintf ''  total blocks: %u\<newline>'' [ucast (total_blocks (kernel_heap s))] s;
     s \<leftarrow> kprintf ''  used blocks: %u\<newline>'' [ucast (used_blocks (kernel_heap s))] s;
     s \<leftarrow> kprintf ''  total size: %u bytes\<newline>'' [ucast (heap_get_total_size s)] s;
     u \<leftarrow> heap_get_used_size s;
     s \<leftarrow> kprintf ''  used size: %u bytes\<newline>'' [ucast u] s;
     f \<leftarrow> heap_get_free_size s;
     kprintf ''  free size: %u bytes\<newline>'' [ucast f] s
   }"

end
