(* ===== verification/HeapSpec.thy ===== *)
theory HeapSpec
  imports Main
begin

text \<open>
  The abstract allocator that \<open>mem/heap.c\<close> implements: the heap is the list of its blocks in
  address order, each a size in bytes (header included) and a flag that says whether it is in use.
  The functions here describe what the C operations do to that list, including their quirks; the
  refinement proof is in \<open>HeapProof\<close>.
\<close>

type_synonym blk = "nat \<times> bool"

definition span :: "blk list \<Rightarrow> nat" where
  "span bs = sum_list (map fst bs)"

text \<open>The address of block \<open>i\<close> of a heap that starts at \<open>p\<close>.\<close>

definition baddr :: "nat \<Rightarrow> blk list \<Rightarrow> nat \<Rightarrow> nat" where
  "baddr p bs i = p + span (take i bs)"

definition align8 :: "nat \<Rightarrow> nat" where
  "align8 n = (n + 7) div 8 * 8"

text \<open>The size of the block that a request of \<open>n\<close> bytes needs.\<close>

definition request :: "nat \<Rightarrow> nat" where
  "request n = align8 (n + 32)"

fun afind :: "nat \<Rightarrow> blk list \<Rightarrow> nat option" where
  "afind t [] = None"
| "afind t ((sz, u) # bs) = (if \<not> u \<and> t \<le> sz then Some 0 else map_option Suc (afind t bs))"

definition asplit :: "nat \<Rightarrow> nat \<Rightarrow> blk list \<Rightarrow> blk list" where
  "asplit i t bs =
    (if fst (bs ! i) < t + 64 then bs
     else take i bs @ (t, True) # (fst (bs ! i) - t, False) # drop (Suc i) bs)"

definition heap_start :: nat where "heap_start = 0x1000000"
definition heap_limit :: nat where "heap_limit = 0x10000000"

definition aexpand :: "nat \<Rightarrow> blk list \<Rightarrow> blk list" where
  "aexpand n bs =
    (let e = max 0x1000 (align8 n) in if heap_limit < span bs + e then bs else bs @ [(e, False)])"

definition amalloc :: "nat \<Rightarrow> blk list \<Rightarrow> nat option \<times> blk list" where
  "amalloc n bs =
    (if n = 0 then (None, bs)
     else case afind (request n) bs of
         Some i \<Rightarrow> (Some i, asplit i (request n) bs)
       | None \<Rightarrow>
           (let bs' = aexpand n bs in
            case afind (request n) bs' of
              Some i \<Rightarrow> (Some i, asplit i (request n) bs')
            | None \<Rightarrow> (None, bs')))"

text \<open>Joining block \<open>i\<close> with its successor; the result keeps the flag of block \<open>i\<close>.\<close>

definition ajoin :: "nat \<Rightarrow> blk list \<Rightarrow> blk list" where
  "ajoin i bs = take i bs @ (fst (bs ! i) + fst (bs ! Suc i), snd (bs ! i)) # drop (i + 2) bs"

definition amerge :: "nat \<Rightarrow> blk list \<Rightarrow> blk list" where
  "amerge i bs =
    (let bs = (if Suc i < length bs \<and> \<not> snd (bs ! Suc i) then ajoin i bs else bs)
     in if 0 < i \<and> \<not> snd (bs ! (i - 1)) then ajoin (i - 1) bs else bs)"

definition afree :: "nat \<Rightarrow> blk list \<Rightarrow> blk list" where
  "afree i bs = amerge i (bs[i := (fst (bs ! i), False)])"

text \<open>Block sizes are multiples of 8 and leave room for a header and a payload.\<close>

definition sizes_ok :: "blk list \<Rightarrow> bool" where
  "sizes_ok bs \<longleftrightarrow> (\<forall>(sz, u) \<in> set bs. 40 \<le> sz \<and> sz mod 8 = 0)"

section \<open>Sums and addresses\<close>

lemma span_simps [simp]: "span [] = 0" "span ((sz, u) # bs) = sz + span bs"
  "span (xs @ ys) = span xs + span ys"
  by (simp_all add: span_def)

lemma span_Cons: "span (b # bs) = fst b + span bs"
  by (simp add: span_def)

lemma sizes_ok_simps [simp]: "sizes_ok []"
  "sizes_ok ((sz, u) # bs) \<longleftrightarrow> 40 \<le> sz \<and> sz mod 8 = 0 \<and> sizes_ok bs"
  "sizes_ok (xs @ ys) \<longleftrightarrow> sizes_ok xs \<and> sizes_ok ys"
  by (auto simp: sizes_ok_def)

lemma sizes_ok_span: "sizes_ok bs \<Longrightarrow> 40 * length bs \<le> span bs"
  by (induction bs) auto

lemma split_nth: "i < length xs \<Longrightarrow> xs = take i xs @ xs ! i # drop (Suc i) xs"
  by (rule id_take_nth_drop)

lemma split_nth2: "Suc i < length xs \<Longrightarrow> xs = take i xs @ xs ! i # xs ! Suc i # drop (i + 2) xs"
  by (metis Cons_nth_drop_Suc Suc_lessD add_2_eq_Suc' id_take_nth_drop)

lemma span_take_nth: "i < length bs \<Longrightarrow> span (take (Suc i) bs) = span (take i bs) + fst (bs ! i)"
  by (simp add: take_Suc_conv_app_nth) (simp add: span_def)

lemma span_take_le: "span (take i bs) \<le> span bs"
  using append_take_drop_id [of i bs] span_simps(3) [of "take i bs" "drop i bs"] by simp

lemma baddr_0 [simp]: "baddr p bs 0 = p"
  by (simp add: baddr_def)

lemma baddr_Suc: "i < length bs \<Longrightarrow> baddr p bs (Suc i) = baddr p bs i + fst (bs ! i)"
  by (simp add: baddr_def span_take_nth)

lemma baddr_append: "i \<le> length xs \<Longrightarrow> baddr p (xs @ ys) i = baddr p xs i"
  by (simp add: baddr_def)

lemma baddr_end: "baddr p bs (length bs) = p + span bs"
  by (simp add: baddr_def)

lemma block_fits: "i < length bs \<Longrightarrow> baddr p bs i + fst (bs ! i) \<le> p + span bs"
  using span_take_le [of "Suc i" bs] by (simp add: baddr_def span_take_nth)

section \<open>First fit\<close>

lemma afind_Some:
  "afind t bs = Some i \<Longrightarrow> i < length bs \<and> \<not> snd (bs ! i) \<and> t \<le> fst (bs ! i) \<and>
     (\<forall>j < i. snd (bs ! j) \<or> fst (bs ! j) < t)"
proof (induction t bs arbitrary: i rule: afind.induct)
  case (2 t sz u bs)
  then show ?case by (cases i) (auto split: if_splits simp: All_less_Suc2)
qed simp

lemma afind_None: "afind t bs = None \<longleftrightarrow> (\<forall>(sz, u) \<in> set bs. u \<or> sz < t)"
  by (induction t bs rule: afind.induct) auto

lemma afind_append: "afind t (xs @ ys) =
    (case afind t xs of Some i \<Rightarrow> Some i | None \<Rightarrow> map_option ((+) (length xs)) (afind t ys))"
proof (induction xs)
  case Nil
  then show ?case by (cases "afind t ys") simp_all
next
  case (Cons b xs)
  then show ?case by (cases b; cases "afind t ys") (auto split: option.splits)
qed

lemma align8_mod [simp]: "align8 n mod 8 = 0"
  by (simp add: align8_def)

lemma align8_bounds: "n \<le> align8 n" "align8 n \<le> n + 7"
  by (simp_all add: align8_def)

lemma align8_add32: "align8 (n + 32) = align8 n + 32"
  using div_mult_self1 [of 8 "n + 7" 4] by (simp add: align8_def add.commute add.left_commute)

lemma request_bounds: "n + 32 \<le> request n" "0 < n \<Longrightarrow> 40 \<le> request n" "request n mod 8 = 0"
  using align8_bounds [of "n + 32"] by (auto simp: request_def align8_def)

section \<open>The operations keep the list well formed\<close>

lemma asplit_sizes:
  assumes "sizes_ok bs" and "i < length bs" and "40 \<le> t" and "t mod 8 = 0"
  shows "sizes_ok (asplit i t bs)" and "span (asplit i t bs) = span bs"
proof -
  obtain sz u where b: "bs ! i = (sz, u)" by (cases "bs ! i")
  have bs: "bs = take i bs @ (sz, u) # drop (Suc i) bs" using split_nth [OF assms(2)] b by simp
  then have ok: "sizes_ok (take i bs @ (sz, u) # drop (Suc i) bs)"
    and sp: "span bs = span (take i bs @ (sz, u) # drop (Suc i) bs)" using assms(1) by simp_all
  have "(sz - t) mod 8 = 0" if "t \<le> sz"
    using ok assms(4) that mod_eq_dvd_iff_nat by fastforce
  then show "sizes_ok (asplit i t bs)" "span (asplit i t bs) = span bs"
    using ok sp assms(3,4) by (auto simp: asplit_def b assms(1))
qed

lemma ajoin_sizes:
  assumes "sizes_ok bs" and "Suc i < length bs"
  shows "sizes_ok (ajoin i bs)" and "span (ajoin i bs) = span bs"
proof -
  obtain sz u sz' u' where b: "bs ! i = (sz, u)" "bs ! Suc i = (sz', u')"
    by (cases "bs ! i"; cases "bs ! Suc i")
  have bs: "bs = take i bs @ (sz, u) # (sz', u') # drop (i + 2) bs"
    using split_nth2 [OF assms(2)] b by simp
  then have ok: "sizes_ok (take i bs @ (sz, u) # (sz', u') # drop (i + 2) bs)"
    and sp: "span bs = span (take i bs @ (sz, u) # (sz', u') # drop (i + 2) bs)" using assms(1) by simp_all
  then show "sizes_ok (ajoin i bs)" "span (ajoin i bs) = span bs"
    by (auto simp: ajoin_def b mod_add_eq)
qed

lemma aexpand_sizes: "sizes_ok bs \<Longrightarrow> sizes_ok (aexpand n bs)"
  by (simp add: aexpand_def Let_def max_def)

lemma aexpand_limit: "span bs \<le> heap_limit \<Longrightarrow> span (aexpand n bs) \<le> heap_limit"
  by (simp add: aexpand_def Let_def)

end
