(* ===== verification/HeapChain.thy ===== *)
theory HeapChain
  imports Heap HeapSpec
begin

text \<open>
  How a block list of \<open>HeapSpec\<close> is laid out in memory: every header carries the magic number,
  the size and flag of its block and the addresses of its neighbours.  The lemmas say what a
  store to one header field does to the layout, and that the list-walking loops of the heap
  terminate on it with the result of their abstract counterparts.
\<close>

section \<open>One header\<close>

lemma region_offsets_disjoint:
  assumes "unat k + n \<le> unat j" and "unat j + l < 2 ^ 64"
  shows "region (b + k) n \<inter> region (b + j) l = {}"
proof (rule ccontr)
  assume "region (b + k) n \<inter> region (b + j) l \<noteq> {}"
  then obtain x where "x \<in> region (b + k) n" "x \<in> region (b + j) l" by blast
  then have lt: "unat (x - (b + k)) < n" "unat (x - (b + j)) < l" by (simp_all add: region_def)
  have "unat (x - (b + k) + k) = unat (x - (b + k)) + unat k"
    using lt assms by (intro unat_plus_64) linarith
  moreover have "unat (x - (b + j) + j) = unat (x - (b + j)) + unat j"
    using lt assms by (intro unat_plus_64) linarith
  ultimately show False using lt assms by simp
qed

text \<open>Two scalar accesses of one header at different offsets do not interfere.\<close>

lemma rd32_wr32_offset:
  "unat k + 4 \<le> unat j \<or> unat j + 4 \<le> unat k \<Longrightarrow> unat j + 4 < 2 ^ 64 \<Longrightarrow> unat k + 4 < 2 ^ 64 \<Longrightarrow>
    rd32 (wr32 m (b + k) v) (b + j) = rd32 m (b + j)"
  using region_offsets_disjoint [of k 4 j 4 b] region_offsets_disjoint [of j 4 k 4 b]
  by (intro w32.load_store_apart) auto

lemma rd64_wr64_offset:
  "unat k + 8 \<le> unat j \<or> unat j + 8 \<le> unat k \<Longrightarrow> unat j + 8 < 2 ^ 64 \<Longrightarrow> unat k + 8 < 2 ^ 64 \<Longrightarrow>
    rd64 (wr64 m (b + k) v) (b + j) = rd64 m (b + j)"
  using region_offsets_disjoint [of k 8 j 8 b] region_offsets_disjoint [of j 8 k 8 b]
  by (intro w64.load_store_apart) auto

lemma rd32_wr64_offset:
  "unat k + 8 \<le> unat j \<or> unat j + 4 \<le> unat k \<Longrightarrow> unat j + 4 < 2 ^ 64 \<Longrightarrow> unat k + 8 < 2 ^ 64 \<Longrightarrow>
    rd32 (wr64 m (b + k) v) (b + j) = rd32 m (b + j)"
  using region_offsets_disjoint [of k 8 j 4 b] region_offsets_disjoint [of j 4 k 8 b]
  by (intro w32.load_cong w64.store_agree) auto

lemma rd64_wr32_offset:
  "unat k + 4 \<le> unat j \<or> unat j + 8 \<le> unat k \<Longrightarrow> unat j + 8 < 2 ^ 64 \<Longrightarrow> unat k + 4 < 2 ^ 64 \<Longrightarrow>
    rd64 (wr32 m (b + k) v) (b + j) = rd64 m (b + j)"
  using region_offsets_disjoint [of k 4 j 8 b] region_offsets_disjoint [of j 8 k 4 b]
  by (intro w64.load_cong w32.store_agree) auto

lemmas rd_wr_offset = rd32_wr32_offset rd64_wr64_offset rd32_wr64_offset rd64_wr32_offset

lemmas rd_wr_offset_0 = rd_wr_offset [where k = 0, simplified] rd_wr_offset [where j = 0, simplified]

lemma load_set_same [simp]:
  "load_block (set_magic b v m) b = (load_block m b)\<lparr>magic := v\<rparr>"
  "load_block (set_bsize b v m) b = (load_block m b)\<lparr>bsize := v\<rparr>"
  "load_block (set_used b v m) b = (load_block m b)\<lparr>used := v\<rparr>"
  "load_block (set_next b w m) b = (load_block m b)\<lparr>next := w\<rparr>"
  "load_block (set_prev b w m) b = (load_block m b)\<lparr>prev := w\<rparr>"
  by (simp_all add: load_block_def set_field_defs rd32_wr32 rd64_wr64 rd_wr_offset rd_wr_offset_0)

text \<open>A store to a header field changes bytes of that header only, and a header is read from its
  own bytes.\<close>

lemma set_field_agree:
  assumes "S \<inter> region b 32 = {}"
  shows "agree_on S m (set_magic b v m)" "agree_on S m (set_bsize b v m)" "agree_on S m (set_used b v m)"
    "agree_on S m (set_next b w m)" "agree_on S m (set_prev b w m)"
proof -
  have sub: "region (b + k) n \<subseteq> region b 32" if "unat k + n \<le> 32" for k n
    using that by (intro region_offset_subset) simp_all
  show "agree_on S m (set_magic b v m)" "agree_on S m (set_bsize b v m)" "agree_on S m (set_used b v m)"
      "agree_on S m (set_next b w m)" "agree_on S m (set_prev b w m)"
    unfolding set_field_defs
    using w32.store_within [OF sub [of 0 4] assms] w32.store_within [OF sub [of 4 4] assms]
      w32.store_within [OF sub [of 8 4] assms] w64.store_within [OF sub [of 16 8] assms]
      w64.store_within [OF sub [of 24 8] assms] by simp_all
qed

lemma load_block_cong: "agree_on (region b 32) m m' \<Longrightarrow> load_block m' b = load_block m b"
proof -
  assume a: "agree_on (region b 32) m m'"
  have sub: "agree_on (region (b + k) n) m m'" if "unat k + n \<le> 32" for k n
    using a that region_offset_subset [of k n 32 b] by (auto intro: agree_on_subset)
  show ?thesis
    using rd32_cong [OF sub [of 0 4]] rd32_cong [OF sub [of 4 4]] rd32_cong [OF sub [of 8 4]]
      rd64_cong [OF sub [of 16 8]] rd64_cong [OF sub [of 24 8]]
    by (simp add: load_block_def)
qed

text \<open>Headers at natural-number addresses below 4 GiB.\<close>

definition low :: "nat \<Rightarrow> bool" where
  "low p \<longleftrightarrow> p + 32 \<le> 2 ^ 32"

definition apart :: "nat \<Rightarrow> nat \<Rightarrow> bool" where
  "apart p q \<longleftrightarrow> p + 32 \<le> q \<or> q + 32 \<le> p"

lemma apart_regions:
  "low p \<Longrightarrow> low q \<Longrightarrow> apart p q \<Longrightarrow> region (of_nat q) 32 \<inter> region (of_nat p) 32 = {}"
  by (intro region_of_nat_disjoint) (auto simp: low_def apart_def)

lemma load_set_apart [simp]:
  assumes "low p" and "low q" and "apart p q"
  shows "load_block (set_magic (of_nat p) v m) (of_nat q) = load_block m (of_nat q)"
    "load_block (set_bsize (of_nat p) v m) (of_nat q) = load_block m (of_nat q)"
    "load_block (set_used (of_nat p) v m) (of_nat q) = load_block m (of_nat q)"
    "load_block (set_next (of_nat p) w m) (of_nat q) = load_block m (of_nat q)"
    "load_block (set_prev (of_nat p) w m) (of_nat q) = load_block m (of_nat q)"
  using set_field_agree [OF apart_regions [OF assms]] by (auto intro: load_block_cong)

text \<open>Memory that differs at most in the headers at the addresses \<open>Q\<close>.\<close>

definition headers_only :: "nat set \<Rightarrow> memory \<Rightarrow> memory \<Rightarrow> bool" where
  "headers_only Q m m' \<longleftrightarrow> (\<forall>x. (\<forall>q \<in> Q. x \<notin> region (of_nat q) 32) \<longrightarrow> m' x = m x)"

lemma headers_only_refl [simp]: "headers_only Q m m"
  by (simp add: headers_only_def)

lemma headers_only_trans:
  "headers_only Q m m' \<Longrightarrow> headers_only Q' m' m'' \<Longrightarrow> headers_only (Q \<union> Q') m m''"
  by (simp add: headers_only_def)

lemma headers_only_mono: "headers_only Q m m' \<Longrightarrow> Q \<subseteq> Q' \<Longrightarrow> headers_only Q' m m'"
  unfolding headers_only_def by blast

lemma headers_only_set:
  assumes "headers_only Q m m'" and "q \<in> Q"
  shows "headers_only Q m (set_magic (of_nat q) v m')" "headers_only Q m (set_bsize (of_nat q) v m')"
    "headers_only Q m (set_used (of_nat q) v m')" "headers_only Q m (set_next (of_nat q) w m')"
    "headers_only Q m (set_prev (of_nat q) w m')"
  using assms set_field_agree [where S = "- region (of_nat q) 32" and b = "of_nat q"]
  by (simp_all add: headers_only_def agree_on_def)

lemma load_block_headers_only:
  assumes "headers_only Q m m'" and "low p" and "\<forall>q \<in> Q. low q \<and> apart q p"
  shows "load_block m' (of_nat p) = load_block m (of_nat p)"
proof (rule load_block_cong)
  have "\<forall>q \<in> Q. x \<notin> region (of_nat q) 32" if "x \<in> region (of_nat p) 32" for x
    using apart_regions assms(2,3) that by blast
  then show "agree_on (region (of_nat p) 32) m m'"
    using assms(1) unfolding headers_only_def agree_on_def by blast
qed

section \<open>The chain of blocks\<close>

definition header :: "nat \<Rightarrow> bool \<Rightarrow> nat \<Rightarrow> nat \<Rightarrow> heap_block" where
  "header sz u prv nxt = \<lparr>magic = HEAP_MAGIC, bsize = of_nat sz, used = (if u then 1 else 0),
     next = of_nat nxt, prev = of_nat prv\<rparr>"

text \<open>
  The blocks \<open>bs\<close> lie one after the other from address \<open>p\<close>; the block before them is at
  \<open>prv\<close>, and \<open>nxt\<close> is the link stored in the last one.
\<close>

fun chain :: "memory \<Rightarrow> nat \<Rightarrow> nat \<Rightarrow> blk list \<Rightarrow> nat \<Rightarrow> bool" where
  "chain m prv p [] nxt \<longleftrightarrow> True"
| "chain m prv p ((sz, u) # bs) nxt \<longleftrightarrow>
     load_block m (of_nat p) = header sz u prv (if bs = [] then nxt else p + sz) \<and>
     chain m p (p + sz) bs nxt"

fun addrs :: "nat \<Rightarrow> blk list \<Rightarrow> nat set" where
  "addrs p [] = {}"
| "addrs p ((sz, u) # bs) = insert p (addrs (p + sz) bs)"

fun last_addr :: "nat \<Rightarrow> nat \<Rightarrow> blk list \<Rightarrow> nat" where
  "last_addr prv p [] = prv"
| "last_addr prv p ((sz, u) # bs) = last_addr p (p + sz) bs"

lemma last_addr_snoc [simp]: "last_addr prv p (bs @ [b]) = p + span bs"
  by (induction prv p bs rule: last_addr.induct; cases b) auto

lemma addrs_range: "q \<in> addrs p bs \<Longrightarrow> sizes_ok bs \<Longrightarrow> p \<le> q \<and> q + 40 \<le> p + span bs"
  by (induction p bs rule: addrs.induct) fastforce+

lemma addrs_append: "addrs p (xs @ ys) = addrs p xs \<union> addrs (p + span xs) ys"
  by (induction p xs rule: addrs.induct) (auto simp: add.assoc)

lemma addrs_baddr: "addrs p bs = baddr p bs ` {..<length bs}"
proof (induction p bs rule: addrs.induct)
  case (2 p sz u bs)
  have "baddr p ((sz, u) # bs) ` {..<length ((sz, u) # bs)}
      = insert p (baddr p ((sz, u) # bs) ` Suc ` {..<length bs})"
    by (simp add: lessThan_Suc_eq_insert_0)
  also have "baddr p ((sz, u) # bs) ` Suc ` {..<length bs} = baddr (p + sz) bs ` {..<length bs}"
    by (auto simp: image_image baddr_def add.assoc)
  finally show ?case using 2 by simp
qed simp

lemma chain_append:
  "chain m prv p (xs @ ys) nxt \<longleftrightarrow>
     chain m prv p xs (if ys = [] then nxt else p + span xs) \<and>
     chain m (last_addr prv p xs) (p + span xs) ys nxt"
  by (induction m prv p xs nxt rule: chain.induct) (auto simp: add.assoc)

lemma chain_cong:
  "(\<And>q. q \<in> addrs p bs \<Longrightarrow> load_block m' (of_nat q) = load_block m (of_nat q)) \<Longrightarrow>
    chain m' prv p bs nxt = chain m prv p bs nxt"
  by (induction m prv p bs nxt rule: chain.induct) auto

text \<open>Stores to headers that lie outside the area of a chain do not affect it.\<close>

lemma chain_headers_only:
  assumes "headers_only Q m m'" and "\<forall>q \<in> Q. low q \<and> (q + 32 \<le> p \<or> p + span bs \<le> q)"
    and "sizes_ok bs" and "p + span bs \<le> 2 ^ 32"
  shows "chain m' prv p bs nxt = chain m prv p bs nxt"
proof (rule chain_cong)
  fix a
  assume "a \<in> addrs p bs"
  with addrs_range assms(3) have a: "p \<le> a" "a + 40 \<le> p + span bs" by blast+
  then show "load_block m' (of_nat a) = load_block m (of_nat a)"
    using assms by (intro load_block_headers_only [OF assms(1)]) (force simp: low_def apart_def)+
qed

lemma chain_set_prev:
  assumes "chain m prv p bs nxt" and "bs \<noteq> []" and "sizes_ok bs" and "p + span bs \<le> 2 ^ 32"
  shows "chain (set_prev (of_nat p) (of_nat a) m) a p bs nxt"
proof (cases bs)
  case (Cons b cs)
  obtain sz u where b: "b = (sz, u)" by (cases b)
  have "headers_only {p} m (set_prev (of_nat p) (of_nat a) m)" by (simp add: headers_only_set)
  then have "chain (set_prev (of_nat p) (of_nat a) m) p (p + sz) cs nxt = chain m p (p + sz) cs nxt"
    using assms Cons b by (intro chain_headers_only) (auto simp: low_def)
  then show ?thesis using assms(1) Cons b by (simp add: header_def)
qed (use assms in simp)

section \<open>The loops\<close>

lemma of_nat_eq_0_low: "p < 2 ^ 64 \<Longrightarrow> (of_nat p :: u64) = 0 \<longleftrightarrow> p = 0"
  using of_nat_inj_small [of p 0, where 'a = 64] by simp

lemma ucast_of_nat_u32: "n < 2 ^ 32 \<Longrightarrow> ucast (of_nat n :: u32) = (of_nat n :: u64)"
  by (simp add: unsigned_of_nat take_bit_nat_eq_self)

lemma of_nat_le_iff_u64: "a < 2 ^ 64 \<Longrightarrow> b < 2 ^ 64 \<Longrightarrow> (of_nat a :: u64) \<le> of_nat b \<longleftrightarrow> a \<le> b"
  by (simp add: word_le_unat unat_of_nat_small)

lemma find_loop_chain:
  assumes "chain m prv p bs 0" and "sizes_ok bs" and "0 < p" and "p + span bs < 2 ^ 32" and "t < 2 ^ 64"
  shows "find_loop m (if bs = [] then 0 else of_nat p) (of_nat t) =
    Some (case afind t bs of None \<Rightarrow> 0 | Some i \<Rightarrow> of_nat (baddr p bs i))"
  using assms
proof (induction bs arbitrary: prv p)
  case Nil
  then show ?case by (simp add: find_loop.simps)
next
  case (Cons b bs)
  obtain sz u where b: "b = (sz, u)" by (cases b)
  have p: "(of_nat p :: u64) \<noteq> 0" using Cons.prems by (subst of_nat_eq_0_low) auto
  have hdr: "load_block m (of_nat p) = header sz u prv (if bs = [] then 0 else p + sz)"
    using Cons.prems(1) b by simp
  have fits: "(of_nat t :: u64) \<le> ucast (of_nat sz :: u32) \<longleftrightarrow> t \<le> sz"
    using Cons.prems(4,5) b by (subst ucast_of_nat_u32) (auto simp: of_nat_le_iff_u64)
  have IH: "find_loop m (if bs = [] then 0 else of_nat (p + sz)) (of_nat t) =
    Some (case afind t bs of None \<Rightarrow> 0 | Some i \<Rightarrow> of_nat (baddr (p + sz) bs i))"
    using Cons.IH [of p "p + sz"] Cons.prems b by auto
  have nxt: "next (load_block m (of_nat p)) = (if bs = [] then 0 else of_nat (p + sz))"
    by (simp add: hdr header_def)
  have ba: "baddr p ((sz, u) # bs) (Suc i) = baddr (p + sz) bs i" for i
    by (simp add: baddr_def)
  have "find_loop m (of_nat p) (of_nat t) =
      (if \<not> u \<and> t \<le> sz then Some (of_nat p) else find_loop m (next (load_block m (of_nat p))) (of_nat t))"
    using p fits by (subst find_loop.simps) (simp add: hdr header_def)
  then show ?case unfolding nxt IH b using ba by (auto split: option.splits)
qed

lemma last_loop_chain:
  assumes "chain m prv p bs 0" and "sizes_ok bs" and "0 < p" and "p + span bs < 2 ^ 32" and "bs \<noteq> []"
  shows "last_loop m (of_nat p) = Some (of_nat (last_addr prv p bs))"
  using assms
proof (induction bs arbitrary: prv p)
  case (Cons b bs)
  obtain sz u where b: "b = (sz, u)" by (cases b)
  have hdr: "load_block m (of_nat p) = header sz u prv (if bs = [] then 0 else p + sz)"
    using Cons.prems(1) b by simp
  show ?case
  proof (cases "bs = []")
    case True
    then show ?thesis by (subst last_loop.simps) (simp add: hdr header_def b)
  next
    case False
    then have "(of_nat (p + sz) :: u64) \<noteq> 0" using Cons.prems b by (subst of_nat_eq_0_low) auto
    then show ?thesis using Cons.IH [of p "p + sz"] Cons.prems b False
      by (subst last_loop.simps) (simp add: hdr header_def)
  qed
qed simp

lemma integrity_loop_chain:
  assumes "chain m prv p bs 0" and "sizes_ok bs" and "0 < p" and "p + span bs < 2 ^ 32"
  shows "integrity_loop m (if bs = [] then 0 else of_nat p) c = Some (Inr (c + of_nat (length bs)))"
  using assms
proof (induction bs arbitrary: prv p c)
  case Nil
  then show ?case by (simp add: integrity_loop.simps)
next
  case (Cons b bs)
  obtain sz u where b: "b = (sz, u)" by (cases b)
  have p: "(of_nat p :: u64) \<noteq> 0" using Cons.prems by (subst of_nat_eq_0_low) auto
  have hdr: "load_block m (of_nat p) = header sz u prv (if bs = [] then 0 else p + sz)"
    using Cons.prems(1) b by simp
  have "integrity_loop m (if bs = [] then 0 else of_nat (p + sz)) (c + 1) = Some (Inr (c + 1 + of_nat (length bs)))"
    using Cons.IH [of p "p + sz"] Cons.prems b by auto
  then show ?case using p
    by (auto simp: integrity_loop.simps [of m "of_nat p"] hdr header_def algebra_simps split: if_splits)
qed

definition used_span :: "blk list \<Rightarrow> nat" where
  "used_span bs = sum_list (map (\<lambda>(sz, u). if u then sz else 0) bs)"

lemma used_loop_chain:
  assumes "chain m prv p bs 0" and "sizes_ok bs" and "0 < p" and "p + span bs < 2 ^ 32"
  shows "used_loop m (if bs = [] then 0 else of_nat p) c = Some (c + of_nat (used_span bs))"
  using assms
proof (induction bs arbitrary: prv p c)
  case Nil
  then show ?case by (simp add: used_loop.simps used_span_def)
next
  case (Cons b bs)
  obtain sz u where b: "b = (sz, u)" by (cases b)
  have p: "(of_nat p :: u64) \<noteq> 0" using Cons.prems by (subst of_nat_eq_0_low) auto
  have hdr: "load_block m (of_nat p) = header sz u prv (if bs = [] then 0 else p + sz)"
    using Cons.prems(1) b by simp
  have "used_loop m (if bs = [] then 0 else of_nat (p + sz)) d = Some (d + of_nat (used_span bs))" for d
    using Cons.IH [of p "p + sz"] Cons.prems b by auto
  then show ?case using p
    by (auto simp: used_loop.simps [of m "of_nat p"] hdr header_def b used_span_def algebra_simps split: if_splits)
qed

end
