(* ===== verification/HeapProof.thy ===== *)
theory HeapProof
  imports HeapChain PrintfSpec
begin

text \<open>
  The refinement between the heap of \<open>mem/heap.c\<close> and the abstract allocator: the invariant
  \<open>heap_ok\<close> relates the machine to a block list, and each operation, started in a state related
  to \<open>bs\<close>, ends in a state related to the list its abstract counterpart computes.
\<close>

section \<open>Sizes as machine words\<close>

lemma HEAP_ALIGN_of_nat:
  assumes "n + 7 < 2 ^ 64"
  shows "HEAP_ALIGN (of_nat n) = of_nat (align8 n)"
proof -
  let ?x = "of_nat (n + 7) :: u64"
  have "?x AND NOT (mask 3) = push_bit 3 (drop_bit 3 ?x)"
    by (rule bit_word_eqI) (auto simp: bit_simps)
  moreover have "unat (push_bit 3 (drop_bit 3 ?x)) = align8 n"
  proof -
    have "unat (drop_bit 3 ?x) = (n + 7) div 8"
      using assms by (simp add: drop_bit_eq_div unat_div unat_of_nat_small del: of_nat_add)
    moreover have "(n + 7) div 8 * 8 < 2 ^ 64" using assms by (meson div_times_less_eq_dividend le_less_trans)
    ultimately show ?thesis
      by (simp add: push_bit_eq_mult unat_word_ariths align8_def)
  qed
  ultimately show ?thesis
    by (simp add: HEAP_ALIGN_def mask_eq_exp_minus_1 word_unat_eq_iff)
      (metis unat_of_nat_small of_nat_unat unsigned_less)
qed

lemma request_word:
  assumes "unat sz + 39 < 2 ^ 64"
  shows "HEAP_ALIGN (sz + SIZEOF_BLOCK) = of_nat (request (unat sz))"
proof -
  have "sz + SIZEOF_BLOCK = of_nat (unat sz + 32)" by (simp add: SIZEOF_BLOCK_def)
  then show ?thesis using HEAP_ALIGN_of_nat [of "unat sz + 32"] assms by (simp add: request_def)
qed

lemma request_lt: "n + 39 < k \<Longrightarrow> request n < k"
  using align8_bounds(2) [of "n + 32"] by (simp add: request_def)

lemma block_size_diff:
  "t \<le> sz \<Longrightarrow> sz < 2 ^ 32 \<Longrightarrow> ucast (ucast (of_nat sz :: u32) - (of_nat t :: u64)) = (of_nat (sz - t) :: u32)"
proof -
  assume a: "t \<le> sz" "sz < 2 ^ 32"
  then have "ucast (of_nat sz :: u32) - (of_nat t :: u64) = of_nat (sz - t)"
    by (simp add: ucast_of_nat_u32)
  then show ?thesis using a by (simp add: unsigned_of_nat take_bit_nat_eq_self del: of_nat_diff)
qed

section \<open>The invariant\<close>

definition heap_ok :: "'a heap_machine_scheme \<Rightarrow> blk list \<Rightarrow> bool" where
  "heap_ok s bs \<longleftrightarrow> bs \<noteq> [] \<and> sizes_ok bs \<and> span bs \<le> heap_limit \<and>
     chain (mem s) 0 heap_start bs 0 \<and>
     start_address (kernel_heap s) = of_nat heap_start \<and>
     end_address (kernel_heap s) = of_nat (heap_start + span bs) \<and>
     max_address (kernel_heap s) = of_nat (heap_start + heap_limit) \<and>
     first_block (kernel_heap s) = of_nat heap_start \<and>
     total_blocks (kernel_heap s) = of_nat (length bs)"

lemmas heap_bounds = heap_start_def heap_limit_def

lemma heap_okD:
  assumes "heap_ok s bs"
  shows "bs \<noteq> []" "sizes_ok bs" "span bs \<le> heap_limit" "chain (mem s) 0 heap_start bs 0"
    "start_address (kernel_heap s) = of_nat heap_start"
    "end_address (kernel_heap s) = of_nat (heap_start + span bs)"
    "max_address (kernel_heap s) = of_nat (heap_start + heap_limit)"
    "first_block (kernel_heap s) = of_nat heap_start"
    "total_blocks (kernel_heap s) = of_nat (length bs)"
  using assms by (simp_all add: heap_ok_def)

text \<open>Block \<open>i\<close> of a well-formed heap lies between the blocks before and after it.\<close>

lemma chain_split3:
  "chain m prv p (xs @ (sz, u) # ys) nxt \<longleftrightarrow>
    chain m prv p xs (p + span xs) \<and>
    load_block m (of_nat (p + span xs)) = header sz u (last_addr prv p xs) (if ys = [] then nxt else p + span xs + sz) \<and>
    chain m (p + span xs) (p + span xs + sz) ys nxt"
  by (simp add: chain_append)

section \<open>Splitting\<close>

lemma heap_split_block_step:
  assumes "load_block (mem s) (of_nat a) = header sz False prv nx"
    and "HEAP_ALIGN (n + SIZEOF_BLOCK) = of_nat t"
    and "t + 64 \<le> sz" and "32 \<le> t" and "a + sz + 64 \<le> 2 ^ 32" and "nx = 0 \<or> nx = a + sz"
  defines "m7 \<equiv> set_used (of_nat a) 1 (set_bsize (of_nat a) (of_nat t)
      (set_prev (of_nat (a + t)) (of_nat a) (set_next (of_nat (a + t)) (of_nat nx)
      (set_used (of_nat (a + t)) 0 (set_bsize (of_nat (a + t)) (of_nat (sz - t))
      (set_magic (of_nat (a + t)) HEAP_MAGIC (mem s)))))))"
  defines "m8 \<equiv> (if nx = 0 then m7 else set_prev (of_nat nx) (of_nat (a + t)) m7)"
  shows "heap_split_block (of_nat a) n s = (of_nat a,
    s\<lparr>mem := set_next (of_nat a) (of_nat (a + t)) m8,
      kernel_heap := (kernel_heap s)\<lparr>total_blocks := total_blocks (kernel_heap s) + 1\<rparr>\<rparr>)"
proof -
  have lows: "low a" "low (a + t)" "apart (a + t) a" "nx \<noteq> 0 \<Longrightarrow> low nx" "nx \<noteq> 0 \<Longrightarrow> apart nx a"
    using assms by (auto simp: low_def apart_def)
  have nz: "(of_nat nx :: u64) = 0 \<longleftrightarrow> nx = 0" using assms(5,6) by (intro of_nat_eq_0_low) auto
  have big: "\<not> ucast (of_nat sz :: u32) < (of_nat t :: u64) + 64"
    using assms(3,5) of_nat_le_iff_u64 [of "t + 64" sz] by (simp add: ucast_of_nat_u32 not_less)
  have diff: "ucast (ucast (of_nat sz :: u32) - (of_nat t :: u64)) = (of_nat (sz - t) :: u32)"
    using assms(3,5) by (intro block_size_diff) auto
  have tt: "ucast (of_nat t :: u64) = (of_nat t :: u32)"
    using assms(3,5) by (simp add: unsigned_of_nat take_bit_nat_eq_self)
  have new: "of_nat a + of_nat t = (of_nat (a + t) :: u64)" by simp
  show ?thesis
    using assms(1) lows big
    unfolding heap_split_block_def Let_def assms(2) new
    by (simp add: header_def m7_def m8_def diff tt nz del: of_nat_add of_nat_diff)
qed

lemma split_chain:
  assumes ch: "chain m prv p (xs @ (sz, False) # ys) 0" and ok: "sizes_ok (xs @ (sz, False) # ys)"
    and t: "40 \<le> t" "t + 64 \<le> sz" and top: "p + span (xs @ (sz, False) # ys) + 64 \<le> 2 ^ 32"
  defines "a \<equiv> p + span xs"
  defines "nx \<equiv> (if ys = [] then 0 else a + sz)"
  defines "m7 \<equiv> set_used (of_nat a) 1 (set_bsize (of_nat a) (of_nat t)
      (set_prev (of_nat (a + t)) (of_nat a) (set_next (of_nat (a + t)) (of_nat nx)
      (set_used (of_nat (a + t)) 0 (set_bsize (of_nat (a + t)) (of_nat (sz - t))
      (set_magic (of_nat (a + t)) HEAP_MAGIC m))))))"
  defines "m8 \<equiv> (if nx = 0 then m7 else set_prev (of_nat nx) (of_nat (a + t)) m7)"
  defines "m9 \<equiv> set_next (of_nat a) (of_nat (a + t)) m8"
  assumes pos: "0 < p"
  shows "chain m9 prv p (xs @ (t, True) # (sz - t, False) # ys) 0"
    and "headers_only ({a, a + t} \<union> (if ys = [] then {} else {a + sz})) m m9"
proof -
  let ?n = "if ys = [] then {} else {a + sz}"
  have nx: "nx = 0 \<longleftrightarrow> ys = []" using pos by (simp add: nx_def a_def)
  have h7: "headers_only {a, a + t} m m7" unfolding m7_def by (intro headers_only_set headers_only_refl) simp_all
  then have h7': "headers_only ({a, a + t} \<union> ?n) m m7" by (rule headers_only_mono) blast
  then have h8: "headers_only ({a, a + t} \<union> ?n) m m8"
    unfolding m8_def nx using headers_only_set(5) [OF h7', of "a + sz"]
    by (cases "ys = []") (simp_all add: nx_def del: of_nat_add)
  then show h9: "headers_only ({a, a + t} \<union> ?n) m m9"
    unfolding m9_def by (intro headers_only_set) simp_all
  have bnd: "a + sz + span ys + 64 \<le> 2 ^ 32" using top by (simp add: a_def)
  have ysz: "ys \<noteq> [] \<Longrightarrow> 40 \<le> span ys" using ok sizes_ok_span [of ys] by (cases ys) auto
  have lows: "low a" "low (a + t)" "apart a (a + t)" "apart (a + t) a"
    "ys \<noteq> [] \<Longrightarrow> low nx \<and> apart nx a \<and> apart nx (a + t)"
    using t bnd by (auto simp: low_def apart_def nx_def)
  have c: "chain m prv p xs a" "load_block m (of_nat a) = header sz False (last_addr prv p xs) nx"
    "chain m a (a + sz) ys 0"
    using ch unfolding chain_split3 by (simp_all add: a_def nx_def)
  have "chain m9 prv p xs a"
    using c(1) ok bnd lows by (subst chain_headers_only [OF h9]) (auto simp: a_def low_def nx_def)
  moreover have "load_block m9 (of_nat a) = header t True (last_addr prv p xs) (a + t)"
    using c(2) lows by (cases "ys = []") (simp_all add: m9_def m8_def nx m7_def header_def del: of_nat_add)
  moreover have "load_block m9 (of_nat (a + t)) = header (sz - t) False a nx"
    using lows by (cases "ys = []")
      (simp_all add: m9_def m8_def nx m7_def header_def del: of_nat_add of_nat_diff)
  moreover have "chain m9 (a + t) (a + sz) ys 0"
  proof (cases "ys = []")
    case False
    then have m8: "m8 = set_prev (of_nat (a + sz)) (of_nat (a + t)) m7" using pos by (simp add: m8_def nx_def a_def)
    have "chain m7 a (a + sz) ys 0"
      using c(3) ok bnd lows t by (subst chain_headers_only [OF h7]) (auto simp: low_def)
    then have "chain m8 (a + t) (a + sz) ys 0"
      unfolding m8 using ok bnd False by (intro chain_set_prev) auto
    moreover have "headers_only {a} m8 m9" unfolding m9_def by (intro headers_only_set) simp_all
    ultimately show ?thesis
      using ok bnd lows t by (subst chain_headers_only [of "{a}" m8]) (auto simp: low_def)
  qed simp
  ultimately show "chain m9 prv p (xs @ (t, True) # (sz - t, False) # ys) 0"
    using t by (simp add: chain_append a_def [symmetric] nx_def)
qed

text \<open>
  What an operation may change: the headers at the addresses \<open>Q\<close>, the console, and the heap
  descriptor; nothing else of the machine.
\<close>

definition heap_step :: "nat set \<Rightarrow> 'a heap_machine_scheme \<Rightarrow> 'a heap_machine_scheme \<Rightarrow> bool" where
  "heap_step Q s s' \<longleftrightarrow>
     (\<forall>x. x \<notin> video_window \<longrightarrow> (\<forall>q \<in> Q. x \<notin> region (of_nat q) 32) \<longrightarrow> mem s' x = mem s x) \<and>
     bus s' = bus s \<and> cr0 s' = cr0 s \<and> cr3 s' = cr3 s \<and> cr4 s' = cr4 s \<and> msrs s' = msrs s \<and>
     iflag s' = iflag s \<and> heap_machine.more s' = heap_machine.more s"

lemma heap_step_refl [simp]: "heap_step Q s s"
  by (simp add: heap_step_def)

lemma heap_step_trans [trans]: "heap_step Q s s' \<Longrightarrow> heap_step Q s' s'' \<Longrightarrow> heap_step Q s s''"
  by (simp add: heap_step_def)

lemma heap_step_mono: "heap_step Q s s' \<Longrightarrow> Q \<subseteq> Q' \<Longrightarrow> heap_step Q' s s'"
  unfolding heap_step_def by blast

lemma heap_step_update:
  "headers_only Q (mem s) m \<Longrightarrow> heap_step Q s (s\<lparr>mem := m, kernel_heap := h\<rparr>)"
  by (simp add: heap_step_def headers_only_def)

lemma block_decomp:
  assumes "i < length bs"
  obtains xs sz u ys where "bs = xs @ (sz, u) # ys" and "length xs = i" and "bs ! i = (sz, u)"
    and "baddr p bs i = p + span xs"
proof -
  obtain sz u where b: "bs ! i = (sz, u)" by (cases "bs ! i")
  show ?thesis
    using that [of "take i bs" sz u "drop (Suc i) bs"] split_nth [OF assms] assms b
    by (simp add: baddr_def)
qed

lemma heap_split_ok:
  assumes ok: "heap_ok s bs" and i: "i < length bs" "\<not> snd (bs ! i)" "request (unat n) \<le> fst (bs ! i)"
    and n: "0 < unat n" "unat n + 39 < 2 ^ 64"
  defines "a \<equiv> baddr heap_start bs i" and "bs' \<equiv> asplit i (request (unat n)) bs"
  shows "\<exists>s'. heap_split_block (of_nat a) n s = (of_nat a, s') \<and> heap_ok s' bs' \<and>
    heap_step (addrs heap_start bs') s s' \<and>
    used_blocks (kernel_heap s') = used_blocks (kernel_heap s)"
proof -
  let ?t = "request (unat n)"
  obtain xs sz u ys where bs: "bs = xs @ (sz, u) # ys" and len: "length xs = i"
    and bi: "bs ! i = (sz, u)" and a: "a = heap_start + span xs"
    using block_decomp [OF i(1), where p = heap_start] unfolding a_def by metis
  note okD = heap_okD [OF ok]
  have t: "40 \<le> ?t" "?t mod 8 = 0" using n request_bounds [of "unat n"] by auto
  have word: "HEAP_ALIGN (n + SIZEOF_BLOCK) = of_nat ?t" using n(2) by (rule request_word)
  have top: "heap_start + span bs + 64 \<le> 2 ^ 32" using okD(3) by (simp add: heap_bounds)
  have hdr: "load_block (mem s) (of_nat a) = header sz False (last_addr 0 heap_start xs) (if ys = [] then 0 else a + sz)"
    using okD(4) i(2) bi unfolding bs chain_split3 by (simp add: a)
  have fin: "a + sz + span ys = heap_start + span bs" by (simp add: a bs)
  show ?thesis
  proof (cases "sz < ?t + 64")
    case True
    have "(of_nat sz :: u64) < of_nat ?t + 64"
      using True i(3) bi top of_nat_le_iff_u64 [of "?t + 64" sz] by (simp add: not_le [symmetric] bs)
    then have "heap_split_block (of_nat a) n s = (of_nat a, s)"
      unfolding heap_split_block_def Let_def word hdr using top
      by (simp add: header_def ucast_of_nat_u32 bs)
    moreover have "bs' = bs" using True bi by (simp add: bs'_def asplit_def)
    ultimately show ?thesis using ok by simp
  next
    case False
    have bs': "bs' = xs @ (?t, True) # (sz - ?t, False) # ys"
      using False bi len by (simp add: bs'_def asplit_def bs)
    have t32: "32 \<le> ?t" using t(1) by linarith
    have nx: "(if ys = [] then 0 else a + sz) = 0 \<or> (if ys = [] then 0 else a + sz) = a + sz" by simp
    have le: "a + sz + 64 \<le> 2 ^ 32" "?t + 64 \<le> sz" using fin top False by simp_all
    have u: "u = False" using i(2) bi by simp
    note chain = split_chain [OF okD(4) [unfolded bs u] okD(2) [unfolded bs u] t(1) le(2) top [unfolded bs u],
        folded a]
    have pos: "0 < heap_start" by (simp add: heap_start_def)
    have sizes: "sizes_ok bs'" "span bs' = span bs"
      using asplit_sizes [OF okD(2) i(1) t] by (simp_all add: bs'_def)
    have sub: "{a, a + ?t} \<union> (if ys = [] then {} else {a + sz}) \<subseteq> addrs heap_start bs'"
      using False by (cases ys) (auto simp: bs' addrs_append a)
    obtain m h where step: "heap_split_block (of_nat a) n s = (of_nat a, s\<lparr>mem := m, kernel_heap := h\<rparr>)"
      and h: "h = (kernel_heap s)\<lparr>total_blocks := total_blocks (kernel_heap s) + 1\<rparr>"
      and m: "chain m 0 heap_start bs' 0" "headers_only ({a, a + ?t} \<union> (if ys = [] then {} else {a + sz})) (mem s) m"
      using heap_split_block_step [OF hdr word le(2) t32 le(1) nx] chain [OF pos] unfolding bs' by blast
    have "heap_step (addrs heap_start bs') s (s\<lparr>mem := m, kernel_heap := h\<rparr>)"
      by (rule heap_step_update [OF headers_only_mono [OF m(2) sub]])
    moreover have "heap_ok (s\<lparr>mem := m, kernel_heap := h\<rparr>) bs'"
      using m(1) sizes okD by (auto simp: heap_ok_def h bs' bs)
    ultimately show ?thesis using step h by auto
  qed
qed

section \<open>Growing the heap\<close>

lemma expand_chain:
  fixes es :: nat
  assumes ch: "chain m prv p bs 0" and ok: "sizes_ok bs" and ne: "bs \<noteq> []" and pos: "0 < p"
    and top: "p + span bs + 64 \<le> 2 ^ 32"
  defines "e \<equiv> p + span bs" and "l \<equiv> last_addr prv p bs"
  defines "m4 \<equiv> set_next (of_nat e) 0 (set_used (of_nat e) 0 (set_bsize (of_nat e) (of_nat es)
      (set_magic (of_nat e) HEAP_MAGIC m)))"
  defines "m6 \<equiv> set_prev (of_nat e) (of_nat l) (set_next (of_nat l) (of_nat e) m4)"
  shows "last_loop m4 (of_nat p) = Some (of_nat l)"
    and "chain m6 prv p (bs @ [(es, False)]) 0"
    and "headers_only {e, l} m m6" and "l \<in> addrs p bs"
proof -
  obtain zs lz lu where bs: "bs = zs @ [(lz, lu)]" using ne by (metis rev_exhaust surj_pair)
  have l: "l = p + span zs" by (simp add: l_def bs)
  have le: "l + lz = e" "40 \<le> lz" using ok by (simp_all add: l e_def bs)
  have lows: "low e" "low l" "apart e l" "apart l e"
    using le top by (auto simp: low_def apart_def e_def)
  have h4: "headers_only {e} m m4" unfolding m4_def by (intro headers_only_set headers_only_refl) simp_all
  then have h4': "headers_only {e, l} m m4" by (rule headers_only_mono) blast
  then show h6: "headers_only {e, l} m m6" unfolding m6_def by (intro headers_only_set) simp_all
  have ch4: "chain m4 prv p bs 0"
    using ch ok top lows by (subst chain_headers_only [OF h4]) (auto simp: e_def)
  then show "last_loop m4 (of_nat p) = Some (of_nat l)"
    unfolding l_def using ok pos top ne by (intro last_loop_chain) auto
  have c: "chain m prv p zs l" "load_block m (of_nat l) = header lz lu (last_addr prv p zs) 0"
    using ch unfolding bs chain_split3 by (simp_all add: l)
  have "chain m6 prv p zs l"
    using c(1) ok top lows le by (subst chain_headers_only [OF h6]) (auto simp: l e_def bs)
  moreover have "load_block m6 (of_nat l) = header lz lu (last_addr prv p zs) e"
    using c(2) lows by (simp add: m6_def m4_def header_def)
  moreover have "load_block m6 (of_nat e) = header es False l 0"
    using lows by (simp add: m6_def m4_def header_def)
  ultimately show "chain m6 prv p (bs @ [(es, False)]) 0"
    using le by (simp add: bs chain_append l [symmetric])
  show "l \<in> addrs p bs" by (simp add: bs addrs_append l)
qed

text \<open>The console does not reach the heap area, and the heap does not reach the console.\<close>

lemma con_frame_load_block:
  assumes "con_frame s s'" and "heap_start \<le> q" and "low q"
  shows "load_block (mem s') (of_nat q) = load_block (mem s) (of_nat q)"
proof (rule load_block_cong)
  have "region (of_nat q) 32 \<inter> video_window = {}"
    using region_of_nat_disjoint [of "0xb8000" 65537 q 32] assms(2,3)
    by (auto simp: video_window_def VIDEO_ADDRESS_def low_def heap_start_def)
  then show "agree_on (region (of_nat q) 32) (mem s) (mem s')"
    using con_frame_mem [OF assms(1)] by (auto simp: agree_on_def)
qed

lemma con_frame_kernel_heap: "con_frame s s' \<Longrightarrow> kernel_heap s' = kernel_heap s"
  by (cases s; cases s') (simp add: con_frame_def)

lemma con_frame_chain:
  assumes "con_frame s s'" and "sizes_ok bs" and "heap_start \<le> p" and "p + span bs \<le> 2 ^ 32"
  shows "chain (mem s') prv p bs nxt = chain (mem s) prv p bs nxt"
proof (rule chain_cong)
  fix q
  assume "q \<in> addrs p bs"
  with addrs_range assms(2) have "p \<le> q" "q + 40 \<le> p + span bs" by blast+
  then show "load_block (mem s') (of_nat q) = load_block (mem s) (of_nat q)"
    using assms by (intro con_frame_load_block) (auto simp: low_def)
qed

lemma con_frame_heap_ok: "con_frame s s' \<Longrightarrow> heap_ok s bs \<Longrightarrow> heap_ok s' bs"
  using con_frame_chain [of s s' bs heap_start 0 0] con_frame_kernel_heap [of s s']
  by (auto simp: heap_ok_def heap_bounds)

lemma con_frame_heap_step: "con_frame s s' \<Longrightarrow> heap_step Q s s'"
  by (cases s; cases s') (auto simp: con_frame_def heap_step_def agree_on_def)

text \<open>The messages of the heap always print.\<close>

lemma heap_messages:
  "\<exists>s'. kprintf ''heap initialized: start=0x%llx, end=0x%llx\<newline>'' ap s = Some s'"
  "\<exists>s'. kprintf ''heap expansion failed: would exceed max size\<newline>'' ap s = Some s'"
  "\<exists>s'. kprintf ''heap expanded by %zu bytes, new end: 0x%llx\<newline>'' ap s = Some s'"
  "\<exists>s'. kprintf ''kmalloc failed: out of memory (requested %zu bytes)\<newline>'' ap s = Some s'"
  "\<exists>s'. kprintf ''kmfree: invalid block magic number\<newline>'' ap s = Some s'"
  "\<exists>s'. kprintf ''kmfree: double free detected\<newline>'' ap s = Some s'"
  by (simp_all add: kprintf_def parse_directive_l parse_directive_plain is_digit_def convert_def)

text \<open>A message leaves the heap as it is.\<close>

lemma heap_print_ok:
  assumes "kprintf fmt ap s = Some s'" and "heap_ok s bs"
  shows "heap_ok s' bs" and "heap_step Q s s'" and "kernel_heap s' = kernel_heap s"
  using con_frame_kprintf [OF assms(1)] assms(2)
  by (auto intro: con_frame_heap_ok con_frame_heap_step con_frame_kernel_heap)

lemma HEAP_BLOCK_max:
  assumes "unat n + 7 < 2 ^ 64"
  shows "(if HEAP_ALIGN n < HEAP_BLOCK_SIZE then HEAP_BLOCK_SIZE else HEAP_ALIGN n)
    = of_nat (max 0x1000 (align8 (unat n)))"
proof -
  have b: "align8 (unat n) < 2 ^ 64" using align8_bounds(2) [of "unat n"] assms by linarith
  have "HEAP_ALIGN n = of_nat (align8 (unat n))" using HEAP_ALIGN_of_nat [OF assms] by simp
  moreover have "(of_nat (align8 (unat n)) :: u64) < 0x1000 \<longleftrightarrow> align8 (unat n) < 0x1000"
    using b by (simp add: word_less_unat unat_of_nat_small)
  ultimately show ?thesis by (auto simp: HEAP_BLOCK_SIZE_def max_def)
qed

lemma heap_expand_ok:
  assumes ok: "heap_ok s bs" and n: "unat n < 2 ^ 63"
  defines "bs' \<equiv> aexpand (unat n) bs"
  shows "\<exists>s'. heap_expand_heap n s = Some s' \<and> heap_ok s' bs' \<and> heap_step (addrs heap_start bs') s s' \<and>
    used_blocks (kernel_heap s') = used_blocks (kernel_heap s)"
proof -
  note okD = heap_okD [OF ok]
  let ?es = "max 0x1000 (align8 (unat n))"
  let ?e = "heap_start + span bs"
  have es: "?es < 2 ^ 63 + 8" using n align8_bounds(2) [of "unat n"] by auto
  have word: "(if HEAP_ALIGN n < HEAP_BLOCK_SIZE then HEAP_BLOCK_SIZE else HEAP_ALIGN n) = of_nat ?es"
    using n by (intro HEAP_BLOCK_max) simp
  have test: "max_address (kernel_heap s) < end_address (kernel_heap s) + of_nat ?es \<longleftrightarrow>
      heap_limit < span bs + ?es"
  proof -
    have "max_address (kernel_heap s) < of_nat (?e + ?es) \<longleftrightarrow> heap_start + heap_limit < ?e + ?es"
      using okD(3,7) es of_nat_le_iff_u64 [of "?e + ?es" "heap_start + heap_limit"]
      by (simp add: heap_bounds not_le [symmetric] del: of_nat_add)
    then show ?thesis using okD(6) by simp
  qed
  show ?thesis
  proof (cases "heap_limit < span bs + ?es")
    case True
    obtain s' where s': "kprintf ''heap expansion failed: would exceed max size\<newline>'' [] s = Some s'"
      using heap_messages(2) by blast
    have "heap_expand_heap n s = Some s'"
      unfolding heap_expand_heap_def Let_def word test using True s' by simp
    moreover have "bs' = bs" using True by (simp add: bs'_def aexpand_def)
    ultimately show ?thesis using heap_print_ok [OF s' ok] by auto
  next
    case False
    have bs': "bs' = bs @ [(?es, False)]" using False by (simp add: bs'_def aexpand_def)
    have top: "heap_start + span bs + 64 \<le> 2 ^ 32" using okD(3) by (simp add: heap_bounds)
    have pos: "0 < heap_start" by (simp add: heap_start_def)
    note chain = expand_chain(1-3) [OF okD(4,2,1) pos top, where es = ?es]
    have es32: "ucast (of_nat ?es :: u64) = (of_nat ?es :: u32)"
      using es by (simp add: unsigned_of_nat take_bit_nat_eq_self)
    let ?l = "last_addr 0 heap_start bs"
    have nt: "\<not> max_address (kernel_heap s) < of_nat ?e + of_nat ?es"
      using test False unfolding okD(6) by (simp del: of_nat_add)
    obtain m where m: "chain m 0 heap_start bs' 0" "headers_only {?e, ?l} (mem s) m"
      and eq: "heap_expand_heap n s = kprintf ''heap expanded by %zu bytes, new end: 0x%llx\<newline>''
        [of_nat ?es, of_nat ?e + of_nat ?es] (s\<lparr>mem := m, kernel_heap := (kernel_heap s)
          \<lparr>end_address := of_nat ?e + of_nat ?es, total_blocks := total_blocks (kernel_heap s) + 1\<rparr>\<rparr>)"
      using chain unfolding heap_expand_heap_def Let_def word if_not_P [OF nt] es32 okD(6,8) bs'
      by (simp del: of_nat_add)
    let ?s = "s\<lparr>mem := m, kernel_heap := (kernel_heap s)
          \<lparr>end_address := of_nat ?e + of_nat ?es, total_blocks := total_blocks (kernel_heap s) + 1\<rparr>\<rparr>"
    obtain s' where s': "kprintf ''heap expanded by %zu bytes, new end: 0x%llx\<newline>''
        [of_nat ?es, of_nat ?e + of_nat ?es] ?s = Some s'"
      using heap_messages(3) by blast
    have "heap_ok ?s bs'"
      using m(1) okD False by (auto simp: heap_ok_def bs' max_def)
    note pr = heap_print_ok [OF s' this]
    have "{?e, ?l} \<subseteq> addrs heap_start bs'" using expand_chain(4) [OF okD(4,2,1) pos top] by (auto simp: bs' addrs_append)
    then have "heap_step (addrs heap_start bs') s ?s"
      using m(2) by (intro heap_step_update) (rule headers_only_mono)
    then show ?thesis using pr eq s' by (auto intro: heap_step_trans)
  qed
qed

section \<open>Initialisation and allocation\<close>

lemma heap_init_ok:
  "\<exists>s'. heap_init s = Some s' \<and> heap_ok s' [(0x100000, False)] \<and> used_blocks (kernel_heap s') = 0 \<and>
    heap_step {heap_start} s s'"
proof -
  let ?h = "\<lparr>start_address = 0x1000000, end_address = 0x1100000, max_address = 0x11000000,
      first_block = 0x1000000, total_blocks = 1, used_blocks = 0\<rparr> :: heap_t"
  let ?m = "set_prev (of_nat heap_start) 0 (set_next (of_nat heap_start) 0 (set_used (of_nat heap_start) 0
      (set_bsize (of_nat heap_start) 0x100000 (set_magic (of_nat heap_start) HEAP_MAGIC (mem s)))))"
  let ?s = "s\<lparr>mem := ?m, kernel_heap := ?h\<rparr>"
  obtain s' where s': "kprintf ''heap initialized: start=0x%llx, end=0x%llx\<newline>'' [0x1000000, 0x1100000] ?s = Some s'"
    using heap_messages(1) by blast
  have "heap_init s = Some s'"
    using s' by (simp add: heap_init_def Let_def HEAP_START_ADDRESS_def HEAP_INITIAL_SIZE_def
        HEAP_MAX_SIZE_def heap_start_def)
  moreover have ok: "heap_ok ?s [(0x100000, False)]"
    by (simp add: heap_ok_def heap_bounds header_def)
  moreover have "heap_step {heap_start} s ?s"
    by (intro heap_step_update headers_only_set headers_only_refl) simp_all
  ultimately show ?thesis
    using heap_print_ok [OF s' ok] by (auto intro: heap_step_trans)
qed

lemma heap_find_ok:
  assumes "heap_ok s bs" and "unat n + 39 < 2 ^ 64"
  shows "heap_find_free_block n s = Some (case afind (request (unat n)) bs of
      None \<Rightarrow> 0 | Some i \<Rightarrow> of_nat (baddr heap_start bs i))"
proof -
  note okD = heap_okD [OF assms(1)]
  have "find_loop (mem s) (if bs = [] then 0 else of_nat heap_start) (of_nat (request (unat n))) =
      Some (case afind (request (unat n)) bs of None \<Rightarrow> 0 | Some i \<Rightarrow> of_nat (baddr heap_start bs i))"
    using okD(3) request_lt [OF assms(2)] by (intro find_loop_chain [OF okD(4,2)]) (auto simp: heap_bounds)
  then show ?thesis
    unfolding heap_find_free_block_def Let_def request_word [OF assms(2)] okD(8) using okD(1) by simp
qed

lemma baddr_nonzero:
  assumes "heap_ok s bs" and "i < length bs"
  shows "(of_nat (baddr heap_start bs i) :: u64) \<noteq> 0"
proof -
  have "baddr heap_start bs i \<le> heap_start + span bs" using block_fits [OF assms(2)] by (meson le_add1 order_trans)
  then have "baddr heap_start bs i < 2 ^ 64" using heap_okD(3) [OF assms(1)] by (simp add: heap_bounds)
  moreover have "0 < baddr heap_start bs i" by (simp add: baddr_def heap_start_def)
  ultimately show ?thesis by (simp add: of_nat_eq_0_low)
qed

lemma baddr_asplit: "i < length bs \<Longrightarrow> j \<le> i \<Longrightarrow> baddr p (asplit i t bs) j = baddr p bs j"
  by (simp add: asplit_def baddr_def min_def)

lemma addrs_asplit: "i < length bs \<Longrightarrow> t \<le> fst (bs ! i) \<Longrightarrow> addrs p bs \<subseteq> addrs p (asplit i t bs)"
proof -
  assume i: "i < length bs" and t: "t \<le> fst (bs ! i)"
  obtain xs sz u ys where bs: "bs = xs @ (sz, u) # ys" "length xs = i" "bs ! i = (sz, u)"
    using block_decomp [OF i] by metis
  then show ?thesis using t by (auto simp: asplit_def addrs_append add.assoc)
qed

lemma addrs_aexpand: "addrs p bs \<subseteq> addrs p (aexpand n bs)"
  by (auto simp: aexpand_def Let_def addrs_append)

text \<open>The last steps of a successful \<open>kmalloc\<close>: split the block and count it.\<close>

lemma kmalloc_take:
  assumes ok: "heap_ok s bs" and f: "afind (request (unat n)) bs = Some i"
    and n: "n \<noteq> 0" "unat n < 2 ^ 63"
  defines "bs' \<equiv> asplit i (request (unat n)) bs"
  shows "\<exists>s'. (let (block, s) = heap_split_block (of_nat (baddr heap_start bs i)) n s;
        h = kernel_heap s; s = s\<lparr>kernel_heap := h\<lparr>used_blocks := used_blocks h + 1\<rparr>\<rparr>
      in Some (block + SIZEOF_BLOCK, s)) = Some (of_nat (baddr heap_start bs' i + 32), s') \<and>
    heap_ok s' bs' \<and> heap_step (addrs heap_start bs') s s' \<and>
    used_blocks (kernel_heap s') = used_blocks (kernel_heap s) + 1"
proof -
  have i: "i < length bs" "\<not> snd (bs ! i)" "request (unat n) \<le> fst (bs ! i)"
    using afind_Some [OF f] by auto
  have n': "0 < unat n" "unat n + 39 < 2 ^ 64" using n unat_pos_64 by auto
  obtain s1 where s1: "heap_split_block (of_nat (baddr heap_start bs i)) n s = (of_nat (baddr heap_start bs i), s1)"
    "heap_ok s1 bs'" "heap_step (addrs heap_start bs') s s1"
    "used_blocks (kernel_heap s1) = used_blocks (kernel_heap s)"
    using heap_split_ok [OF ok i n'] unfolding bs'_def by blast
  let ?s = "s1\<lparr>kernel_heap := (kernel_heap s1)\<lparr>used_blocks := used_blocks (kernel_heap s1) + 1\<rparr>\<rparr>"
  have "heap_ok ?s bs'" using s1(2) by (simp add: heap_ok_def)
  moreover have "heap_step (addrs heap_start bs') s ?s" using s1(3) by (simp add: heap_step_def)
  moreover have "baddr heap_start bs' i = baddr heap_start bs i"
    using i(1) by (simp add: bs'_def baddr_asplit)
  ultimately show ?thesis using s1(1,4) by (simp add: SIZEOF_BLOCK_def add.commute)
qed

text \<open>\<open>kmalloc\<close> as a whole, success and failure.\<close>

lemma kmalloc_ok:
  assumes ok: "heap_ok s bs" and n: "unat n < 2 ^ 63" and a: "amalloc (unat n) bs = (r, bs')"
  shows "\<exists>p s'. kmalloc n s = Some (p, s') \<and> heap_ok s' bs' \<and> heap_step (addrs heap_start bs') s s' \<and>
    (case r of None \<Rightarrow> p = 0 \<and> used_blocks (kernel_heap s') = used_blocks (kernel_heap s)
     | Some i \<Rightarrow> p = of_nat (baddr heap_start bs' i + 32) \<and>
         used_blocks (kernel_heap s') = used_blocks (kernel_heap s) + 1)"
proof (cases "n = 0")
  case True
  then show ?thesis using a ok by (auto simp: kmalloc_def amalloc_def)
next
  case n0: False
  let ?t = "request (unat n)"
  have un: "unat n \<noteq> 0" using n0 by (simp add: unat_eq_0)
  have n39: "unat n + 39 < 2 ^ 64" using n by simp
  show ?thesis
  proof (cases "afind ?t bs")
    case (Some i)
    have bs': "r = Some i" "bs' = asplit i ?t bs" using a un Some by (simp_all add: amalloc_def)
    note find = heap_find_ok [OF ok n39, unfolded Some option.case]
    have nz: "(of_nat (baddr heap_start bs i) :: u64) \<noteq> 0"
      using baddr_nonzero [OF ok] afind_Some [OF Some] by blast
    show ?thesis using kmalloc_take [OF ok Some n0 n] nz n0 bs' by (simp add: kmalloc_def find)
  next
    case None
    note find = heap_find_ok [OF ok n39, unfolded None option.case]
    let ?bs1 = "aexpand (unat n) bs"
    obtain s1 where s1: "heap_expand_heap n s = Some s1" "heap_ok s1 ?bs1"
      "heap_step (addrs heap_start ?bs1) s s1" "used_blocks (kernel_heap s1) = used_blocks (kernel_heap s)"
      using heap_expand_ok [OF ok n] by blast
    show ?thesis
    proof (cases "afind ?t ?bs1")
      case (Some i)
      have bs': "r = Some i" "bs' = asplit i ?t ?bs1" using a un None Some by (simp_all add: amalloc_def)
      note find1 = heap_find_ok [OF s1(2) n39, unfolded Some option.case]
      have i: "i < length ?bs1" "?t \<le> fst (?bs1 ! i)" using afind_Some [OF Some] by auto
      have nz: "(of_nat (baddr heap_start ?bs1 i) :: u64) \<noteq> 0" using baddr_nonzero [OF s1(2) i(1)] .
      obtain s' where s': "kmalloc n s = Some (of_nat (baddr heap_start bs' i + 32), s')" "heap_ok s' bs'"
        "heap_step (addrs heap_start bs') s1 s'" "used_blocks (kernel_heap s') = used_blocks (kernel_heap s1) + 1"
        using kmalloc_take [OF s1(2) Some n0 n] nz n0 bs' by (auto simp: kmalloc_def find find1 s1(1))
      have "heap_step (addrs heap_start bs') s s1"
        unfolding bs'(2) by (rule heap_step_mono [OF s1(3) addrs_asplit [OF i]])
      then show ?thesis using s' s1(4) bs'(1) by (auto intro: heap_step_trans)
    next
      case none: None
      have bs': "r = None" "bs' = ?bs1" using a un None none by (simp_all add: amalloc_def)
      note find1 = heap_find_ok [OF s1(2) n39, unfolded none option.case]
      obtain s' where s': "kprintf ''kmalloc failed: out of memory (requested %zu bytes)\<newline>'' [n] s1 = Some s'"
        using heap_messages(4) by blast
      then have "kmalloc n s = Some (0, s')" using n0 by (simp add: kmalloc_def find find1 s1(1))
      then show ?thesis using heap_print_ok [OF s' s1(2)] s1(3,4) bs' by (auto intro: heap_step_trans)
    qed
  qed
qed

end
