(* ===== verification/HeapFree.thy ===== *)
theory HeapFree
  imports HeapProof
begin

text \<open>
  Freeing: joining two neighbours in memory, \<open>heap_merge_adjacent_blocks\<close> and \<open>kmfree\<close> against the
  abstract \<open>ajoin\<close>, \<open>amerge\<close> and \<open>afree\<close>, the error paths of \<open>kmfree\<close>, and the diagnostics.
\<close>

section \<open>Joining two neighbours\<close>

text \<open>The stores with which both halves of the merge absorb the block after \<open>a\<close>: \<open>t\<close> is the new
  size and \<open>nx\<close> the new successor.\<close>

definition join_mem :: "nat \<Rightarrow> nat \<Rightarrow> nat \<Rightarrow> memory \<Rightarrow> memory" where
  "join_mem a t nx m =
    (let m = set_next (of_nat a) (of_nat nx) (set_bsize (of_nat a) (of_nat t) m)
     in if nx = 0 then m else set_prev (of_nat nx) (of_nat a) m)"

lemma join_chain:
  assumes ch: "chain m prv p (xs @ (sz, u) # (sz', u') # ys) 0"
    and ok: "sizes_ok (xs @ (sz, u) # (sz', u') # ys)"
    and top: "p + span (xs @ (sz, u) # (sz', u') # ys) + 64 \<le> 2 ^ 32" and pos: "0 < p"
  defines "a \<equiv> p + span xs"
  defines "nx \<equiv> (if ys = [] then 0 else a + sz + sz')"
  shows "chain (join_mem a (sz + sz') nx m) prv p (xs @ (sz + sz', u) # ys) 0"
    and "headers_only ({a} \<union> (if ys = [] then {} else {nx})) m (join_mem a (sz + sz') nx m)"
proof -
  let ?m2 = "set_next (of_nat a) (of_nat nx) (set_bsize (of_nat a) (of_nat (sz + sz')) m)"
  let ?m = "join_mem a (sz + sz') nx m"
  let ?Q = "{a} \<union> (if ys = [] then {} else {nx})"
  have nx: "nx = 0 \<longleftrightarrow> ys = []" using pos by (simp add: nx_def a_def)
  have h2: "headers_only {a} m ?m2" by (intro headers_only_set headers_only_refl) simp_all
  then have h2': "headers_only ?Q m ?m2" by (rule headers_only_mono) blast
  show h: "headers_only ?Q m ?m"
    using headers_only_set(5) [OF h2', of nx] h2' nx by (auto simp: join_mem_def)
  have bnd: "a + sz + sz' + span ys + 64 \<le> 2 ^ 32" using top by (simp add: a_def)
  have szs: "40 \<le> sz" "40 \<le> sz'" using ok by simp_all
  have lows: "low a" "ys \<noteq> [] \<Longrightarrow> low nx \<and> apart nx a" "ys \<noteq> [] \<Longrightarrow> apart a nx"
    using szs bnd by (auto simp: low_def apart_def nx_def)
  have c: "chain m prv p xs a" "load_block m (of_nat a) = header sz u (last_addr prv p xs) (a + sz)"
    "chain m (a + sz) (a + sz + sz') ys 0"
    using ch unfolding chain_split3 by (simp_all add: a_def)
  have "chain ?m prv p xs a"
    using c(1) ok bnd lows szs by (subst chain_headers_only [OF h]) (auto simp: a_def low_def nx_def)
  moreover have "load_block ?m (of_nat a) = header (sz + sz') u (last_addr prv p xs) nx"
    using c(2) lows nx by (cases "ys = []") (simp_all add: join_mem_def header_def del: of_nat_add)
  moreover have "chain ?m a (a + sz + sz') ys 0"
  proof (cases "ys = []")
    case False
    have "chain ?m2 (a + sz) (a + sz + sz') ys 0"
      using c(3) ok bnd lows szs by (subst chain_headers_only [OF h2]) (auto simp: low_def)
    then have "chain (set_prev (of_nat nx) (of_nat a) ?m2) a nx ys 0"
      unfolding nx_def using ok bnd False by (simp add: chain_set_prev del: of_nat_add)
    then show ?thesis using False nx by (simp add: join_mem_def) (simp add: nx_def)
  qed simp
  ultimately show "chain ?m prv p (xs @ (sz + sz', u) # ys) 0"
    by (simp add: chain_append a_def [symmetric] nx_def add.assoc)
qed

text \<open>The two halves of the merge, on a well-formed list.\<close>

lemma ajoin_append:
  "ajoin (length xs) (xs @ (sz, u) # (sz', u') # ys) = xs @ (sz + sz', u) # ys"
  by (simp add: ajoin_def nth_append)

lemma pair_decomp:
  assumes "Suc i < length bs"
  obtains xs sz u sz' u' ys where "bs = xs @ (sz, u) # (sz', u') # ys" and "length xs = i"
    and "bs ! i = (sz, u)" and "bs ! Suc i = (sz', u')"
    and "baddr p bs i = p + span xs" and "baddr p bs (Suc i) = p + span xs + sz"
proof -
  obtain sz u sz' u' where b: "bs ! i = (sz, u)" "bs ! Suc i = (sz', u')"
    by (cases "bs ! i"; cases "bs ! Suc i")
  show ?thesis
    using that [of "take i bs" sz u sz' u' "drop (i + 2) bs"] split_nth2 [OF assms] assms b
      span_take_nth [of i bs] by (simp add: baddr_def)
qed

definition merge_ok :: "memory \<times> u32 \<Rightarrow> blk list \<Rightarrow> bool" where
  "merge_ok mc bs \<longleftrightarrow> chain (fst mc) 0 heap_start bs 0 \<and> snd mc = of_nat (length bs) \<and>
    sizes_ok bs \<and> span bs \<le> heap_limit"

lemma join_step:
  assumes ok: "merge_ok (m, c) bs" and i: "Suc i < length bs"
  defines "a \<equiv> baddr heap_start bs i"
  obtains sz u sz' u' nx where "bs ! i = (sz, u)" and "bs ! Suc i = (sz', u')"
    and "baddr heap_start bs (Suc i) = a + sz"
    and "load_block m (of_nat a) = header sz u (last_addr 0 heap_start (take i bs)) (a + sz)"
    and "load_block m (of_nat (a + sz)) = header sz' u' a nx"
    and "nx = 0 \<or> nx = a + sz + sz'" and "0 < a" and "40 \<le> sz" and "40 \<le> sz'" and "a + sz + sz' + 64 \<le> 2 ^ 32"
    and "merge_ok (join_mem a (sz + sz') nx m, c - 1) (ajoin i bs)"
    and "headers_only (addrs heap_start bs) m (join_mem a (sz + sz') nx m)"
proof -
  obtain xs sz u sz' u' ys where d: "bs = xs @ (sz, u) # (sz', u') # ys" "length xs = i"
    "bs ! i = (sz, u)" "bs ! Suc i = (sz', u')" "a = heap_start + span xs"
    "baddr heap_start bs (Suc i) = heap_start + span xs + sz"
    using pair_decomp [OF i, of heap_start] unfolding a_def by metis
  let ?nx = "if ys = [] then 0 else a + sz + sz'"
  have o: "chain m 0 heap_start bs 0" "c = of_nat (length bs)" "sizes_ok bs" "span bs \<le> heap_limit"
    using ok by (simp_all add: merge_ok_def)
  have top: "heap_start + span bs + 64 \<le> 2 ^ 32" using o(4) by (simp add: heap_bounds)
  have pos: "0 < heap_start" by (simp add: heap_start_def)
  note j = join_chain [OF o(1,3) [unfolded d(1)] top [unfolded d(1)] pos, folded d(5)]
  have hd: "load_block m (of_nat a) = header sz u (last_addr 0 heap_start xs) (a + sz)"
    "load_block m (of_nat (a + sz)) = header sz' u' a ?nx"
    using o(1) unfolding d(1) chain_split3 by (simp_all add: d(5))
  have len: "length (ajoin i bs) = length bs - 1" using i by (simp add: ajoin_def)
  have mok: "merge_ok (join_mem a (sz + sz') ?nx m, c - 1) (ajoin i bs)"
    using j(1) ajoin_sizes [OF o(3) i] o(2,4) len i ajoin_append [of xs sz u sz' u' ys]
    by (simp add: merge_ok_def d(1,2) of_nat_diff)
  have hdr: "headers_only (addrs heap_start bs) m (join_mem a (sz + sz') ?nx m)"
    using j(2) by (rule headers_only_mono) (cases ys; auto simp: d(1,5) addrs_append add.assoc)
  show ?thesis
    by (rule that [OF d(3,4) d(6) [folded d(5)] _ hd(2) _ _ _ _ _ mok hdr])
      (use hd(1) o(3) top pos d in \<open>auto simp: d(5)\<close>)
qed


section \<open>Merging\<close>

lemma low_block: "x + 64 \<le> 2 ^ 32 \<Longrightarrow> low x"
  by (simp add: low_def)

lemma merge_next_join:
  assumes "load_block m (of_nat a) = header sz u pv (a + sz)"
    and "load_block m (of_nat (a + sz)) = header sz' u' a nx" and "\<not> u'"
    and "nx = 0 \<or> nx = a + sz + sz'" and "0 < a" and "40 \<le> sz" and "40 \<le> sz'" and "a + sz + sz' + 64 \<le> 2 ^ 32"
  shows "merge_next (of_nat a) (m, c) = (join_mem a (sz + sz') nx m, c - 1)"
proof -
  have nz: "(of_nat (a + sz) :: u64) \<noteq> 0" "(of_nat nx :: u64) = 0 \<longleftrightarrow> nx = 0"
    using assms by (subst of_nat_eq_0_low; auto)+
  have low: "low a" "low (a + sz)" "apart a (a + sz)"
    using assms by (auto simp: low_def apart_def)
  show ?thesis
    unfolding merge_next_def join_mem_def Let_def split
    by (simp add: assms(1-3) header_def nz low del: of_nat_add) (simp add: add.commute)
qed

lemma merge_prev_join:
  assumes "load_block m (of_nat a) = header sz u' pv (a + sz)" and "\<not> u'"
    and "load_block m (of_nat (a + sz)) = header sz' u a nx"
    and "nx = 0 \<or> nx = a + sz + sz'" and "0 < a" and "40 \<le> sz" and "40 \<le> sz'" and "a + sz + sz' + 64 \<le> 2 ^ 32"
  shows "merge_prev (of_nat (a + sz)) (m, c) = (join_mem a (sz + sz') nx m, c - 1)"
proof -
  have nz: "(of_nat a :: u64) \<noteq> 0" "(of_nat nx :: u64) = 0 \<longleftrightarrow> nx = 0"
    using assms by (subst of_nat_eq_0_low; auto)+
  have low: "low a" "low (a + sz)" "apart a (a + sz)"
    using assms by (auto simp: low_def apart_def)
  show ?thesis
    unfolding merge_prev_def join_mem_def Let_def split
    by (simp add: assms(1-3) header_def nz low del: of_nat_add) (simp add: add.commute)
qed

lemma merge_ok_chain: "merge_ok (m, c) bs \<Longrightarrow> i < length bs \<Longrightarrow>
    load_block m (of_nat (baddr heap_start bs i)) =
      header (fst (bs ! i)) (snd (bs ! i)) (last_addr 0 heap_start (take i bs))
        (if Suc i = length bs then 0 else baddr heap_start bs (Suc i))"
proof -
  assume ok: "merge_ok (m, c) bs" and i: "i < length bs"
  have "chain m 0 heap_start (take i bs @ (fst (bs ! i), snd (bs ! i)) # drop (Suc i) bs) 0"
    using ok split_nth [OF i] by (simp add: merge_ok_def)
  then show ?thesis unfolding chain_split3 using i by (simp add: baddr_Suc) (simp add: baddr_def)
qed

lemma merge_next_ok:
  assumes ok: "merge_ok (m, c) bs" and i: "i < length bs"
  defines "bs' \<equiv> (if Suc i < length bs \<and> \<not> snd (bs ! Suc i) then ajoin i bs else bs)"
  obtains m' c' where "merge_next (of_nat (baddr heap_start bs i)) (m, c) = (m', c')"
    and "merge_ok (m', c') bs'" and "headers_only (addrs heap_start bs) m m'"
proof (cases "Suc i < length bs")
  case True
  obtain sz u sz' u' nx where j: "bs ! i = (sz, u)" "bs ! Suc i = (sz', u')"
    "baddr heap_start bs (Suc i) = baddr heap_start bs i + sz"
    "load_block m (of_nat (baddr heap_start bs i)) =
      header sz u (last_addr 0 heap_start (take i bs)) (baddr heap_start bs i + sz)"
    "load_block m (of_nat (baddr heap_start bs i + sz)) = header sz' u' (baddr heap_start bs i) nx"
    "nx = 0 \<or> nx = baddr heap_start bs i + sz + sz'" "0 < baddr heap_start bs i" "40 \<le> sz" "40 \<le> sz'"
    "baddr heap_start bs i + sz + sz' + 64 \<le> 2 ^ 32"
    "merge_ok (join_mem (baddr heap_start bs i) (sz + sz') nx m, c - 1) (ajoin i bs)"
    "headers_only (addrs heap_start bs) m (join_mem (baddr heap_start bs i) (sz + sz') nx m)"
    using join_step [OF ok True] by metis
  show ?thesis
  proof (cases u')
    case False
    then show ?thesis
      using that merge_next_join [OF j(4,5) False j(6-10)] j(2,11,12) True
      by (simp add: bs'_def)
  next
    case u: True
    then have "merge_next (of_nat (baddr heap_start bs i)) (m, c) = (m, c)"
      by (simp add: merge_next_def j(4,5) header_def of_nat_add [symmetric] del: of_nat_add)
    then show ?thesis using that ok j(2) u by (simp add: bs'_def)
  qed
next
  case False
  then have "merge_next (of_nat (baddr heap_start bs i)) (m, c) = (m, c)"
    using merge_ok_chain [OF ok i] i by (simp add: merge_next_def header_def)
  then show ?thesis using that ok False by (simp add: bs'_def)
qed

lemma merge_prev_ok:
  assumes ok: "merge_ok (m, c) bs" and i: "i < length bs"
  defines "bs' \<equiv> (if 0 < i \<and> \<not> snd (bs ! (i - 1)) then ajoin (i - 1) bs else bs)"
  obtains m' c' where "merge_prev (of_nat (baddr heap_start bs i)) (m, c) = (m', c')"
    and "merge_ok (m', c') bs'" and "headers_only (addrs heap_start bs) m m'"
proof (cases i)
  case 0
  then have "merge_prev (of_nat (baddr heap_start bs i)) (m, c) = (m, c)"
    using merge_ok_chain [OF ok i] by (simp add: merge_prev_def header_def)
  then show ?thesis using that ok 0 by (simp add: bs'_def)
next
  case (Suc k)
  then have k: "Suc k < length bs" using i by simp
  obtain sz u sz' u' nx where j: "bs ! k = (sz, u)" "bs ! Suc k = (sz', u')"
    "baddr heap_start bs (Suc k) = baddr heap_start bs k + sz"
    "load_block m (of_nat (baddr heap_start bs k)) =
      header sz u (last_addr 0 heap_start (take k bs)) (baddr heap_start bs k + sz)"
    "load_block m (of_nat (baddr heap_start bs k + sz)) = header sz' u' (baddr heap_start bs k) nx"
    "nx = 0 \<or> nx = baddr heap_start bs k + sz + sz'" "0 < baddr heap_start bs k" "40 \<le> sz" "40 \<le> sz'"
    "baddr heap_start bs k + sz + sz' + 64 \<le> 2 ^ 32"
    "merge_ok (join_mem (baddr heap_start bs k) (sz + sz') nx m, c - 1) (ajoin k bs)"
    "headers_only (addrs heap_start bs) m (join_mem (baddr heap_start bs k) (sz + sz') nx m)"
    using join_step [OF ok k] by metis
  have a: "baddr heap_start bs i = baddr heap_start bs k + sz" using Suc j(3) by simp
  show ?thesis
  proof (cases u)
    case False
    then show ?thesis
      using that merge_prev_join [OF j(4) False j(5-10)] j(1,11,12) Suc
      unfolding a by (simp add: bs'_def)
  next
    case u: True
    have "merge_prev (of_nat (baddr heap_start bs k + sz)) (m, c) = (m, c)"
      by (simp add: merge_prev_def j(5) header_def del: of_nat_add) (simp add: j(4) header_def u)
    then show ?thesis using that ok j(1) u Suc unfolding a by (simp add: bs'_def)
  qed
qed


lemma baddr_ajoin: "Suc i < length bs \<Longrightarrow> j \<le> i \<Longrightarrow> baddr p (ajoin i bs) j = baddr p bs j"
  by (simp add: ajoin_def baddr_def min_def)

lemma addrs_ajoin: "Suc i < length bs \<Longrightarrow> addrs p (ajoin i bs) \<subseteq> addrs p bs"
proof -
  assume i: "Suc i < length bs"
  obtain xs sz u sz' u' ys where "bs = xs @ (sz, u) # (sz', u') # ys" "length xs = i"
    using pair_decomp [OF i] by metis
  then show ?thesis using ajoin_append [of xs sz u sz' u' ys] by (auto simp: addrs_append add.assoc)
qed

lemma length_ajoin: "Suc i < length bs \<Longrightarrow> length (ajoin i bs) = length bs - 1"
  by (simp add: ajoin_def)

lemma nth_ajoin: "Suc i < length bs \<Longrightarrow> j < i \<Longrightarrow> ajoin i bs ! j = bs ! j"
  by (simp add: ajoin_def nth_append)

text \<open>Both halves together.\<close>

lemma merge_both_ok:
  assumes ok: "merge_ok (m, c) bs" and i: "i < length bs"
  obtains m' c' where
    "merge_prev (of_nat (baddr heap_start bs i)) (merge_next (of_nat (baddr heap_start bs i)) (m, c)) = (m', c')"
    and "merge_ok (m', c') (amerge i bs)" and "headers_only (addrs heap_start bs) m m'"
proof -
  let ?b = "if Suc i < length bs \<and> \<not> snd (bs ! Suc i) then ajoin i bs else bs"
  obtain m1 c1 where one: "merge_next (of_nat (baddr heap_start bs i)) (m, c) = (m1, c1)"
    "merge_ok (m1, c1) ?b" "headers_only (addrs heap_start bs) m m1"
    using merge_next_ok [OF ok i] by blast
  have b: "i < length ?b" "baddr heap_start ?b i = baddr heap_start bs i"
    "addrs heap_start ?b \<subseteq> addrs heap_start bs"
    using i addrs_ajoin [of i bs] by (auto simp: length_ajoin baddr_ajoin split: if_splits)
  obtain m2 c2 where two: "merge_prev (of_nat (baddr heap_start ?b i)) (m1, c1) = (m2, c2)"
    "merge_ok (m2, c2) (if 0 < i \<and> \<not> snd (?b ! (i - 1)) then ajoin (i - 1) ?b else ?b)"
    "headers_only (addrs heap_start ?b) m1 m2"
    using merge_prev_ok [OF one(2) b(1)] by blast
  have "headers_only (addrs heap_start bs \<union> addrs heap_start ?b) m m2"
    by (rule headers_only_trans [OF one(3) two(3)])
  then have "headers_only (addrs heap_start bs) m m2" by (rule headers_only_mono) (use b(3) in blast)
  then show ?thesis using that one(1) two(1,2) b(2) unfolding amerge_def Let_def by simp
qed

section \<open>Freeing\<close>

lemma merge_ok_heap: "heap_ok s bs \<Longrightarrow> merge_ok (mem s, total_blocks (kernel_heap s)) bs"
  by (simp add: merge_ok_def heap_ok_def)

lemma chain_set_used:
  assumes "chain m prv p bs nxt" and "i < length bs" and "sizes_ok bs" and "p + span bs \<le> 2 ^ 32"
  shows "chain (set_used (of_nat (baddr p bs i)) 0 m) prv p (bs[i := (fst (bs ! i), False)]) nxt"
proof -
  obtain xs sz u ys where d: "bs = xs @ (sz, u) # ys" "length xs = i" "baddr p bs i = p + span xs"
    using block_decomp [OF assms(2), where p = p] by metis
  let ?a = "p + span xs"
  let ?m = "set_used (of_nat ?a) 0 m"
  have c: "chain m prv p xs ?a" "load_block m (of_nat ?a) = header sz u (last_addr prv p xs) (if ys = [] then nxt else ?a + sz)"
    "chain m ?a (?a + sz) ys nxt"
    using assms(1) unfolding d(1) chain_split3 by simp_all
  have h: "headers_only {?a} m ?m" by (intro headers_only_set headers_only_refl) simp
  have "chain ?m prv p xs ?a" "chain ?m ?a (?a + sz) ys nxt"
    using c(1,3) assms(3,4) d(1) by (subst chain_headers_only [OF h]; auto simp: low_def)+
  then have "chain ?m prv p (xs @ (sz, False) # ys) nxt"
    using c(2) by (simp add: chain_append header_def)
  moreover have "bs[i := (fst (bs ! i), False)] = xs @ (sz, False) # ys"
    using d(1,2) by (auto simp: list_update_append)
  ultimately show ?thesis using d(3) by simp
qed

lemma span_set_flag: "i < length bs \<Longrightarrow> span (bs[i := (fst (bs ! i), u)]) = span bs"
proof -
  assume "i < length bs"
  then obtain xs sz v ys where "bs = xs @ (sz, v) # ys" "length xs = i"
    using block_decomp [where p = 0] by metis
  then show ?thesis by (auto simp: list_update_append)
qed

lemma sizes_ok_set_flag: "i < length bs \<Longrightarrow> sizes_ok (bs[i := (fst (bs ! i), u)]) = sizes_ok bs"
proof -
  assume "i < length bs"
  then obtain xs sz v ys where "bs = xs @ (sz, v) # ys" "length xs = i"
    using block_decomp [where p = 0] by metis
  then show ?thesis by (auto simp: list_update_append)
qed

lemma amerge_span: "sizes_ok bs \<Longrightarrow> i < length bs \<Longrightarrow> span (amerge i bs) = span bs"
proof -
  assume ok: "sizes_ok bs" and i: "i < length bs"
  let ?b = "if Suc i < length bs \<and> \<not> snd (bs ! Suc i) then ajoin i bs else bs"
  have "sizes_ok ?b" "span ?b = span bs" "i < length ?b" using ok i ajoin_sizes [OF ok, of i] by (auto simp: length_ajoin)
  then show ?thesis using ajoin_sizes(2) [of ?b "i - 1"] unfolding amerge_def Let_def by simp
qed

lemma afree_span: "sizes_ok bs \<Longrightarrow> i < length bs \<Longrightarrow> span (afree i bs) = span bs"
  by (simp add: afree_def amerge_span sizes_ok_set_flag span_set_flag)

lemma afree_nonempty: "sizes_ok bs \<Longrightarrow> i < length bs \<Longrightarrow> afree i bs \<noteq> []"
  using afree_span [of bs i] sizes_ok_span [of bs] by auto

lemma baddr_set_flag: "j \<le> i \<Longrightarrow> baddr p (bs[i := b]) j = baddr p bs j"
  by (simp add: baddr_def)

lemma addrs_set_flag: "i < length bs \<Longrightarrow> addrs p (bs[i := (fst (bs ! i), u)]) = addrs p bs"
proof -
  assume "i < length bs"
  then obtain xs sz v ys where "bs = xs @ (sz, v) # ys" "length xs = i"
    using block_decomp [where p = 0] by metis
  then show ?thesis by (auto simp: list_update_append addrs_append)
qed

lemma block_header:
  assumes "heap_ok s bs" and "i < length bs"
  shows "load_block (mem s) (of_nat (baddr heap_start bs i)) =
      header (fst (bs ! i)) (snd (bs ! i)) (last_addr 0 heap_start (take i bs))
        (if Suc i = length bs then 0 else baddr heap_start bs (Suc i))"
  by (rule merge_ok_chain [OF merge_ok_heap [OF assms(1)] assms(2)])

lemma payload_word: "(of_nat (a + 32) :: u64) - SIZEOF_BLOCK = of_nat a" "0 < a \<Longrightarrow> a + 32 < 2 ^ 64 \<Longrightarrow> (of_nat (a + 32) :: u64) \<noteq> 0"
  by (simp add: SIZEOF_BLOCK_def) (subst of_nat_eq_0_low; simp)

lemma payload_nonzero:
  assumes "heap_ok s bs" and "i < length bs"
  shows "(of_nat (baddr heap_start bs i + 32) :: u64) \<noteq> 0"
proof (rule payload_word(2))
  show "0 < baddr heap_start bs i" by (simp add: baddr_def heap_start_def)
  have "baddr heap_start bs i \<le> heap_start + span bs" using block_fits [OF assms(2)] by (meson le_add1 order_trans)
  then show "baddr heap_start bs i + 32 < 2 ^ 64" using heap_okD(3) [OF assms(1)] by (simp add: heap_bounds)
qed

lemma kmfree_ok:
  assumes ok: "heap_ok s bs" and i: "i < length bs" and u: "snd (bs ! i)"
  shows "\<exists>s'. kmfree (of_nat (baddr heap_start bs i + 32)) s = Some s' \<and> heap_ok s' (afree i bs) \<and>
    heap_step (addrs heap_start bs) s s' \<and> used_blocks (kernel_heap s') = used_blocks (kernel_heap s) - 1"
proof -
  let ?a = "baddr heap_start bs i"
  let ?f = "bs[i := (fst (bs ! i), False)]"
  note okD = heap_okD [OF ok]
  have top: "heap_start + span bs \<le> 2 ^ 32" using okD(3) by (simp add: heap_bounds)
  have hdr: "magic (load_block (mem s) (of_nat ?a)) = HEAP_MAGIC" "used (load_block (mem s) (of_nat ?a)) \<noteq> 0"
    using block_header [OF ok i] u by (simp_all add: header_def)
  have "merge_ok (set_used (of_nat ?a) 0 (mem s), total_blocks (kernel_heap s)) ?f"
    using chain_set_used [OF okD(4) i okD(2) top] okD(2,3,9) i
    by (simp add: merge_ok_def sizes_ok_set_flag span_set_flag)
  then obtain m c where m: "merge_prev (of_nat ?a) (merge_next (of_nat ?a)
      (set_used (of_nat ?a) 0 (mem s), total_blocks (kernel_heap s))) = (m, c)"
    "merge_ok (m, c) (afree i bs)" "headers_only (addrs heap_start bs) (set_used (of_nat ?a) 0 (mem s)) m"
    using merge_both_ok [of "set_used (of_nat ?a) 0 (mem s)" _ ?f i] i
    by (auto simp: baddr_set_flag addrs_set_flag afree_def)
  let ?h = "(kernel_heap s)\<lparr>used_blocks := used_blocks (kernel_heap s) - 1, total_blocks := c\<rparr>"
  let ?s = "s\<lparr>mem := m, kernel_heap := ?h\<rparr>"
  have "kmfree (of_nat (?a + 32)) s = Some ?s"
    using hdr payload_nonzero [OF ok i] m(1)
    by (simp add: kmfree_def Let_def payload_word heap_merge_adjacent_blocks_def del: of_nat_add)
  moreover have "heap_ok ?s (afree i bs)"
    using m(2) okD afree_span [OF okD(2) i] afree_nonempty [OF okD(2) i] by (auto simp: heap_ok_def merge_ok_def)
  moreover have first: "headers_only (addrs heap_start bs) (mem s) (set_used (of_nat ?a) 0 (mem s))"
    using i by (intro headers_only_set) (auto simp: addrs_baddr)
  moreover have "heap_step (addrs heap_start bs) s ?s"
    using headers_only_trans [OF first m(3)] by (intro heap_step_update) simp
  ultimately show ?thesis by auto
qed

end
