(* ===== verification/HeapLive.thy ===== *)
theory HeapLive
  imports HeapFree
begin

text \<open>
  What a client of the heap relies on: the set of blocks in use, how allocation and freeing change
  it, and that neither writes into the payload of a block that stays in use.
\<close>

section \<open>Blocks in use\<close>

text \<open>The address and size of every block in use.\<close>

fun live :: "nat \<Rightarrow> blk list \<Rightarrow> (nat \<times> nat) set" where
  "live p [] = {}"
| "live p ((sz, u) # bs) = (if u then insert (p, sz) (live (p + sz) bs) else live (p + sz) bs)"

lemma live_append [simp]: "live p (xs @ ys) = live p xs \<union> live (p + span xs) ys"
  by (induction p xs rule: live.induct) (auto simp: add.assoc)

lemma live_range: "(a, sz) \<in> live p bs \<Longrightarrow> sizes_ok bs \<Longrightarrow> p \<le> a \<and> a + sz \<le> p + span bs \<and> 40 \<le> sz"
  by (induction p bs rule: live.induct) (fastforce split: if_splits)+

lemma live_nth: "live p bs = {(baddr p bs i, fst (bs ! i)) |i. i < length bs \<and> snd (bs ! i)}"
proof (induction p bs rule: live.induct)
  case (2 p sz u bs)
  have "{(baddr p ((sz, u) # bs) i, fst (((sz, u) # bs) ! i)) |i. i < Suc (length bs) \<and> snd (((sz, u) # bs) ! i)}
      = (if u then {(p, sz)} else {}) \<union> {(baddr (p + sz) bs i, fst (bs ! i)) |i. i < length bs \<and> snd (bs ! i)}"
    (is "?L = ?R")
  proof (intro set_eqI iffI)
    fix x
    assume "x \<in> ?L"
    then obtain i where i: "x = (baddr p ((sz, u) # bs) i, fst (((sz, u) # bs) ! i))" "i < Suc (length bs)"
      "snd (((sz, u) # bs) ! i)" by blast
    show "x \<in> ?R" using i by (cases i) (auto simp: baddr_def add.assoc)
  next
    fix x
    assume "x \<in> ?R"
    then consider "u" "x = (p, sz)"
      | i where "i < length bs" "snd (bs ! i)" "x = (baddr (p + sz) bs i, fst (bs ! i))"
      by (auto split: if_splits)
    then show "x \<in> ?L"
    proof cases
      case 1
      then show ?thesis by (auto intro: exI [of _ 0])
    next
      case (2 i)
      then show ?thesis by (auto simp: baddr_def add.assoc intro!: exI [of _ "Suc i"])
    qed
  qed
  then show ?case using 2 by simp
qed simp

lemma asplit_append: "i = length xs \<Longrightarrow>
    asplit i t (xs @ (sz, u) # ys) = (if sz < t + 64 then xs @ (sz, u) # ys else xs @ (t, True) # (sz - t, False) # ys)"
  by (simp add: asplit_def)

text \<open>Splitting adds the block that is handed out, but only if the block is really split.\<close>

lemma live_asplit:
  assumes "i < length bs" and "\<not> snd (bs ! i)" and "t \<le> fst (bs ! i)"
  shows "live p (asplit i t bs) =
    (if fst (bs ! i) < t + 64 then live p bs else insert (baddr p bs i, t) (live p bs))"
proof -
  obtain xs sz u ys where d: "bs = xs @ (sz, u) # ys" "length xs = i" "bs ! i = (sz, u)" "baddr p bs i = p + span xs"
    using block_decomp [OF assms(1), where p = p] by metis
  then show ?thesis using assms asplit_append [of i xs t sz u ys] by (auto simp: add.assoc)
qed

lemma live_aexpand [simp]: "live p (aexpand n bs) = live p bs"
  by (simp add: aexpand_def Let_def)

lemma live_ajoin:
  assumes "Suc i < length bs" and "\<not> snd (bs ! i)" and "\<not> snd (bs ! Suc i)"
  shows "live p (ajoin i bs) = live p bs"
proof -
  obtain xs sz u sz' u' ys where d: "bs = xs @ (sz, u) # (sz', u') # ys" "length xs = i"
    "bs ! i = (sz, u)" "bs ! Suc i = (sz', u')"
    using pair_decomp [OF assms(1), of p] by metis
  then show ?thesis using assms ajoin_append [of xs sz u sz' u' ys] by (auto simp: add.assoc)
qed

lemma live_amerge:
  assumes "i < length bs" and "\<not> snd (bs ! i)"
  shows "live p (amerge i bs) = live p bs"
proof -
  let ?b = "if Suc i < length bs \<and> \<not> snd (bs ! Suc i) then ajoin i bs else bs"
  have b: "live p ?b = live p bs" "i < length ?b" "\<not> snd (?b ! i)"
    using assms live_ajoin [of i bs p] by (auto simp: length_ajoin ajoin_def nth_append)
  show ?thesis
  proof (cases "0 < i \<and> \<not> snd (?b ! (i - 1))")
    case True
    then have "live p (ajoin (i - 1) ?b) = live p ?b" using b by (intro live_ajoin) auto
    then show ?thesis unfolding amerge_def Let_def b(1) [symmetric] using True by simp
  next
    case False
    then show ?thesis unfolding amerge_def Let_def b(1) [symmetric] by (simp only: if_False)
  qed
qed

lemma live_afree:
  assumes "sizes_ok bs" and "i < length bs"
  shows "live p (afree i bs) = live p bs - {(baddr p bs i, fst (bs ! i))}"
proof -
  obtain xs sz u ys where d: "bs = xs @ (sz, u) # ys" "length xs = i" "bs ! i = (sz, u)" "baddr p bs i = p + span xs"
    using block_decomp [OF assms(2), where p = p] by metis
  have "live p (afree i bs) = live p (bs[i := (sz, False)])"
    using assms(2) d by (simp add: afree_def live_amerge)
  also have "bs[i := (sz, False)] = xs @ (sz, False) # ys" using d(1,2) by (auto simp: list_update_append)
  also have "live p \<dots> = live p bs - {(p + span xs, sz)}"
    using live_range [of "p + span xs" sz p xs] live_range [of "p + span xs" sz "p + span xs + sz" ys] assms(1) d(1)
    by auto
  finally show ?thesis using d by simp
qed


section \<open>What the allocator promises\<close>

lemma baddr_mono: "i < j \<Longrightarrow> j < length bs \<Longrightarrow> baddr p bs i + fst (bs ! i) \<le> baddr p bs j"
proof -
  assume ij: "i < j" "j < length bs"
  have "span (take (Suc i) bs) \<le> span (take j bs)"
    using span_take_le [of "Suc i" "take j bs"] ij by (simp add: min_def)
  then show ?thesis using ij by (simp add: baddr_def span_take_nth)
qed

lemma live_apart:
  assumes "i < length bs" and "\<not> snd (bs ! i)" and "(b, l) \<in> live p bs"
  shows "baddr p bs i + fst (bs ! i) \<le> b \<or> b + l \<le> baddr p bs i"
proof -
  obtain j where j: "j < length bs" "snd (bs ! j)" "b = baddr p bs j" "l = fst (bs ! j)"
    using assms(3) by (auto simp: live_nth)
  then have "i \<noteq> j" using assms(2) by blast
  then show ?thesis using baddr_mono [of i j bs p] baddr_mono [of j i bs p] j assms(1) by linarith
qed

lemma sizes_ok_span_mod: "sizes_ok bs \<Longrightarrow> span bs mod 8 = 0"
  by (induction bs) (auto simp: mod_add_eq)

lemma baddr_mod: "sizes_ok bs \<Longrightarrow> baddr p bs i mod 8 = p mod 8"
proof -
  assume "sizes_ok bs"
  then have "sizes_ok (take i bs @ drop i bs)" by simp
  then have "sizes_ok (take i bs)" unfolding sizes_ok_simps by (rule conjunct1)
  then have "span (take i bs) mod 8 = 0" by (rule sizes_ok_span_mod)
  then show ?thesis using mod_add_right_eq [of p "span (take i bs)" 8] by (simp add: baddr_def)
qed

lemma asplit_block:
  assumes "i < length bs" and "t \<le> fst (bs ! i)"
  shows "t \<le> fst (asplit i t bs ! i)" and "fst (asplit i t bs ! i) \<le> fst (bs ! i)"
    and "i < length (asplit i t bs)" and "snd (asplit i t bs ! i) \<longleftrightarrow> snd (bs ! i) \<or> t + 64 \<le> fst (bs ! i)"
  using assms by (auto simp: asplit_def nth_append not_less)

text \<open>The block that a successful allocation hands out is large enough, and apart from every block
  in use; blocks in use stay in use.\<close>

lemma take_block:
  assumes f: "afind t bs = Some i" and ok: "sizes_ok bs" and t: "40 \<le> t" "t mod 8 = 0"
  defines "bs' \<equiv> asplit i t bs"
  shows "i < length bs'" and "t \<le> fst (bs' ! i)"
    and "live p bs \<subseteq> live p bs'"
    and "(b, l) \<in> live p bs \<Longrightarrow> baddr p bs' i + fst (bs' ! i) \<le> b \<or> b + l \<le> baddr p bs' i"
proof -
  have i: "i < length bs" "\<not> snd (bs ! i)" "t \<le> fst (bs ! i)" using afind_Some [OF f] by auto
  note sp = asplit_block [OF i(1,3), folded bs'_def]
  show "i < length bs'" "t \<le> fst (bs' ! i)" using sp by simp_all
  show "live p bs \<subseteq> live p bs'" using live_asplit [OF i] by (auto simp: bs'_def)
  assume "(b, l) \<in> live p bs"
  then have "baddr p bs i + fst (bs ! i) \<le> b \<or> b + l \<le> baddr p bs i" by (rule live_apart [OF i(1,2)])
  then show "baddr p bs' i + fst (bs' ! i) \<le> b \<or> b + l \<le> baddr p bs' i"
    using sp(2) i(1) by (simp add: bs'_def baddr_asplit) linarith
qed

lemma amalloc_block:
  assumes a: "amalloc n bs = (Some i, bs')" and ok: "sizes_ok bs"
  shows "i < length bs'" and "n + 32 \<le> fst (bs' ! i)" and "live p bs \<subseteq> live p bs'"
    and "(b, l) \<in> live p bs \<Longrightarrow> baddr p bs' i + fst (bs' ! i) \<le> b \<or> b + l \<le> baddr p bs' i"
proof -
  have n: "0 < n" using a by (cases n) (auto simp: amalloc_def)
  obtain bs1 where bs1: "afind (request n) bs1 = Some i" "bs' = asplit i (request n) bs1" "sizes_ok bs1"
    "live p bs1 = live p bs"
    using a n ok aexpand_sizes [OF ok, of n]
    by (auto simp: amalloc_def Let_def split: option.splits)
  note tb = take_block [OF bs1(1,3) request_bounds(2) [OF n] request_bounds(3), folded bs1(2)]
  show "i < length bs'" "n + 32 \<le> fst (bs' ! i)" "live p bs \<subseteq> live p bs'"
    "(b, l) \<in> live p bs \<Longrightarrow> baddr p bs' i + fst (bs' ! i) \<le> b \<or> b + l \<le> baddr p bs' i"
    using tb(1-3) tb(4) [where p = p] bs1(4) request_bounds(1) [of n] by force+
qed

lemma amalloc_live: "amalloc n bs = (r, bs') \<Longrightarrow> sizes_ok bs \<Longrightarrow> live p bs \<subseteq> live p bs'"
  using amalloc_block(3) [of n bs _ bs' p]
  by (cases r) (auto simp: amalloc_def Let_def split: if_splits option.splits)

section \<open>Payloads\<close>

definition payload :: "nat \<times> nat \<Rightarrow> u64 set" where
  "payload b = region (of_nat (fst b + 32)) (snd b - 32)"

lemma live_addrs:
  "(a, sz) \<in> live p bs \<Longrightarrow> q \<in> addrs p bs \<Longrightarrow> sizes_ok bs \<Longrightarrow> q \<le> a \<or> a + sz \<le> q"
proof (induction p bs rule: live.induct)
  case (2 p sz' u bs)
  then show ?case
    using live_range [of a sz "p + sz'" bs] addrs_range [of q "p + sz'" bs]
    by (auto split: if_splits)
qed simp

lemma payload_headers:
  assumes "(a, sz) \<in> live heap_start bs" and "sizes_ok bs" and "span bs \<le> heap_limit" and "q \<in> addrs heap_start bs"
  shows "payload (a, sz) \<inter> region (of_nat q) 32 = {}"
proof -
  have r: "heap_start \<le> a" "a + sz \<le> heap_start + span bs" "40 \<le> sz" "q + 40 \<le> heap_start + span bs"
    using live_range [OF assms(1,2)] addrs_range [OF assms(4,2)] by auto
  have "q \<le> a \<or> a + sz \<le> q" by (rule live_addrs [OF assms(1,4,2)])
  then have "a + 32 + (sz - 32) \<le> q \<or> q + 32 \<le> a + 32" using r(3) by linarith
  then show ?thesis unfolding payload_def fst_conv snd_conv
    by (intro region_of_nat_disjoint) (use r assms(3) in \<open>simp_all add: heap_bounds\<close>)
qed

lemma payload_video:
  assumes "(a, sz) \<in> live heap_start bs" and "sizes_ok bs" and "span bs \<le> heap_limit"
  shows "payload (a, sz) \<inter> video_window = {}"
proof -
  have r: "heap_start \<le> a" "a + sz \<le> heap_start + span bs" "40 \<le> sz" using live_range [OF assms(1,2)] by auto
  have "region (of_nat (a + 32)) (sz - 32) \<inter> region (of_nat 0xb8000) 65537 = {}"
    by (intro region_of_nat_disjoint) (use r assms(3) in \<open>simp_all add: heap_bounds\<close>)
  then show ?thesis by (simp add: payload_def video_window_def VIDEO_ADDRESS_def)
qed

lemma heap_step_payload:
  assumes "heap_step (addrs heap_start bs) s s'" and "heap_ok s0 bs" and "b \<in> live heap_start bs"
  shows "agree_on (payload b) (mem s) (mem s')"
proof -
  obtain a sz where b: "b = (a, sz)" by (cases b)
  note okD = heap_okD [OF assms(2)]
  have "x \<notin> video_window" "\<forall>q \<in> addrs heap_start bs. x \<notin> region (of_nat q) 32" if "x \<in> payload b" for x
    using that payload_video [of a sz bs] payload_headers [of a sz bs] assms(3) okD(2,3) unfolding b by blast+
  then show ?thesis using assms(1) unfolding heap_step_def agree_on_def by blast
qed

end
