(* ===== verification/HeapClient.thy ===== *)
theory HeapClient
  imports HeapLive
begin

text \<open>
  The interface between the heap and the code that uses it: what a client may rely on, stated as a
  locale, a client that allocates, frees and writes in any order, and the interpretation of the
  interface by \<open>kmalloc\<close> and \<open>kmfree\<close>.
\<close>

section \<open>The interface\<close>

text \<open>
  The steps that the rest of the kernel can take while the owner of block \<open>b\<close> looks away: any
  allocation, freeing any block in use other than \<open>b\<close>, writing a byte inside the payload of any
  such block.
\<close>

inductive client_step ::
  "('s \<Rightarrow> 'h \<Rightarrow> bool) \<Rightarrow> ('h \<Rightarrow> (nat \<times> nat) set) \<Rightarrow> (u64 \<Rightarrow> 's \<Rightarrow> (u64 \<times> 's) option) \<Rightarrow>
   (u64 \<Rightarrow> 's \<Rightarrow> 's option) \<Rightarrow> (u64 \<Rightarrow> u8 \<Rightarrow> 's \<Rightarrow> 's) \<Rightarrow> nat \<times> nat \<Rightarrow> 's \<Rightarrow> 's \<Rightarrow> bool"
  for ok lives alloc release store b where
  alloc_step: "unat n < 2 ^ 63 \<Longrightarrow> alloc n s = Some (p, s') \<Longrightarrow>
    client_step ok lives alloc release store b s s'"
| release_step: "ok s h \<Longrightarrow> (a, sz) \<in> lives h \<Longrightarrow> (a, sz) \<noteq> b \<Longrightarrow>
    release (of_nat (a + 32)) s = Some s' \<Longrightarrow> client_step ok lives alloc release store b s s'"
| store_step: "ok s h \<Longrightarrow> c \<in> lives h \<Longrightarrow> c \<noteq> b \<Longrightarrow> x \<in> payload c \<Longrightarrow>
    client_step ok lives alloc release store b s (store x v s)"

locale block_store =
  fixes ok :: "'s \<Rightarrow> 'h \<Rightarrow> bool" and lives :: "'h \<Rightarrow> (nat \<times> nat) set"
    and alloc :: "u64 \<Rightarrow> 's \<Rightarrow> (u64 \<times> 's) option" and release :: "u64 \<Rightarrow> 's \<Rightarrow> 's option"
    and store :: "u64 \<Rightarrow> u8 \<Rightarrow> 's \<Rightarrow> 's" and bytes :: "'s \<Rightarrow> memory"
  assumes unique: "ok s h \<Longrightarrow> ok s h' \<Longrightarrow> h' = h"
    and alloc: "ok s h \<Longrightarrow> unat n < 2 ^ 63 \<Longrightarrow> \<exists>p s' h'. alloc n s = Some (p, s') \<and> ok s' h' \<and>
      lives h \<subseteq> lives h' \<and> (\<forall>b \<in> lives h. agree_on (payload b) (bytes s) (bytes s'))"
    and release: "ok s h \<Longrightarrow> (a, sz) \<in> lives h \<Longrightarrow> \<exists>s' h'. release (of_nat (a + 32)) s = Some s' \<and> ok s' h' \<and>
      lives h' = lives h - {(a, sz)} \<and> (\<forall>b \<in> lives h. agree_on (payload b) (bytes s) (bytes s'))"
    and store: "ok s h \<Longrightarrow> c \<in> lives h \<Longrightarrow> x \<in> payload c \<Longrightarrow> ok (store x v s) h"
    and store_bytes: "bytes (store x v s) = (bytes s)(x := v)"
    and disjoint: "ok s h \<Longrightarrow> b \<in> lives h \<Longrightarrow> c \<in> lives h \<Longrightarrow> b \<noteq> c \<Longrightarrow> payload b \<inter> payload c = {}"
begin

lemma step_safe:
  assumes "client_step ok lives alloc release store b s s'" and "ok s h" and "b \<in> lives h"
  shows "\<exists>h'. ok s' h' \<and> b \<in> lives h' \<and> agree_on (payload b) (bytes s) (bytes s')"
  using assms(1)
proof cases
  case (alloc_step n p)
  then show ?thesis using alloc [OF assms(2), of n] assms(3) by auto
next
  case (release_step h1 a sz)
  then have "h1 = h" using unique assms(2) by blast
  then show ?thesis using release [OF assms(2), of a sz] release_step assms(3) by auto
next
  case (store_step h1 c x v)
  then have h: "h1 = h" using unique assms(2) by blast
  then have "x \<notin> payload b" using disjoint [OF assms(2,3), of c] store_step by blast
  then have "agree_on (payload b) (bytes s) (bytes s')" unfolding store_step(1) store_bytes agree_on_def by auto
  moreover have "ok s' h" using store store_step h by blast
  ultimately show ?thesis using assms(3) by blast
qed

lemma steps_safe:
  assumes "(client_step ok lives alloc release store b)\<^sup>*\<^sup>* s s'" and "ok s h" and "b \<in> lives h"
  shows "\<exists>h'. ok s' h' \<and> b \<in> lives h' \<and> agree_on (payload b) (bytes s) (bytes s')"
  using assms(1)
proof (induction rule: rtranclp_induct)
  case base
  then show ?case using assms(2,3) by (auto simp: agree_on_def)
next
  case (step s1 s2)
  then obtain h1 where "ok s1 h1" "b \<in> lives h1" "agree_on (payload b) (bytes s) (bytes s1)" by blast
  moreover obtain h2 where "ok s2 h2" "b \<in> lives h2" "agree_on (payload b) (bytes s1) (bytes s2)"
    using step_safe [OF step.hyps(2) calculation(1,2)] by blast
  ultimately show ?case by (auto simp: agree_on_def)
qed

text \<open>Freeing a block twice is the only way to lose another: a release is never refused while the
  block is in use, however many steps others have taken.\<close>

lemma release_later:
  assumes "(client_step ok lives alloc release store (a, sz))\<^sup>*\<^sup>* s s'" and "ok s h" and "(a, sz) \<in> lives h"
  shows "\<exists>s'' h'. release (of_nat (a + 32)) s' = Some s'' \<and> ok s'' h' \<and> (a, sz) \<notin> lives h'"
proof -
  obtain h1 where h1: "ok s' h1" "(a, sz) \<in> lives h1" using steps_safe [OF assms] by blast
  show ?thesis using release [OF h1] by blast
qed

end

section \<open>The heap implements it\<close>

lemma header_inject:
  "header sz u prv nx = header sz' u' prv' nx' \<Longrightarrow> sz < 2 ^ 32 \<Longrightarrow> sz' < 2 ^ 32 \<Longrightarrow> sz = sz' \<and> u = u'"
  using of_nat_inj_small [of sz sz', where 'a = 32] by (auto simp: header_def split: if_splits)

text \<open>The memory determines the block list.\<close>

lemma chain_unique:
  assumes "chain m prv p bs 0" and "chain m prv p bs' 0" and "bs = [] \<longleftrightarrow> bs' = []"
    and "sizes_ok bs" and "sizes_ok bs'" and "p + span bs < 2 ^ 32" and "p + span bs' < 2 ^ 32"
  shows "bs' = bs"
  using assms
proof (induction bs arbitrary: prv p bs')
  case Nil
  then show ?case by simp
next
  case (Cons b bs)
  obtain sz u where b: "b = (sz, u)" by (cases b)
  obtain sz' u' cs where c: "bs' = (sz', u') # cs" using Cons.prems(3) by (cases bs') auto
  have hd: "header sz u prv (if bs = [] then 0 else p + sz) = header sz' u' prv (if cs = [] then 0 else p + sz')"
    using Cons.prems(1) [unfolded b chain.simps, THEN conjunct1]
      Cons.prems(2) [unfolded c chain.simps, THEN conjunct1] by (rule trans [OF sym])
  have eq: "sz = sz' \<and> u = u'"
    by (rule header_inject [OF hd]) (use Cons.prems(6,7) in \<open>simp_all add: b c\<close>)
  have nz: "(of_nat (p + sz) :: u64) \<noteq> 0"
    using Cons.prems(4,6) by (subst of_nat_eq_0_low) (auto simp: b)
  have "next (header sz u prv (if bs = [] then 0 else p + sz)) = next (header sz' u' prv (if cs = [] then 0 else p + sz'))"
    by (rule arg_cong [OF hd])
  then have e: "bs = [] \<longleftrightarrow> cs = []" using nz conjunct1 [OF eq] by (simp add: header_def del: of_nat_add split: if_splits)
  have "cs = bs"
    by (rule Cons.IH [of p "p + sz"]) (use Cons.prems eq e in \<open>simp_all add: b c\<close>)
  then show ?case using eq by (simp add: b c)
qed

lemma heap_ok_unique: "heap_ok s bs \<Longrightarrow> heap_ok s bs' \<Longrightarrow> bs' = bs"
  by (rule chain_unique [of "mem s" 0 heap_start])
    (simp_all add: heap_ok_def heap_bounds)

definition store_byte :: "u64 \<Rightarrow> u8 \<Rightarrow> 'a heap_machine_scheme \<Rightarrow> 'a heap_machine_scheme" where
  "store_byte x v s = s\<lparr>mem := (mem s)(x := v)\<rparr>"

lemma store_byte_ok:
  assumes ok: "heap_ok s bs" and c: "c \<in> live heap_start bs" and x: "x \<in> payload c"
  shows "heap_ok (store_byte x v s) bs"
proof -
  obtain a sz where ca: "c = (a, sz)" by (cases c)
  note okD = heap_okD [OF ok]
  have "chain ((mem s)(x := v)) 0 heap_start bs 0 = chain (mem s) 0 heap_start bs 0"
  proof (rule chain_cong, rule load_block_cong)
    fix q
    assume "q \<in> addrs heap_start bs"
    then show "agree_on (region (of_nat q) 32) (mem s) ((mem s)(x := v))"
      using payload_headers [OF c [unfolded ca] okD(2,3)] x by (auto simp: agree_on_def ca)
  qed
  then show ?thesis using ok by (simp add: heap_ok_def store_byte_def)
qed

lemma live_disjoint:
  assumes "(a, sz) \<in> live p bs" and "(b, l) \<in> live p bs" and "(a, sz) \<noteq> (b, l)"
  shows "a + sz \<le> b \<or> b + l \<le> a"
proof -
  obtain i j where "i < length bs" "a = baddr p bs i" "sz = fst (bs ! i)"
    "j < length bs" "b = baddr p bs j" "l = fst (bs ! j)"
    using assms(1,2) by (auto simp: live_nth)
  then show ?thesis using baddr_mono [of i j bs p] baddr_mono [of j i bs p] assms(3) by (cases i j rule: linorder_cases) auto
qed

lemma payload_disjoint:
  assumes ok: "heap_ok s bs" and "b \<in> live heap_start bs" and "c \<in> live heap_start bs" and "b \<noteq> c"
  shows "payload b \<inter> payload c = {}"
proof -
  obtain a sz a' sz' where bc: "b = (a, sz)" "c = (a', sz')" by (cases b; cases c)
  note okD = heap_okD [OF ok]
  have r: "a + sz \<le> heap_start + span bs" "40 \<le> sz" "a' + sz' \<le> heap_start + span bs" "40 \<le> sz'"
    using live_range [of a sz heap_start bs] live_range [of a' sz' heap_start bs] assms okD by (auto simp: bc)
  have "a + sz \<le> a' \<or> a' + sz' \<le> a" using live_disjoint assms(2-4) unfolding bc by blast
  then show ?thesis unfolding payload_def bc fst_conv snd_conv
    by (intro region_of_nat_disjoint) (use r okD(3) in \<open>auto simp: heap_bounds\<close>)
qed

lemma kmalloc_law:
  assumes ok: "heap_ok s bs" and n: "unat n < 2 ^ 63"
  shows "\<exists>p s' bs'. kmalloc n s = Some (p, s') \<and> heap_ok s' bs' \<and> live heap_start bs \<subseteq> live heap_start bs' \<and>
    (\<forall>b \<in> live heap_start bs. agree_on (payload b) (mem s) (mem s'))"
proof -
  obtain r bs' where a: "amalloc (unat n) bs = (r, bs')" by fastforce
  obtain p s' where k: "kmalloc n s = Some (p, s')" "heap_ok s' bs'" "heap_step (addrs heap_start bs') s s'"
    using kmalloc_ok [OF ok n a] by blast
  have sub: "live heap_start bs \<subseteq> live heap_start bs'" by (rule amalloc_live [OF a heap_okD(2) [OF ok]])
  then show ?thesis using k heap_step_payload [OF k(3,2)] by blast
qed

lemma live_index: "(a, sz) \<in> live p bs \<Longrightarrow> \<exists>i < length bs. snd (bs ! i) \<and> a = baddr p bs i \<and> sz = fst (bs ! i)"
  by (auto simp: live_nth)

lemma kmfree_law:
  assumes ok: "heap_ok s bs" and b: "(a, sz) \<in> live heap_start bs"
  shows "\<exists>s' bs'. kmfree (of_nat (a + 32)) s = Some s' \<and> heap_ok s' bs' \<and>
    live heap_start bs' = live heap_start bs - {(a, sz)} \<and>
    (\<forall>b \<in> live heap_start bs. agree_on (payload b) (mem s) (mem s'))"
proof -
  obtain i where i: "i < length bs" "snd (bs ! i)" "a = baddr heap_start bs i" "sz = fst (bs ! i)"
    using live_index [OF b] by blast
  show ?thesis
    using kmfree_ok [OF ok i(1,2)] live_afree [OF heap_okD(2) [OF ok] i(1), of heap_start]
      heap_step_payload [OF _ ok] unfolding i(3,4) by blast
qed

interpretation kernel_store: block_store heap_ok "live heap_start" kmalloc kmfree store_byte mem
proof unfold_locales
  show "heap_ok s h \<Longrightarrow> heap_ok s h' \<Longrightarrow> h' = h" for s :: "'a heap_machine_scheme" and h h'
    by (rule heap_ok_unique)
next
  show "heap_ok s h \<Longrightarrow> b \<in> live heap_start h \<Longrightarrow> c \<in> live heap_start h \<Longrightarrow> b \<noteq> c \<Longrightarrow> payload b \<inter> payload c = {}"
    for s :: "'a heap_machine_scheme" and h b c by (rule payload_disjoint)
qed (rule kmalloc_law kmfree_law store_byte_ok; assumption | simp add: store_byte_def)+

end
