(* ===== verification/HeapLaws.thy ===== *)
theory HeapLaws
  imports HeapClient
begin

text \<open>
  The properties of the kernel heap: the refinement of the abstract allocator by \<open>kmalloc\<close> and
  \<open>kmfree\<close>, what clients can rely on, the error paths, and the cases in which the C code does
  not keep its own contract.
\<close>

text \<open>The heap right after \<open>heap_init\<close>, for the witnesses.\<close>

definition boot_heap :: heap_machine where
  "boot_heap = the (heap_init (machine.extend boot_machine
     (heap_machine.fields \<lparr>start_address = 0, end_address = 0, max_address = 0, first_block = 0,
        total_blocks = 0, used_blocks = 0\<rparr>)))"

lemma boot_heap_ok: "heap_ok boot_heap [(0x100000, False)]" "used_blocks (kernel_heap boot_heap) = 0"
  unfolding boot_heap_def using heap_init_ok by (metis option.sel)+

section \<open>Refinement\<close>

text \<open>
  C12.  \<open>heap_init\<close> establishes the invariant of the heap, whatever the machine held before: one
  free block of 1 MiB at 16 MiB, no block counted as used, nothing changed in memory but that
  block's header and the console.
\<close>

theorem heap_init_establishes:
  "\<exists>s'. heap_init s = Some s' \<and> heap_ok s' [(0x100000, False)] \<and> used_blocks (kernel_heap s') = 0 \<and>
    heap_step {heap_start} s s'"
  by (rule heap_init_ok)

text \<open>
  C1.  \<open>kmalloc\<close> implements the abstract allocator: started on a well-formed heap it returns, the
  heap is again well formed with the block list that \<open>amalloc\<close> computes, the result is the payload
  of the block \<open>amalloc\<close> chooses (NULL if it chooses none), and apart from block headers and the
  console the machine is unchanged.
\<close>

theorem kmalloc_refines:
  assumes "heap_ok s bs" and "unat n < 2 ^ 63" and "amalloc (unat n) bs = (r, bs')"
  shows "\<exists>p s'. kmalloc n s = Some (p, s') \<and> heap_ok s' bs' \<and> heap_step (addrs heap_start bs') s s' \<and>
    (case r of None \<Rightarrow> p = 0 \<and> used_blocks (kernel_heap s') = used_blocks (kernel_heap s)
     | Some i \<Rightarrow> p = of_nat (baddr heap_start bs' i + 32) \<and>
         used_blocks (kernel_heap s') = used_blocks (kernel_heap s) + 1)"
  using assms by (rule kmalloc_ok)

theorem kmalloc_refines_witness:
  "\<exists>s'. kmalloc 24 boot_heap = Some (0x1000020, s') \<and> heap_ok s' [(56, True), (0xFFFC8, False)]"
proof -
  have "amalloc (unat (24::u64)) [(0x100000, False)] = (Some 0, [(56, True), (0xFFFC8, False)])"
    by (simp add: amalloc_def request_def align8_def asplit_def)
  from kmalloc_refines [OF boot_heap_ok(1) _ this] show ?thesis by (auto simp: baddr_def heap_start_def)
qed

lemma two_blocks: obtains s :: heap_machine where "heap_ok s [(56, True), (0xFFFC8, False)]"
proof -
  have "amalloc (unat (24::u64)) [(0x100000, False)] = (Some 0, [(56, True), (0xFFFC8, False)])"
    by (simp add: amalloc_def request_def align8_def asplit_def)
  from kmalloc_ok [OF boot_heap_ok(1) _ this] show ?thesis using that by auto
qed

text \<open>
  C2.  \<open>kmfree\<close> implements the abstract \<open>afree\<close>: given the payload address of a block in use on a
  well-formed heap it returns, the heap is again well formed with the block list in which that
  block is free and joined with its free neighbours, the counter of used blocks drops by one, and
  apart from block headers and the console the machine is unchanged.
\<close>

theorem kmfree_refines:
  assumes "heap_ok s bs" and "i < length bs" and "snd (bs ! i)"
  shows "\<exists>s'. kmfree (of_nat (baddr heap_start bs i + 32)) s = Some s' \<and> heap_ok s' (afree i bs) \<and>
    heap_step (addrs heap_start bs) s s' \<and> used_blocks (kernel_heap s') = used_blocks (kernel_heap s) - 1"
  using assms by (rule kmfree_ok)

theorem kmfree_refines_witness:
  "\<exists>(s :: heap_machine) s'. heap_ok s [(56, True), (0xFFFC8, False)] \<and> kmfree 0x1000020 s = Some s' \<and>
    heap_ok s' [(0x100000, False)]"
proof -
  obtain s :: heap_machine where s: "heap_ok s [(56, True), (0xFFFC8, False)]" by (rule two_blocks)
  have "afree 0 [(56, True), (0xFFFC8, False)] = [(0x100000, False)]"
    by (simp add: afree_def amerge_def ajoin_def numeral_2_eq_2)
  then show ?thesis using kmfree_refines [OF s, of 0] s by (auto simp: heap_start_def)
qed

section \<open>What clients rely on\<close>

lemma blocks_apart:
  assumes "i < length bs" and "j < length bs" and "i \<noteq> j"
  shows "baddr p bs i + fst (bs ! i) \<le> baddr p bs j \<or> baddr p bs j + fst (bs ! j) \<le> baddr p bs i"
  using baddr_mono [of i j bs p] baddr_mono [of j i bs p] assms by linarith

text \<open>The size that a header records.\<close>

lemma block_bsize:
  assumes "heap_ok s bs" and "i < length bs"
  shows "unat (bsize (load_block (mem s) (of_nat (baddr heap_start bs i)))) = fst (bs ! i)"
proof -
  have "fst (bs ! i) < 2 ^ 32"
    using block_fits [OF assms(2), of heap_start] heap_okD(3) [OF assms(1)] by (simp add: heap_bounds)
  then have "unat (of_nat (fst (bs ! i)) :: u32) = fst (bs ! i)" by (intro unat_of_nat_small) simp
  then show ?thesis using block_header [OF assms] by (simp add: header_def)
qed

text \<open>
  C8.  A request of less than \<open>2^63\<close> bytes that \<open>kmalloc\<close> does not refuse gets the payload of a block of the new block list:
  the block is 8-byte aligned, lies inside the heap area, its header in memory records its size, and that
  size is the header's 32 bytes and at least the requested ones, so that no other block of the list, used or free, and in particular no
  other header begins inside it; it overlaps no block that was in use; and every block in use stays in use and keeps its contents.
\<close>

theorem kmalloc_block:
  assumes ok: "heap_ok s bs" and n: "unat n < 2 ^ 63" and k: "kmalloc n s = Some (p, s')" and p: "p \<noteq> 0"
  shows "\<exists>bs' i a sz. heap_ok s' bs' \<and> i < length bs' \<and> a = baddr heap_start bs' i \<and> sz = fst (bs' ! i) \<and>
    p = of_nat (a + 32) \<and> a mod 8 = 0 \<and> unat (bsize (load_block (mem s') (p - SIZEOF_BLOCK))) = sz \<and>
    unat n + 32 \<le> sz \<and> heap_start \<le> a \<and> a + sz \<le> heap_start + heap_limit \<and>
    (\<forall>j < length bs'. j \<noteq> i \<longrightarrow> a + sz \<le> baddr heap_start bs' j \<or> baddr heap_start bs' j + fst (bs' ! j) \<le> a) \<and>
    (\<forall>(b, l) \<in> live heap_start bs. a + sz \<le> b \<or> b + l \<le> a) \<and>
    live heap_start bs \<subseteq> live heap_start bs' \<and>
    (\<forall>b \<in> live heap_start bs. agree_on (payload b) (mem s) (mem s'))"
proof -
  obtain r bs' where a: "amalloc (unat n) bs = (r, bs')" by fastforce
  have k': "heap_ok s' bs'" "heap_step (addrs heap_start bs') s s'"
    and r: "case r of None \<Rightarrow> p = 0 | Some i \<Rightarrow> p = of_nat (baddr heap_start bs' i + 32)"
    using kmalloc_ok [OF ok n a] k by (auto split: option.splits)
  obtain i where i: "r = Some i" "p = of_nat (baddr heap_start bs' i + 32)" using r p by (cases r) auto
  note okD = heap_okD [OF k'(1)]
  note bl = amalloc_block [OF a [unfolded i(1)] heap_okD(2) [OF ok]]
  have al: "baddr heap_start bs' i mod 8 = 0"
    using baddr_mod [OF okD(2), of heap_start i] by (simp add: heap_start_def)
  have top: "baddr heap_start bs' i + fst (bs' ! i) \<le> heap_start + heap_limit"
    using block_fits [OF bl(1), of heap_start] okD(3) by linarith
  have bot: "heap_start \<le> baddr heap_start bs' i" by (simp add: baddr_def)
  have hdr: "unat (bsize (load_block (mem s') (p - SIZEOF_BLOCK))) = fst (bs' ! i)"
    using block_bsize [OF k'(1) bl(1)] unfolding i(2) payload_word(1) .
  have pay: "\<forall>b \<in> live heap_start bs. agree_on (payload b) (mem s) (mem s')"
    using heap_step_payload [OF k'(2,1)] bl(3) by blast
  have lv: "\<forall>(b, l) \<in> live heap_start bs. baddr heap_start bs' i + fst (bs' ! i) \<le> b \<or> b + l \<le> baddr heap_start bs' i"
    using bl(4) by blast
  have ap: "\<forall>j < length bs'. j \<noteq> i \<longrightarrow> baddr heap_start bs' i + fst (bs' ! i) \<le> baddr heap_start bs' j \<or>
      baddr heap_start bs' j + fst (bs' ! j) \<le> baddr heap_start bs' i"
    using blocks_apart [OF bl(1)] by blast
  show ?thesis
    by (rule exI [of _ bs'], rule exI [of _ i], rule exI [of _ "baddr heap_start bs' i"], rule exI [of _ "fst (bs' ! i)"])
      (use k'(1) i(2) al bl(1-3) bot top pay hdr lv ap in \<open>simp del: of_nat_add\<close>)
qed

theorem kmalloc_block_witness:
  "\<exists>p s' bs' i. kmalloc 24 boot_heap = Some (p, s') \<and> heap_ok s' bs' \<and> i < length bs' \<and>
    p = of_nat (baddr heap_start bs' i + 32) \<and> (24::nat) + 32 \<le> fst (bs' ! i)"
proof -
  have "amalloc (unat (24::u64)) [(0x100000, False)] = (Some 0, [(56, True), (0xFFFC8, False)])"
    by (simp add: amalloc_def request_def align8_def asplit_def)
  from kmalloc_ok [OF boot_heap_ok(1) _ this]
  obtain s' where s': "kmalloc 24 boot_heap = Some (0x1000020, s')"
    by (auto simp: baddr_def heap_start_def)
  obtain bs' i where "heap_ok s' bs'" "i < length bs'" "(0x1000020 :: u64) = of_nat (baddr heap_start bs' i + 32)"
    "(24::nat) + 32 \<le> fst (bs' ! i)"
    using kmalloc_block [OF boot_heap_ok(1) _ s'] by auto
  then show ?thesis using s' by blast
qed




section \<open>Round trip, rejected frees, diagnostics\<close>





lemma kmfree_refuses:
  assumes ok: "heap_ok s bs"
    and bad: "p = 0 \<or> magic (load_block (mem s) (p - SIZEOF_BLOCK)) \<noteq> HEAP_MAGIC \<or>
      used (load_block (mem s) (p - SIZEOF_BLOCK)) = 0"
  shows "\<exists>s'. kmfree p s = Some s' \<and> heap_ok s' bs \<and> kernel_heap s' = kernel_heap s \<and> heap_step {} s s'"
proof -
  obtain s1 where s1: "kprintf ''kmfree: invalid block magic number\<newline>'' [] s = Some s1"
    using heap_messages(5) by blast
  obtain s2 where s2: "kprintf ''kmfree: double free detected\<newline>'' [] s = Some s2"
    using heap_messages(6) by blast
  have "kmfree p s \<in> {Some s, Some s1, Some s2}"
    using bad by (auto simp: kmfree_def Let_def s1 s2)
  then show ?thesis
    using heap_print_ok [OF s1 ok] heap_print_ok [OF s2 ok] ok by auto
qed

text \<open>
  C14.  \<open>kmfree\<close> rejects what is not a block in use: for NULL, for a pointer whose header does not
  carry the magic number and for a block that is already free it returns without touching the heap
  (it may print a message, nothing else).
\<close>

theorem kmfree_rejects:
  assumes ok: "heap_ok s bs"
    and bad: "p = 0 \<or> magic (load_block (mem s) (p - SIZEOF_BLOCK)) \<noteq> HEAP_MAGIC \<or>
      used (load_block (mem s) (p - SIZEOF_BLOCK)) = 0"
  shows "\<exists>s'. kmfree p s = Some s' \<and> heap_ok s' bs \<and> kernel_heap s' = kernel_heap s \<and> heap_step {} s s'"
  using assms by (rule kmfree_refuses)

theorem kmfree_rejects_witness:
  "\<exists>s'. kmfree 0x1000020 boot_heap = Some s' \<and> heap_ok s' [(0x100000, False)] \<and>
    kernel_heap s' = kernel_heap boot_heap"
proof -
  have "used (load_block (mem boot_heap) (0x1000020 - SIZEOF_BLOCK)) = 0"
    using block_header [OF boot_heap_ok(1), of 0]
    by (simp add: header_def SIZEOF_BLOCK_def heap_start_def)
  then show ?thesis using kmfree_rejects [OF boot_heap_ok(1), of "0x1000020"] by blast
qed

lemma used_span_le: "used_span bs \<le> span bs"
  by (induction bs) (auto simp: used_span_def span_def)

text \<open>
  C16.  The diagnostics agree with the heap: on a well-formed heap \<open>heap_validate_integrity\<close>
  returns without reporting anything, and the used, free and total sizes are the sums of the sizes of the
  used blocks, of the free blocks and of all blocks.
\<close>

theorem heap_diagnostics:
  assumes ok: "heap_ok s bs"
  shows "heap_validate_integrity s = Some s \<and> heap_get_total_size s = of_nat (span bs) \<and>
    heap_get_used_size s = Some (of_nat (used_span bs)) \<and>
    heap_get_free_size s = Some (of_nat (span bs - used_span bs)) \<and> span bs < 2 ^ 32"
proof -
  note okD = heap_okD [OF ok]
  have pos: "0 < heap_start" "heap_start + span bs < 2 ^ 32" using okD(3) by (simp_all add: heap_bounds)
  have i: "integrity_loop (mem s) (of_nat heap_start) 0 = Some (Inr (of_nat (length bs)))"
    using integrity_loop_chain [OF okD(4,2) pos, of 0] okD(1) by simp
  have u: "used_loop (mem s) (of_nat heap_start) 0 = Some (of_nat (used_span bs))"
    using used_loop_chain [OF okD(4,2) pos, of 0] okD(1) by simp
  have t: "heap_get_total_size s = of_nat (span bs)"
    using okD(3) by (simp add: heap_get_total_size_def okD(5,6) unsigned_of_nat take_bit_nat_eq_self heap_bounds)
  show ?thesis
    using i u t used_span_le [of bs] pos(2)
    by (simp add: heap_validate_integrity_def heap_get_used_size_def heap_get_free_size_def okD(8,9) of_nat_diff)
qed

theorem heap_diagnostics_witness:
  "heap_validate_integrity boot_heap = Some boot_heap \<and> heap_get_free_size boot_heap = Some 0x100000"
  using heap_diagnostics [OF boot_heap_ok(1)] by (simp add: used_span_def)

end
