(* ===== verification/HeapLimits.thy ===== *)
theory HeapLimits
  imports HeapLaws
begin

text \<open>
  Where \<open>mem/heap.c\<close> does not do what an allocator should: blocks handed out without being marked,
  growth that never satisfies the request it was made for, and sizes that wrap around.
\<close>

section \<open>A block that is not split is not marked as used\<close>

text \<open>
  C37.  When the first block that fits is less than 64 bytes larger than needed,
  \<open>heap_split_block\<close> returns before it sets the flag: the next \<open>kmalloc\<close> of the same size returns the same
  pointer again, the block list never changes, and freeing the pointer is refused as a double
  free, so the counter of used blocks is never lowered again.
\<close>

theorem kmalloc_unsplit_twice:
  assumes ok: "heap_ok s bs" and n: "n \<noteq> 0" "unat n < 2 ^ 63"
    and f: "afind (request (unat n)) bs = Some i" and small: "fst (bs ! i) < request (unat n) + 64"
  shows "\<exists>p s1 s2. kmalloc n s = Some (p, s1) \<and> kmalloc n s1 = Some (p, s2) \<and> p \<noteq> 0 \<and> heap_ok s2 bs \<and>
    used_blocks (kernel_heap s2) = used_blocks (kernel_heap s) + 2 \<and>
    kmfree p s2 = kprintf ''kmfree: double free detected\<newline>'' [] s2"
proof -
  have i: "i < length bs" "\<not> snd (bs ! i)" using afind_Some [OF f] by auto
  have a: "amalloc (unat n) bs = (Some i, bs)"
    using n(1) f small by (simp add: amalloc_def unat_eq_0 asplit_def)
  let ?p = "of_nat (baddr heap_start bs i + 32) :: u64"
  obtain s1 where s1: "kmalloc n s = Some (?p, s1)" "heap_ok s1 bs"
    "used_blocks (kernel_heap s1) = used_blocks (kernel_heap s) + 1"
    using kmalloc_ok [OF ok n(2) a] by auto
  obtain s2 where s2: "kmalloc n s1 = Some (?p, s2)" "heap_ok s2 bs"
    "used_blocks (kernel_heap s2) = used_blocks (kernel_heap s1) + 1"
    using kmalloc_ok [OF s1(2) n(2) a] by auto
  have "kmfree ?p s2 = kprintf ''kmfree: double free detected\<newline>'' [] s2"
    using block_header [OF s2(2) i(1)] i(2) payload_nonzero [OF s2(2) i(1)]
    by (simp add: kmfree_def Let_def payload_word header_def del: of_nat_add)
  then show ?thesis using s1 s2 payload_nonzero [OF ok i(1)] by auto
qed

theorem kmalloc_unsplit_twice_witness:
  "\<exists>p s1 s2. kmalloc 0xFFFC8 boot_heap = Some (p, s1) \<and> kmalloc 0xFFFC8 s1 = Some (p, s2) \<and> p \<noteq> 0"
proof -
  have "afind (request (unat (0xFFFC8 :: u64))) [(0x100000, False)] = Some 0"
    by (simp add: request_def align8_def)
  from kmalloc_unsplit_twice [OF boot_heap_ok(1) _ _ this] show ?thesis
    by (auto simp: request_def align8_def)
qed

section \<open>Growth\<close>

text \<open>
  C38.  \<open>heap_expand_heap\<close> adds the size of the request without the header that goes with it:
  a request of more than 4064 bytes that no free block satisfies fails even when the heap may grow,
  and every such failed call uses up heap space.
\<close>

theorem kmalloc_growth_fails:
  assumes ok: "heap_ok s bs" and n: "4064 < unat n" "unat n < 2 ^ 63"
    and f: "afind (request (unat n)) bs = None" and room: "span bs + align8 (max 4096 (unat n)) \<le> heap_limit"
  shows "\<exists>s'. kmalloc n s = Some (0, s') \<and>
    heap_ok s' (bs @ [(align8 (max 4096 (unat n)), False)])"
proof -
  have al: "max 4096 (align8 (unat n)) = align8 (max 4096 (unat n))"
  proof (cases "unat n \<le> 4096")
    case True
    then have "align8 (unat n) \<le> 4096" by (simp add: align8_def)
    then show ?thesis using True by (simp add: align8_def max_def)
  next
    case False
    then show ?thesis using align8_bounds(1) [of "unat n"] by (simp add: max_def)
  qed
  have lt: "max 4096 (align8 (unat n)) < request (unat n)"
    using n(1) align8_bounds(1) [of "unat n"] align8_add32 [of "unat n"] by (simp add: request_def)
  have ex: "aexpand (unat n) bs = bs @ [(align8 (max 4096 (unat n)), False)]"
    using room al by (simp add: aexpand_def Let_def)
  have "afind (request (unat n)) (bs @ [(align8 (max 4096 (unat n)), False)]) = None"
    using f lt al by (simp add: afind_append)
  then have "amalloc (unat n) bs = (None, bs @ [(align8 (max 4096 (unat n)), False)])"
    using n(1) f ex by (simp add: amalloc_def)
  from kmalloc_ok [OF ok n(2) this] show ?thesis by auto
qed

theorem kmalloc_growth_fails_witness:
  "\<exists>s'. kmalloc 0x200000 boot_heap = Some (0, s') \<and> heap_ok s' [(0x100000, False), (0x200000, False)]"
proof -
  have "afind (request (unat (0x200000 :: u64))) [(0x100000, False)] = None"
    by (simp add: request_def align8_def)
  from kmalloc_growth_fails [OF boot_heap_ok(1) _ _ this] show ?thesis
    by (auto simp: heap_limit_def align8_def)
qed

section \<open>Sizes that wrap around\<close>

lemma request_word_max: "HEAP_ALIGN (-1 + SIZEOF_BLOCK) = of_nat 32"
  using HEAP_ALIGN_of_nat [of 31] by (simp add: SIZEOF_BLOCK_def align8_def)

text \<open>
  C39.  Adding the header size wraps around: a request for \<open>SIZE_MAX\<close> bytes is not refused but
  satisfied with the first free block; when that block is split the part handed out is 32 bytes long,
  the header alone, so the payload is empty.
\<close>

theorem kmalloc_size_wraps:
  assumes ok: "heap_ok s bs" and f: "afind 32 bs = Some i" and big: "96 \<le> fst (bs ! i)"
  shows "\<exists>s'. kmalloc (-1) s = Some (of_nat (baddr heap_start bs i + 32), s') \<and>
    of_nat (baddr heap_start bs i + 32) \<noteq> (0 :: u64) \<and>
    bsize (load_block (mem s') (of_nat (baddr heap_start bs i))) = 32"
proof -
  let ?a = "baddr heap_start bs i"
  note okD = heap_okD [OF ok]
  have i: "i < length bs" "\<not> snd (bs ! i)" using afind_Some [OF f] by auto
  have top: "heap_start + span bs + 64 \<le> 2 ^ 32" using okD(3) by (simp add: heap_bounds)
  have "find_loop (mem s) (if bs = [] then 0 else of_nat heap_start) (of_nat 32) = Some (of_nat ?a)"
    using find_loop_chain [OF okD(4,2), of 32] top by (simp add: f heap_start_def)
  then have find: "heap_find_free_block (-1) s = Some (of_nat ?a)"
    unfolding heap_find_free_block_def Let_def request_word_max okD(8) using okD(1) by simp
  obtain prv nx where hdr: "load_block (mem s) (of_nat ?a) = header (fst (bs ! i)) False prv nx"
    "nx = 0 \<or> nx = ?a + fst (bs ! i)"
    using block_header [OF ok i(1)] i by (simp add: baddr_Suc split: if_splits)
  have fits: "?a + fst (bs ! i) + 64 \<le> 2 ^ 32" using block_fits [OF i(1), of heap_start] top by linarith
  have sz: "32 + 64 \<le> fst (bs ! i)" using big by simp
  note split = heap_split_block_step [OF hdr(1) request_word_max sz order_refl fits hdr(2)]
  have low: "low ?a" "low (?a + 32)" "apart (?a + 32) ?a" "nx \<noteq> 0 \<Longrightarrow> low nx \<and> apart nx ?a"
    using fits sz hdr(2) by (auto simp: low_def apart_def)
  obtain s1 where s1: "heap_split_block (of_nat ?a) (-1) s = (of_nat ?a, s1)"
    "bsize (load_block (mem s1) (of_nat ?a)) = 32"
    using split low by (cases "nx = 0") (simp_all del: of_nat_add)
  have "kmalloc (-1) s = Some (of_nat (?a + 32),
      s1\<lparr>kernel_heap := (kernel_heap s1)\<lparr>used_blocks := used_blocks (kernel_heap s1) + 1\<rparr>\<rparr>)"
    using baddr_nonzero [OF ok i(1)] s1(1) by (simp add: kmalloc_def find SIZEOF_BLOCK_def add.commute Let_def)
  then show ?thesis using payload_nonzero [OF ok i(1)] s1(2) by auto
qed

theorem kmalloc_size_wraps_witness:
  "\<exists>s'. kmalloc (-1) boot_heap = Some (0x1000020, s') \<and> bsize (load_block (mem s') 0x1000000) = 32"
  using kmalloc_size_wraps [OF boot_heap_ok(1), of 0] by (auto simp: heap_start_def)

text \<open>
  The limit check of \<open>heap_expand_heap\<close> wraps around as well: asked to grow by
  \<open>2^64 - 0x1000000\<close> bytes (with the heap still below 16 MiB) it does not report that the maximum would be exceeded but moves the end of
  the heap below its start, to the address \<open>span bs\<close>, and the heap is no longer well formed.
\<close>

theorem heap_expand_wraps:
  assumes ok: "heap_ok s bs" and low: "span bs < heap_start"
  shows "\<exists>s'. heap_expand_heap (- of_nat heap_start) s = Some s' \<and>
    end_address (kernel_heap s') = of_nat (span bs) \<and> (\<forall>bs'. \<not> heap_ok s' bs')"
proof -
  note okD = heap_okD [OF ok]
  let ?n = "- of_nat heap_start :: u64"
  let ?e = "heap_start + span bs"
  have n: "unat ?n = 2 ^ 64 - heap_start" by (simp add: heap_start_def)
  have al: "HEAP_ALIGN ?n = ?n" by (simp add: HEAP_ALIGN_def heap_start_def)
  have word: "(if HEAP_ALIGN ?n < HEAP_BLOCK_SIZE then HEAP_BLOCK_SIZE else HEAP_ALIGN ?n) = ?n"
    unfolding al by (simp add: HEAP_BLOCK_SIZE_def heap_start_def)
  have e': "of_nat ?e + ?n = of_nat (span bs)" by simp
  have nt: "\<not> max_address (kernel_heap s) < of_nat (span bs)"
    using okD(3,7) of_nat_le_iff_u64 [of "span bs" "heap_start + heap_limit"]
    by (simp add: heap_bounds not_less del: of_nat_add)
  have top: "heap_start + span bs + 64 \<le> 2 ^ 32" using okD(3) by (simp add: heap_bounds)
  have pos: "0 < heap_start" by (simp add: heap_start_def)
  obtain k where c32: "ucast ?n = (of_nat k :: u32)" by (metis of_nat_unat ucast_id)
  note chain = expand_chain(1) [OF okD(4,2,1) pos top, where es = k]
  obtain m where eq: "heap_expand_heap ?n s = kprintf ''heap expanded by %zu bytes, new end: 0x%llx\<newline>''
        [?n, of_nat (span bs)] (s\<lparr>mem := m, kernel_heap := (kernel_heap s)
          \<lparr>end_address := of_nat (span bs), total_blocks := total_blocks (kernel_heap s) + 1\<rparr>\<rparr>)"
    using chain unfolding heap_expand_heap_def Let_def word okD(6,8) e' if_not_P [OF nt] c32
    by (simp add: e' del: of_nat_add add_uminus_conv_diff)
  let ?s = "s\<lparr>mem := m, kernel_heap := (kernel_heap s)
          \<lparr>end_address := of_nat (span bs), total_blocks := total_blocks (kernel_heap s) + 1\<rparr>\<rparr>"
  obtain s' where pr: "kprintf ''heap expanded by %zu bytes, new end: 0x%llx\<newline>'' [?n, of_nat (span bs)] ?s = Some s'"
    using heap_messages(3) by blast
  have s': "heap_expand_heap ?n s = Some s'" "end_address (kernel_heap s') = of_nat (span bs)"
    using eq pr con_frame_kernel_heap [OF con_frame_kprintf [OF pr]] by simp_all
  have "\<not> heap_ok s' bs'" for bs'
  proof
    assume "heap_ok s' bs'"
    from heap_okD(6) [OF this] heap_okD(3) [OF this]
    have w: "(of_nat (span bs) :: u64) = of_nat (heap_start + span bs')" and "span bs' \<le> heap_limit"
      using s'(2) by simp_all
    then have "span bs = heap_start + span bs'"
      using okD(3) of_nat_inj_small [of "span bs" "heap_start + span bs'", where 'a = 64] by (simp add: heap_bounds)
    then show False using low by simp
  qed
  then show ?thesis using s' by blast
qed

theorem heap_expand_wraps_witness:
  "\<exists>s'. heap_expand_heap (- 0x1000000) boot_heap = Some s' \<and> end_address (kernel_heap s') = 0x100000"
  using heap_expand_wraps [OF boot_heap_ok(1)] by (auto simp: heap_start_def)

end
