(* ===== verification/Strings.thy ===== *)
theory Strings
  imports CString Heap "HOL-Library.Signed_Division"
begin

text \<open>
  The functions of \<open>libc/string.c\<close> on NUL-terminated strings, on the byte memory.  \<open>char\<close> is
  signed, \<open>int\<close> arithmetic that overflows is undefined (\<open>None\<close>), and so is a loop that never stops.
  An index of type \<open>int\<close> is an \<open>int\<close> here; the pointer it is added to wraps.  The functions that
  allocate take the whole machine with the heap.
\<close>

section \<open>Length and copying\<close>

partial_function (option) strlen_loop :: "memory \<Rightarrow> u64 \<Rightarrow> int \<Rightarrow> int option" where
  "strlen_loop m s i =
    (if m (s + of_int i) \<noteq> 0 then do { i \<leftarrow> c_int (i + 1); strlen_loop m s i } else Some i)"

definition strlen :: "memory \<Rightarrow> u64 \<Rightarrow> int option" where
  "strlen m s = strlen_loop m s 0"

text \<open>\<open>while ((*ptr++ = *src++) != 0)\<close>, also the second loop of \<open>strcat\<close>.\<close>

partial_function (option) strcpy_loop :: "memory \<Rightarrow> u64 \<Rightarrow> u64 \<Rightarrow> memory option" where
  "strcpy_loop m ptr src =
    (let m' = m(ptr := m src) in if m src \<noteq> 0 then strcpy_loop m' (ptr + 1) (src + 1) else Some m')"

definition strcpy :: "memory \<Rightarrow> u64 \<Rightarrow> u64 \<Rightarrow> (u64 \<times> memory) option" where
  "strcpy m dest src = do { m \<leftarrow> strcpy_loop m dest src; Some (dest, m) }"

lemma word_loop_measure: "(i :: u64) < n \<Longrightarrow> unat (n - (i + 1)) < unat (n - i)"
proof -
  assume "i < n"
  then have "n - i \<noteq> 0" by simp
  moreover have "n - (i + 1) = n - i - 1" by simp
  ultimately show ?thesis by (metis unat_pred_64 unat_pos_64 diff_less zero_less_one)
qed

function strncpy_copy :: "memory \<Rightarrow> u64 \<Rightarrow> u64 \<Rightarrow> u64 \<Rightarrow> u64 \<Rightarrow> memory \<times> u64" where
  "strncpy_copy m dest src i n =
    (if i < n \<and> m (src + i) \<noteq> 0 then strncpy_copy (m(dest + i := m (src + i))) dest src (i + 1) n
     else (m, i))"
  by pat_completeness auto
termination
  by (relation "measure (\<lambda>(m, dest, src, i, n). unat (n - i))") (auto intro: word_loop_measure)

function strncpy_pad :: "memory \<Rightarrow> u64 \<Rightarrow> u64 \<Rightarrow> u64 \<Rightarrow> memory" where
  "strncpy_pad m dest i n = (if i < n then strncpy_pad (m(dest + i := 0)) dest (i + 1) n else m)"
  by pat_completeness auto
termination
  by (relation "measure (\<lambda>(m, dest, i, n). unat (n - i))") (auto intro: word_loop_measure)

declare strncpy_copy.simps [simp del] strncpy_pad.simps [simp del]

definition strncpy :: "memory \<Rightarrow> u64 \<Rightarrow> u64 \<Rightarrow> u64 \<Rightarrow> u64 \<times> memory" where
  "strncpy m dest src n =
    (let (m, i) = strncpy_copy m dest src 0 n in (dest, strncpy_pad m dest i n))"

definition strncat :: "memory \<Rightarrow> u64 \<Rightarrow> u8 \<Rightarrow> memory option" where
  "strncat m s c = do {
     len \<leftarrow> strlen m s;
     let m = m(s + of_int len := c);
     len1 \<leftarrow> c_int (len + 1);
     Some (m(s + of_int len1 := 0)) }"

partial_function (option) find_end :: "memory \<Rightarrow> u64 \<Rightarrow> u64 option" where
  "find_end m s = (if m s \<noteq> 0 then find_end m (s + 1) else Some s)"

definition strcat :: "memory \<Rightarrow> u64 \<Rightarrow> u64 \<Rightarrow> (u64 \<times> memory) option" where
  "strcat m s appended = do { e \<leftarrow> find_end m s; m \<leftarrow> strcpy_loop m e appended; Some (s, m) }"

definition join :: "memory \<Rightarrow> u64 \<Rightarrow> u8 \<Rightarrow> memory option" where
  "join m s n = do {
     len \<leftarrow> strlen m s;
     let m = m(s + of_int len := n);
     len1 \<leftarrow> c_int (len + 1);
     Some (m(s + of_int len1 := 0)) }"

definition strnlen :: "memory \<Rightarrow> u64 \<Rightarrow> u64 \<Rightarrow> u64" where
  "strnlen m s maxlen =
    of_nat (length (takeWhile (\<lambda>i. m (s + of_nat i) \<noteq> 0) [0 ..< unat maxlen]))"

section \<open>Comparison\<close>

partial_function (option) strcmp_loop :: "memory \<Rightarrow> u64 \<Rightarrow> u64 \<Rightarrow> int \<Rightarrow> int option" where
  "strcmp_loop m s1 s2 i =
    (let a = m (s1 + of_int i); b = m (s2 + of_int i) in
     if a = b then (if a = 0 then Some 0 else do { i \<leftarrow> c_int (i + 1); strcmp_loop m s1 s2 i })
     else Some (sint a - sint b))"

definition strcmp :: "memory \<Rightarrow> u64 \<Rightarrow> u64 \<Rightarrow> int option" where
  "strcmp m s1 s2 = strcmp_loop m s1 s2 0"

primrec strncmp_loop :: "memory \<Rightarrow> u64 \<Rightarrow> u64 \<Rightarrow> nat \<Rightarrow> int" where
  "strncmp_loop m s1 s2 0 = 0"
| "strncmp_loop m s1 s2 (Suc n) =
    (if m s1 \<noteq> m s2 then uint (m s1) - uint (m s2)
     else if m s1 = 0 then 0 else strncmp_loop m (s1 + 1) (s2 + 1) n)"

definition strncmp :: "memory \<Rightarrow> u64 \<Rightarrow> u64 \<Rightarrow> u64 \<Rightarrow> int" where
  "strncmp m s1 s2 n = strncmp_loop m s1 s2 (unat n)"

partial_function (option) startsWith_loop :: "memory \<Rightarrow> u64 \<Rightarrow> u64 \<Rightarrow> int \<Rightarrow> int option" where
  "startsWith_loop m s1 s2 i =
    (if m (s2 + of_int i) \<noteq> 0 then
       (if m (s1 + of_int i) \<noteq> m (s2 + of_int i) then Some 0
        else do { i \<leftarrow> c_int (i + 1); startsWith_loop m s1 s2 i })
     else Some 1)"

definition startsWith :: "memory \<Rightarrow> u64 \<Rightarrow> u64 \<Rightarrow> int option" where
  "startsWith m s1 s2 = startsWith_loop m s1 s2 0"

text \<open>Character classes; \<open>tolower\<close> maps \<open>@\<close> (64) as well.\<close>

definition isdigit :: "int \<Rightarrow> bool" where
  "isdigit c \<longleftrightarrow> 48 \<le> c \<and> c \<le> 57"

definition isalpha :: "u8 \<Rightarrow> bool" where
  "isalpha c \<longleftrightarrow> (65 \<le> sint c \<and> sint c \<le> 90) \<or> (97 \<le> sint c \<and> sint c \<le> 122)"

definition tolower :: "u8 \<Rightarrow> u8" where
  "tolower s1 = (if 64 \<le> sint s1 \<and> sint s1 \<le> 90 then s1 + 32 else s1)"

partial_function (option) istrncmp :: "memory \<Rightarrow> u64 \<Rightarrow> u64 \<Rightarrow> int \<Rightarrow> int option" where
  "istrncmp m str1 str2 n =
    (if n = 0 then Some 0
     else do {
       n \<leftarrow> c_int (n - 1);
       let u1 = m str1; u2 = m str2 in
       if u1 \<noteq> u2 \<and> tolower u1 \<noteq> tolower u2 then Some (uint u1 - uint u2)
       else if u1 = 0 then Some 0
       else istrncmp m (str1 + 1) (str2 + 1) n
     })"

section \<open>Search\<close>

partial_function (option) strchr_loop :: "memory \<Rightarrow> u64 \<Rightarrow> int \<Rightarrow> u64 option" where
  "strchr_loop m str character =
    (if m str \<noteq> 0 then
       (if sint (m str) = character then Some str else strchr_loop m (str + 1) character)
     else if character = 0 then Some str else Some 0)"

definition strchr :: "memory \<Rightarrow> u64 \<Rightarrow> int \<Rightarrow> u64 option" where
  "strchr m str character = strchr_loop m str character"

partial_function (option) strrchr_loop :: "memory \<Rightarrow> u64 \<Rightarrow> u8 \<Rightarrow> u64 \<Rightarrow> u64 option" where
  "strrchr_loop m str c lst =
    (if m str \<noteq> 0 then strrchr_loop m (str + 1) c (if m str = c then str else lst) else Some lst)"

definition strrchr :: "memory \<Rightarrow> u64 \<Rightarrow> int \<Rightarrow> u64 option" where
  "strrchr m str character = strrchr_loop m str (of_int character) 0"

text \<open>\<open>contain\<close> never advances \<open>i\<close> and hands characters to \<open>strcmp\<close> as if they were pointers.\<close>

partial_function (option) contain_loop :: "memory \<Rightarrow> u64 \<Rightarrow> u8 \<Rightarrow> bool option" where
  "contain_loop m str c =
    (if m str \<noteq> 0 then do {
       r \<leftarrow> strcmp m (scast (m str)) (scast c);
       if r = 0 then Some True else contain_loop m str c }
     else Some False)"

definition contain :: "memory \<Rightarrow> u64 \<Rightarrow> u8 \<Rightarrow> bool option" where
  "contain m str c = contain_loop m str c"

section \<open>Changing a string in place\<close>

definition mem_set :: "memory \<Rightarrow> u64 \<Rightarrow> int \<Rightarrow> (u64 \<times> memory) option" where
  "mem_set m dest val = do {
     len \<leftarrow> strlen m dest;
     Some (dest, memset_loop m dest (of_int val) (nat len)) }"

text \<open>The loop condition of \<open>clearString\<close> is the assignment \<open>i = 0\<close>: the body never runs.\<close>

definition clearString :: "memory \<Rightarrow> u64 \<Rightarrow> memory option" where
  "clearString m str = do { i \<leftarrow> strlen m str; Some m }"

function reverse_loop :: "memory \<Rightarrow> u64 \<Rightarrow> int \<Rightarrow> int \<Rightarrow> memory" where
  "reverse_loop m s i j =
    (if i < j then
       let c = m (s + of_int i);
           m = m(s + of_int i := m (s + of_int j));
           m = m(s + of_int j := c)
       in reverse_loop m s (i + 1) (j - 1)
     else m)"
  by pat_completeness auto
termination
  by (relation "measure (\<lambda>(m, s, i, j). nat (j - i))") auto

declare reverse_loop.simps [simp del]

definition reverse :: "memory \<Rightarrow> u64 \<Rightarrow> memory option" where
  "reverse m s = do { len \<leftarrow> strlen m s; Some (reverse_loop m s 0 (len - 1)) }"

partial_function (option) strnone_loop :: "memory \<Rightarrow> u64 \<Rightarrow> int \<Rightarrow> memory option" where
  "strnone_loop m str i = do {
     len \<leftarrow> strlen m str;
     if i < len then strnone_loop (m(str + of_int i := 0)) str (i + 1) else Some m }"

definition strnone :: "memory \<Rightarrow> u64 \<Rightarrow> memory option" where
  "strnone m str = strnone_loop m str 0"

partial_function (option) remove_null_loop :: "memory \<Rightarrow> u64 \<Rightarrow> u64 \<Rightarrow> memory option" where
  "remove_null_loop m src dst =
    (if m src \<noteq> 0 then
       (if m src \<noteq> 0 then remove_null_loop (m(dst := m src)) (src + 1) (dst + 1)
        else remove_null_loop m (src + 1) dst)
     else Some (m(dst := 0)))"

definition remove_null_chars :: "memory \<Rightarrow> u64 \<Rightarrow> memory option" where
  "remove_null_chars m str = remove_null_loop m str str"

function strins_shift :: "memory \<Rightarrow> u64 \<Rightarrow> int \<Rightarrow> int \<Rightarrow> memory" where
  "strins_shift m str i pos =
    (if pos < i then strins_shift (m(str + of_int i := m (str + of_int (i - 1)))) str (i - 1) pos else m)"
  by pat_completeness auto
termination
  by (relation "measure (\<lambda>(m, str, i, pos). nat (i - pos))") auto

declare strins_shift.simps [simp del]

definition strins :: "memory \<Rightarrow> u64 \<Rightarrow> u8 \<Rightarrow> int \<Rightarrow> memory option" where
  "strins m str c pos = do {
     len \<leftarrow> strlen m str;
     let pos = (if len < pos then len else pos);
     let m = strins_shift m str len pos;
     let m = m(str + of_int pos := c);
     len1 \<leftarrow> c_int (len + 1);
     Some (m(str + of_int len1 := 0)) }"

end
