(* ===== verification/Numerals.thy ===== *)
theory Numerals
  imports Strings
begin

text \<open>
  Conversions between \<open>int\<close> and decimal text of \<open>libc/string.c\<close> (\<open>atoi\<close>, \<open>to_integer\<close>,
  \<open>intToString\<close>, \<open>itoa\<close>), the tokeniser \<open>strtok\<close>, and the functions that return freshly allocated memory
  (\<open>strdup\<close>, \<open>tostr\<close>, \<open>split\<close>, \<open>splitString\<close>).
\<close>

section \<open>Decimal numbers\<close>

definition is_blank :: "u8 \<Rightarrow> bool" where
  "is_blank c \<longleftrightarrow> c = 32 \<or> c = 9 \<or> c = 10"

definition digit_char :: "u8 \<Rightarrow> bool" where
  "digit_char c \<longleftrightarrow> 48 \<le> sint c \<and> sint c \<le> 57"

partial_function (option) atoi_blanks :: "memory \<Rightarrow> u64 \<Rightarrow> int \<Rightarrow> int option" where
  "atoi_blanks m str i =
    (if is_blank (m (str + of_int i)) then do { i \<leftarrow> c_int (i + 1); atoi_blanks m str i } else Some i)"

partial_function (option) atoi_digits :: "memory \<Rightarrow> u64 \<Rightarrow> int \<Rightarrow> int \<Rightarrow> int option" where
  "atoi_digits m str i result =
    (if digit_char (m (str + of_int i)) then do {
       r \<leftarrow> c_int (result * 10);
       result \<leftarrow> c_int (r + (sint (m (str + of_int i)) - 48));
       i \<leftarrow> c_int (i + 1);
       atoi_digits m str i result }
     else Some result)"

definition atoi :: "memory \<Rightarrow> u64 \<Rightarrow> int option" where
  "atoi m str = do {
     i \<leftarrow> atoi_blanks m str 0;
     let c = m (str + of_int i);
     let sign = (if c = ch CHR ''-'' then -1 else 1);
     i \<leftarrow> (if c = ch CHR ''-'' \<or> c = ch CHR ''+'' then c_int (i + 1) else Some i);
     result \<leftarrow> atoi_digits m str i 0;
     c_int (sign * result) }"

definition to_integer :: "memory \<Rightarrow> u64 \<Rightarrow> int option" where
  "to_integer m str = atoi m str"

text \<open>The \<open>do\<close> loop of \<open>intToString\<close>, entered with \<open>n\<close> not negative.\<close>

function intToString_loop :: "memory \<Rightarrow> u64 \<Rightarrow> int \<Rightarrow> int \<Rightarrow> memory \<times> int" where
  "intToString_loop m str i n =
    (let m = m(str + of_int i := of_int (n mod 10 + 48)); i = i + 1; n = n div 10
     in if n > 0 then intToString_loop m str i n else (m, i))"
  by pat_completeness auto
termination
  by (relation "measure (\<lambda>(m, str, i, n). nat n)") auto

declare intToString_loop.simps [simp del]

definition intToString :: "memory \<Rightarrow> int \<Rightarrow> u64 \<Rightarrow> memory option" where
  "intToString m n str = do {
     let sign = n;
     n \<leftarrow> (if sign < 0 then c_int (- n) else Some n);
     let (m, i) = intToString_loop m str 0 n;
     let (m, i) = (if sign < 0 then (m(str + of_int i := ch CHR ''-''), i + 1) else (m, i));
     let m = m(str + of_int i := 0);
     reverse m str }"

text \<open>\<open>%\<close> and \<open>/\<close> truncate toward zero; a zero base is undefined.\<close>

partial_function (option) itoa_loop :: "memory \<Rightarrow> u64 \<Rightarrow> int \<Rightarrow> int \<Rightarrow> int \<Rightarrow> (memory \<times> int) option" where
  "itoa_loop m str i value base =
    (if value \<noteq> 0 then
       (if base = 0 then None
        else do {
          let rem = value smod base;
          let m = m(str + of_int i := of_int (if rem > 9 then (rem - 10) + 65 else rem + 48));
          i \<leftarrow> c_int (i + 1);
          value \<leftarrow> c_int (value sdiv base);
          itoa_loop m str i value base })
     else Some (m, i))"

definition itoa :: "memory \<Rightarrow> int \<Rightarrow> u64 \<Rightarrow> int \<Rightarrow> memory option" where
  "itoa m value str base =
    (if value = 0 then Some (m(str := 48, str + 1 := 0))
     else do {
       let is_negative = (value < 0 \<and> base = 10);
       value \<leftarrow> (if is_negative then c_int (- value) else Some value);
       (m, i) \<leftarrow> itoa_loop m str 0 value base;
       let (m, i) = (if is_negative then (m(str + of_int i := ch CHR ''-''), i + 1) else (m, i));
       let m = m(str + of_int i := 0);
       reverse m str })"

section \<open>The tokeniser\<close>

partial_function (option) tok_skip :: "memory \<Rightarrow> u64 \<Rightarrow> u64 \<Rightarrow> u64 option" where
  "tok_skip m lst delimiters =
    (if m lst \<noteq> 0 then do {
       r \<leftarrow> strchr m delimiters (sint (m lst));
       if r \<noteq> 0 then tok_skip m (lst + 1) delimiters else Some lst }
     else Some lst)"

partial_function (option) tok_end :: "memory \<Rightarrow> u64 \<Rightarrow> u64 \<Rightarrow> u64 option" where
  "tok_end m lst delimiters =
    (if m lst \<noteq> 0 then do {
       r \<leftarrow> strchr m delimiters (sint (m lst));
       if r = 0 then tok_end m (lst + 1) delimiters else Some lst }
     else Some lst)"

text \<open>
  \<open>strtok m last_token str delimiters\<close>: the static variable \<open>last_token\<close> is an argument, and its
  new value is the second component of the result.
\<close>

definition strtok :: "memory \<Rightarrow> u64 \<Rightarrow> u64 \<Rightarrow> u64 \<Rightarrow> (u64 \<times> u64 \<times> memory) option" where
  "strtok m last_token str delimiters =
    (if str = 0 \<and> last_token = 0 then Some (0, last_token, m)
     else do {
       last_token \<leftarrow> tok_skip m (if str \<noteq> 0 then str else last_token) delimiters;
       if m last_token = 0 then Some (0, 0, m)
       else do {
         let token_start = last_token;
         last_token \<leftarrow> tok_end m last_token delimiters;
         if m last_token \<noteq> 0 then Some (token_start, last_token + 1, m(last_token := 0))
         else Some (token_start, 0, m) } })"

section \<open>Results on the heap\<close>

definition strdup :: "u64 \<Rightarrow> 'a heap_machine_scheme \<Rightarrow> (u64 \<times> 'a heap_machine_scheme) option" where
  "strdup str s = do {
     len \<leftarrow> strlen (mem s) str;
     len1 \<leftarrow> c_int (len + 1);
     (dup, s) \<leftarrow> malloc (of_int len1) s;
     if dup \<noteq> 0 then do {
       (_, m) \<leftarrow> strcpy (mem s) dup str;
       Some (dup, s\<lparr>mem := m\<rparr>) }
     else Some (dup, s) }"

function count_digits :: "int \<Rightarrow> int \<Rightarrow> int" where
  "count_digits temp num_digits =
    (let num_digits = num_digits + 1; temp = temp div 10
     in if temp > 0 then count_digits temp num_digits else num_digits)"
  by pat_completeness auto
termination
  by (relation "measure (\<lambda>(temp, n). nat temp)") auto

function tostr_fill :: "memory \<Rightarrow> u64 \<Rightarrow> int \<Rightarrow> int \<Rightarrow> int \<Rightarrow> memory" where
  "tostr_fill m str i is_negative value =
    (if i \<ge> 0 then
       tostr_fill (m(str + of_int (i + is_negative) := of_int (value mod 10 + 48))) str (i - 1)
         is_negative (value div 10)
     else m)"
  by pat_completeness auto
termination
  by (relation "measure (\<lambda>(m, str, i, neg, v). nat (i + 1))") auto

declare count_digits.simps [simp del] tostr_fill.simps [simp del]

definition tostr :: "int \<Rightarrow> 'a heap_machine_scheme \<Rightarrow> (u64 \<times> 'a heap_machine_scheme) option" where
  "tostr value s = do {
     let is_negative = (value < 0);
     let neg = of_bool is_negative;
     value \<leftarrow> (if is_negative then c_int (- value) else Some value);
     let num_digits = count_digits value 0;
     (str, s) \<leftarrow> malloc (of_int (num_digits + neg + 1)) s;
     if str = 0 then Some (0, s)
     else
       let m = (mem s)(str + of_int (num_digits + neg) := 0);
           m = tostr_fill m str (num_digits - 1) neg value;
           m = (if is_negative then m(str := ch CHR ''-'') else m)
       in Some (str, s\<lparr>mem := m\<rparr>) }"

text \<open>\<open>split\<close> counts the words, then copies each of them into a block of its own.\<close>

partial_function (option) skip_delims :: "memory \<Rightarrow> u64 \<Rightarrow> u8 \<Rightarrow> u64 option" where
  "skip_delims m ptr d = (if m ptr = d then skip_delims m (ptr + 1) d else Some ptr)"

partial_function (option) skip_word :: "memory \<Rightarrow> u64 \<Rightarrow> u8 \<Rightarrow> u64 option" where
  "skip_word m ptr d = (if m ptr \<noteq> 0 \<and> m ptr \<noteq> d then skip_word m (ptr + 1) d else Some ptr)"

partial_function (option) count_words :: "memory \<Rightarrow> u64 \<Rightarrow> u8 \<Rightarrow> int \<Rightarrow> int option" where
  "count_words m ptr d n =
    (if m ptr \<noteq> 0 then do {
       ptr \<leftarrow> skip_delims m ptr d;
       if m ptr \<noteq> 0 then do {
         n \<leftarrow> c_int (n + 1);
         ptr \<leftarrow> skip_word m ptr d;
         count_words m ptr d n }
       else count_words m ptr d n }
     else Some n)"

text \<open>The words allocated so far are freed when an allocation fails.\<close>

primrec free_words :: "u64 \<Rightarrow> nat \<Rightarrow> nat \<Rightarrow> 'a heap_machine_scheme \<Rightarrow> 'a heap_machine_scheme option" where
  "free_words result j 0 s = Some s"
| "free_words result j (Suc k) s = do {
     s \<leftarrow> mfree (rd64 (mem s) (result + 8 * of_nat j)) s;
     free_words result (Suc j) k s }"

partial_function (option) split_fill ::
  "u64 \<Rightarrow> u64 \<Rightarrow> int \<Rightarrow> u8 \<Rightarrow> 'a heap_machine_scheme \<Rightarrow> (bool \<times> 'a heap_machine_scheme) option" where
  "split_fill result ptr index d s =
    (if mem s ptr \<noteq> 0 then do {
       ptr \<leftarrow> skip_delims (mem s) ptr d;
       if mem s ptr \<noteq> 0 then do {
         let start = ptr;
         ptr \<leftarrow> skip_word (mem s) ptr d;
         let len = sint (ucast (ptr - start) :: u32);
         len1 \<leftarrow> c_int (len + 1);
         (w, s) \<leftarrow> malloc (of_int len1) s;
         let s = s\<lparr>mem := wr64 (mem s) (result + 8 * of_int index) w\<rparr>;
         if rd64 (mem s) (result + 8 * of_int index) = 0 then do {
           s \<leftarrow> free_words result 0 (nat index) s;
           s \<leftarrow> mfree result s;
           Some (False, s) }
         else do {
           let m = snd (strncpy (mem s) (rd64 (mem s) (result + 8 * of_int index)) start (of_int len));
           let m = m(rd64 m (result + 8 * of_int index) + of_int len := 0);
           split_fill result ptr (index + 1) d (s\<lparr>mem := m\<rparr>) } }
       else split_fill result ptr index d s }
     else Some (True, s))"

definition split :: "u64 \<Rightarrow> u64 \<Rightarrow> u8 \<Rightarrow> 'a heap_machine_scheme \<Rightarrow> (u64 \<times> 'a heap_machine_scheme) option" where
  "split str count d s = do {
     n \<leftarrow> count_words (mem s) str d 0;
     (result, s) \<leftarrow> malloc (of_int n * 8) s;
     if result = 0 then Some (0, s)
     else do {
       (ok, s) \<leftarrow> split_fill result str 0 d s;
       if ok then Some (result, s\<lparr>mem := wr32 (mem s) count (of_int n)\<rparr>)
       else Some (0, s) } }"

definition splitString :: "u64 \<Rightarrow> u64 \<Rightarrow> 'a heap_machine_scheme \<Rightarrow> (u64 \<times> 'a heap_machine_scheme) option" where
  "splitString str count s = split str count (ch CHR '' '') s"

end
