(* ===== verification/StringLaws.thy ===== *)
theory StringLaws
  imports Numerals HeapLaws
begin

text \<open>
  The contracts of the string functions on NUL-terminated strings: each function of
  \<open>libc/string.c\<close> treated here terminates on a string and computes what the list operation on its bytes
  computes.
\<close>

section \<open>Strings by index\<close>

lemma cstr_iff: "cstr m p bs \<longleftrightarrow> (\<forall>i < length bs. m (p + of_nat i) = bs ! i \<and> bs ! i \<noteq> 0) \<and> m (p + of_nat (length bs)) = 0"
proof (induction bs arbitrary: p)
  case (Cons b bs)
  then show ?case by (auto simp: All_less_Suc2 add.assoc)
qed simp

lemma cstr_take_drop: "cstr m p bs \<Longrightarrow> k \<le> length bs \<Longrightarrow> cstr m (p + of_nat k) (drop k bs)"
  by (auto simp: cstr_iff add.assoc of_nat_add [symmetric] simp del: of_nat_add)

lemma of_int_nat [simp]: "(of_int (int n) :: u64) = of_nat n"
  by simp

lemma INT_MAX_nat: "int n \<le> INT_MAX \<longleftrightarrow> n < 2 ^ 31"
  by (auto simp: INT_MAX_def)

lemma c_int_nat: "Suc n < 2 ^ 31 \<Longrightarrow> c_int (int n + 1) = Some (int (Suc n))"
  by (simp add: INT_MAX_def INT_MIN_def c_int_def)

lemma strlen_loop_cstr:
  assumes "cstr m (p + of_nat k) bs" and "k + length bs < 2 ^ 31"
  shows "strlen_loop m p (int k) = Some (int (k + length bs))"
  using assms
proof (induction bs arbitrary: k)
  case Nil
  then show ?case by (simp add: strlen_loop.simps)
next
  case (Cons b bs)
  have "strlen_loop m p (int (Suc k)) = Some (int (Suc k + length bs))"
    using Cons.prems by (intro Cons.IH) (simp_all add: ac_simps)
  then show ?case using Cons.prems c_int_nat [of k]
    by (subst strlen_loop.simps) (simp del: of_nat_Suc)
qed

lemma strlen_cstr: "cstr m p bs \<Longrightarrow> length bs < 2 ^ 31 \<Longrightarrow> strlen m p = Some (int (length bs))"
  using strlen_loop_cstr [of m p 0 bs] by (simp add: strlen_def)

section \<open>Copying\<close>

lemma strcpy_loop_cstr:
  assumes "cstr m s bs" and "Suc (length bs) \<le> unat (d - s)" and "Suc (length bs) < 2 ^ 64"
  shows "strcpy_loop m d s = Some (copy_up m d s (Suc (length bs)))"
  using assms
proof (induction bs arbitrary: m d s)
  case Nil
  then show ?case by (simp add: strcpy_loop.simps fun_upd_def)
next
  case (Cons b bs)
  have "agree_on (region (s + 1) (Suc (length bs))) m (m(d := m s))"
  proof -
    have "d \<notin> region s (Suc (Suc (length bs)))" using Cons.prems(2) by (simp add: region_def)
    then have "d \<notin> region (s + 1) (Suc (length bs))" using Cons.prems(3) by (subst (asm) region_Suc) auto
    then show ?thesis by (auto simp: agree_on_def)
  qed
  moreover have "cstr m (s + 1) bs" "length bs < 2 ^ 64" "m s \<noteq> 0" using Cons.prems(1,3) by simp_all
  ultimately have "cstr (m(d := m s)) (s + 1) bs" using cstr_agree by blast
  moreover have "Suc (length bs) \<le> unat (d + 1 - (s + 1))" using Cons.prems(2) by simp
  moreover have "Suc (length bs) < 2 ^ 64" using Cons.prems(3) by simp
  ultimately have "strcpy_loop (m(d := m s)) (d + 1) (s + 1) = Some (copy_up (m(d := m s)) (d + 1) (s + 1) (Suc (length bs)))"
    by (rule Cons.IH)
  then show ?case using Cons.prems(1) by (subst strcpy_loop.simps) (simp add: Let_def)
qed

lemma strcpy_ok:
  assumes "cstr m src bs" and "Suc (length bs) \<le> unat (dest - src)" and "Suc (length bs) < 2 ^ 64"
  shows "strcpy m dest src = Some (dest, copied m dest src (Suc (length bs)))"
  using strcpy_loop_cstr [OF assms] copy_up_copied [OF assms(3), of dest src m] assms(2) by (simp add: strcpy_def)

lemma copied_cstr:
  assumes "cstr m src bs" and "Suc (length bs) < 2 ^ 64"
  shows "cstr (copied m dest src (Suc (length bs))) dest bs"
  using assms copied_inside [OF assms(2), where d = dest and s = src and m = m] by (auto simp: cstr_iff)

text \<open>
  C33.  \<open>strcpy\<close> terminates on a NUL-terminated source and returns the destination; the destination
  then holds the source string with its NUL and no other byte has changed, as long as the destination
  does not start inside the source.
\<close>

theorem strcpy_copies:
  assumes "cstr m src bs" and "Suc (length bs) \<le> unat (dest - src)" and "Suc (length bs) < 2 ^ 64"
  shows "\<exists>m'. strcpy m dest src = Some (dest, m') \<and> cstr m' dest bs \<and> (\<forall>x. x \<notin> region dest (Suc (length bs)) \<longrightarrow> m' x = m x)"
  using strcpy_ok [OF assms] copied_cstr [OF assms(1,3), of dest] by simp

definition hello_memory :: memory where
  "hello_memory = (\<lambda>_. 0)(0x100 := ch CHR ''h'', 0x101 := ch CHR ''i'')"

theorem strcpy_copies_witness:
  "\<exists>m'. strcpy hello_memory 0x200 0x100 = Some (0x200, m') \<and> cstr m' 0x200 (lit ''hi'')"
  using strcpy_copies [of hello_memory "0x100" "lit ''hi''" "0x200"] by (auto simp: hello_memory_def)

section \<open>Comparison\<close>

text \<open>The value of \<open>strcmp\<close> on two strings: the difference, as signed characters, at the first position
  where they differ, the NUL included.\<close>

fun str_diff :: "u8 list \<Rightarrow> u8 list \<Rightarrow> int" where
  "str_diff [] [] = 0"
| "str_diff (a # as) [] = sint a"
| "str_diff [] (b # bs) = - sint b"
| "str_diff (a # as) (b # bs) = (if a = b then str_diff as bs else sint a - sint b)"

lemma sint_eq_0_iff: "sint (a :: u8) = 0 \<longleftrightarrow> a = 0"
  by (metis signed_0 signed_word_eqI)

lemma sint_inj: "sint (a :: u8) = sint b \<longleftrightarrow> a = b"
  by (metis signed_word_eqI)

lemma str_diff_eq_0: "0 \<notin> set as \<Longrightarrow> 0 \<notin> set bs \<Longrightarrow> str_diff as bs = 0 \<longleftrightarrow> as = bs"
  by (induction as bs rule: str_diff.induct) (auto simp: sint_eq_0_iff sint_inj)

lemma strcmp_loop_cstr:
  assumes "cstr m (s1 + of_nat k) as" and "cstr m (s2 + of_nat k) bs" and "k + length as < 2 ^ 31"
  shows "strcmp_loop m s1 s2 (int k) = Some (str_diff as bs)"
  using assms
proof (induction as bs arbitrary: k rule: str_diff.induct)
  case (4 a as b bs)
  have "strcmp_loop m s1 s2 (int (Suc k)) = Some (str_diff as bs)" if "a = b"
    using "4.prems" that by (intro "4.IH") (simp_all add: ac_simps)
  then show ?case using "4.prems" c_int_nat [of k]
    by (subst strcmp_loop.simps) (auto simp: Let_def simp del: of_nat_Suc)
qed (subst strcmp_loop.simps; auto)+

lemma cstr_nonzero: "cstr m p bs \<Longrightarrow> 0 \<notin> set bs"
  by (induction m p bs rule: cstr.induct) auto

text \<open>
  \<open>strcmp\<close> terminates on two NUL-terminated strings and returns the difference of the signed
  characters at the first position where they differ; it returns 0 exactly when the strings are equal.
\<close>

theorem strcmp_compares:
  assumes "cstr m s1 as" and "cstr m s2 bs" and "length as < 2 ^ 31"
  shows "strcmp m s1 s2 = Some (str_diff as bs) \<and> (str_diff as bs = 0 \<longleftrightarrow> as = bs)"
  using strcmp_loop_cstr [of m s1 0 as s2 bs] assms str_diff_eq_0 cstr_nonzero by (auto simp: strcmp_def)

theorem strcmp_compares_witness:
  "strcmp hello_memory 0x100 0x101 = Some (-1)"
  using strcmp_compares [of hello_memory "0x100" "lit ''hi''" "0x101" "lit ''i''"]
  by (simp add: hello_memory_def)

end
