(* ===== verification/StringEdit.thy ===== *)
theory StringEdit
  imports StringLaws
begin

text \<open>
  In-place editing of strings and number conversion: \<open>reverse\<close>, \<open>strins\<close>, \<open>intToString\<close>, \<open>itoa\<close> and
  \<open>atoi\<close>, by way of the list of bytes in a window of memory.
\<close>

section \<open>Windows of memory\<close>

definition bytes_at :: "memory \<Rightarrow> u64 \<Rightarrow> u8 list \<Rightarrow> bool" where
  "bytes_at m p xs \<longleftrightarrow> (\<forall>i < length xs. m (p + of_nat i) = xs ! i)"

lemma bytes_at_Nil [simp]: "bytes_at m p []"
  by (simp add: bytes_at_def)

lemma cstr_bytes_at: "cstr m p bs \<longleftrightarrow> bytes_at m p (bs @ [0]) \<and> 0 \<notin> set bs"
  by (auto simp: cstr_iff bytes_at_def nth_append less_Suc_eq in_set_conv_nth)

lemma bytes_at_nth: "bytes_at m p xs \<Longrightarrow> i < length xs \<Longrightarrow> m (p + of_nat i) = xs ! i"
  by (simp add: bytes_at_def)

lemma offset_inj: "i < 2 ^ 64 \<Longrightarrow> j < 2 ^ 64 \<Longrightarrow> (p :: u64) + of_nat i = p + of_nat j \<longleftrightarrow> i = j"
  by (simp add: of_nat_inj_small)

lemma bytes_at_update:
  "bytes_at m p xs \<Longrightarrow> i < 2 ^ 64 \<Longrightarrow> length xs \<le> 2 ^ 64 \<Longrightarrow> bytes_at (m(p + of_nat i := v)) p (xs[i := v])"
  by (auto simp: bytes_at_def nth_list_update of_nat_inj_small)

lemma bytes_at_snoc:
  "bytes_at m p xs \<Longrightarrow> length xs < 2 ^ 64 \<Longrightarrow> bytes_at (m(p + of_nat (length xs) := v)) p (xs @ [v])"
  by (auto simp: bytes_at_def nth_append less_Suc_eq of_nat_inj_small)

lemma bytes_at_append: "bytes_at m p (xs @ ys) \<longleftrightarrow> bytes_at m p xs \<and> bytes_at m (p + of_nat (length xs)) ys"
proof -
  have "bytes_at m p (xs @ ys)" if "bytes_at m p xs" "bytes_at m (p + of_nat (length xs)) ys"
    unfolding bytes_at_def
  proof (intro allI impI)
    fix i
    assume i: "i < length (xs @ ys)"
    show "m (p + of_nat i) = (xs @ ys) ! i"
      using that i by (cases "i < length xs") (auto simp: bytes_at_def nth_append dest: spec [of _ "i - length xs"])
  qed
  moreover have "bytes_at m p xs" "bytes_at m (p + of_nat (length xs)) ys" if "bytes_at m p (xs @ ys)"
  proof -
    show "bytes_at m p xs"
      unfolding bytes_at_def
    proof (intro allI impI)
      fix i
      assume "i < length xs"
      then show "m (p + of_nat i) = xs ! i" using bytes_at_nth [OF that, of i] by (simp add: nth_append)
    qed
    show "bytes_at m (p + of_nat (length xs)) ys"
      unfolding bytes_at_def
    proof (intro allI impI)
      fix i
      assume "i < length ys"
      then show "m (p + of_nat (length xs) + of_nat i) = ys ! i"
        using bytes_at_nth [OF that, of "length xs + i"] by (simp add: add.assoc)
    qed
  qed
  ultimately show ?thesis by blast
qed

section \<open>Reversal\<close>

lemma reverse_loop_bytes:
  assumes "bytes_at m p (as @ mid @ cs)" and "length (as @ mid @ cs) < 2 ^ 63"
  shows "bytes_at (reverse_loop m p (int (length as)) (int (length as + length mid) - 1)) p (as @ rev mid @ cs)"
  using assms
proof (induction mid arbitrary: m as cs rule: measure_induct_rule [of length])
  case (less mid)
  show ?case
  proof (cases "length mid < 2")
    case True
    then have "rev mid = mid" by (cases mid) auto
    then show ?thesis using less.prems True by (subst reverse_loop.simps) simp
  next
    case False
    obtain x rest where x: "mid = x # rest" using False by (cases mid) auto
    obtain mid' y where y: "rest = mid' @ [y]" using False x by (cases rest rule: rev_cases) auto
    let ?i = "length as" and ?j = "length as + Suc (length mid')"
    let ?xs = "as @ mid @ cs"
    have mi: "m (p + of_nat ?i) = x" "m (p + of_nat ?j) = y"
      using bytes_at_nth [OF less.prems(1), of ?i] bytes_at_nth [OF less.prems(1), of ?j]
      by (simp_all add: x y nth_append)
    let ?m = "m(p + of_nat ?i := y, p + of_nat ?j := x)"
    have "bytes_at ?m p (?xs[?i := y, ?j := x])"
      using less.prems by (intro bytes_at_update) (simp_all add: x y)
    also have "?xs[?i := y, ?j := x] = (as @ [y]) @ mid' @ ([x] @ cs)"
      by (simp add: x y list_update_append)
    finally have b: "bytes_at ?m p ((as @ [y]) @ mid' @ ([x] @ cs))" .
    have "bytes_at (reverse_loop ?m p (int (length (as @ [y]))) (int (length (as @ [y]) + length mid') - 1)) p
        ((as @ [y]) @ rev mid' @ ([x] @ cs))"
      by (rule less.IH [OF _ b]) (use less.prems(2) in \<open>simp_all add: x y\<close>)
    moreover have "reverse_loop m p (int ?i) (int (?i + length mid) - 1) =
        reverse_loop ?m p (int (length (as @ [y]))) (int (length (as @ [y]) + length mid') - 1)"
    proof -
      have j: "int (?i + length mid) - 1 = int ?j" by (simp add: x y)
      have mj: "m (p + (1 + (of_nat ?i + of_nat (length mid')))) = y" using mi(2) by (simp add: ac_simps)
      show ?thesis unfolding j
        by (subst reverse_loop.simps)
          (simp add: Let_def mi(1) del: of_nat_add of_nat_Suc, simp add: mj add.commute)
    qed
    ultimately show ?thesis by (simp add: x y)
  qed
qed

lemma reverse_cstr:
  assumes "cstr m p bs" and "length bs < 2 ^ 31"
  obtains m' where "reverse m p = Some m'" and "cstr m' p (rev bs)"
proof -
  have b: "bytes_at m p ([] @ bs @ [0])" "0 \<notin> set bs" using assms(1) by (simp_all add: cstr_bytes_at)
  have "bytes_at (reverse_loop m p (int (length ([] :: u8 list))) (int (length ([] :: u8 list) + length bs) - 1)) p ([] @ rev bs @ [0])"
    using assms(2) by (intro reverse_loop_bytes [OF b(1)]) simp
  then have "cstr (reverse_loop m p 0 (int (length bs) - 1)) p (rev bs)"
    using b(2) by (simp add: cstr_bytes_at)
  then show ?thesis using that strlen_cstr [OF assms] by (simp add: reverse_def)
qed

section \<open>Insertion\<close>

lemma strins_shift_Suc: "strins_shift m p (int (Suc i)) pos =
    (if pos < int (Suc i) then strins_shift (m(p + of_nat (Suc i) := m (p + of_nat i))) p (int i) pos else m)"
proof -
  have "int (Suc i) - 1 = int i" by simp
  then show ?thesis by (subst strins_shift.simps) (simp only: of_int_nat)
qed

lemma strins_shift_bytes:
  assumes "bytes_at m p (as @ ys @ w # cs)" and "length (as @ ys @ w # cs) < 2 ^ 63"
  shows "bytes_at (strins_shift m p (int (length as + length ys)) (int (length as))) p (as @ hd (ys @ [w]) # ys @ cs)"
  using assms
proof (induction ys arbitrary: m w cs rule: rev_induct)
  case Nil
  then show ?case by (subst strins_shift.simps) simp
next
  case (snoc z zs)
  let ?i = "length as + Suc (length zs)"
  have z: "m (p + of_nat (length as + length zs)) = z"
    using bytes_at_nth [OF snoc.prems(1), of "length as + length zs"] by (simp add: nth_append)
  have "bytes_at (m(p + of_nat ?i := z)) p ((as @ (zs @ [z]) @ w # cs)[?i := z])"
    using snoc.prems by (intro bytes_at_update) simp_all
  also have "(as @ (zs @ [z]) @ w # cs)[?i := z] = as @ zs @ z # z # cs"
    by (simp add: list_update_append)
  finally have "bytes_at (strins_shift (m(p + of_nat ?i := z)) p (int (length as + length zs)) (int (length as))) p
      (as @ hd (zs @ [z]) # zs @ z # cs)"
    using snoc.prems(2) by (intro snoc.IH) simp_all
  moreover have "strins_shift m p (int ?i) (int (length as)) =
      strins_shift (m(p + of_nat ?i := z)) p (int (length as + length zs)) (int (length as))"
    using strins_shift_Suc [of m p "length as + length zs" "int (length as)"] z
    by (simp del: of_nat_Suc of_nat_add)
  moreover have "hd ((zs @ [z]) @ [w]) = hd (zs @ [z])" by (cases zs) simp_all
  ultimately show ?case by simp
qed

lemma offset_in_region: "i < n \<Longrightarrow> n < 2 ^ 64 \<Longrightarrow> p + of_nat i \<in> region p n"
  by (auto simp: region_iff_offset)

lemma strins_shift_frame:
  "i < n \<Longrightarrow> n < 2 ^ 64 \<Longrightarrow> x \<notin> region p n \<Longrightarrow> strins_shift m p (int i) (int k) x = m x"
proof (induction i arbitrary: m)
  case 0
  then show ?case by (subst strins_shift.simps) simp
next
  case (Suc i)
  have "x \<noteq> p + of_nat (Suc i)" using offset_in_region [OF Suc.prems(1,2)] Suc.prems(3) by blast
  then show ?case unfolding strins_shift_Suc using Suc by (simp del: of_nat_Suc)
qed

lemma strins_ok:
  assumes s: "cstr m p bs" and k: "k \<le> length bs" and len: "length bs < 2 ^ 31 - 1" and c: "c \<noteq> 0"
  obtains m' where "strins m p c (int k) = Some m'" and "cstr m' p (take k bs @ c # drop k bs)"
    and "agree_on (- region p (length bs + 2)) m m'"
proof -
  obtain as ys where d: "bs = as @ ys" "length as = k"
    using k by (metis append_take_drop_id length_take min.absorb2)
  let ?m1 = "strins_shift m p (int (length bs)) (int k)"
  let ?m2 = "?m1(p + of_nat k := c)"
  let ?m3 = "?m2(p + of_nat (Suc (length bs)) := 0)"
  have b: "bytes_at m p (as @ ys @ [0])" "0 \<notin> set bs" using s by (simp_all add: cstr_bytes_at d)
  have "bytes_at ?m1 p (as @ hd (ys @ [0]) # ys)"
    using strins_shift_bytes [OF b(1)] len by (simp add: d)
  then have "bytes_at ?m2 p ((as @ hd (ys @ [0]) # ys)[k := c])"
    using len by (intro bytes_at_update) (simp_all add: d)
  then have "bytes_at ?m2 p (as @ c # ys)" by (simp add: list_update_append d(2))
  from bytes_at_snoc [OF this, of 0] have "bytes_at ?m3 p ((as @ c # ys) @ [0])" using len by (simp add: d)
  moreover have "0 \<notin> set (as @ c # ys)" using b(2) c by (simp add: d)
  ultimately have "cstr ?m3 p (as @ c # ys)" unfolding cstr_bytes_at by blast
  then have cs: "cstr ?m3 p (take k bs @ c # drop k bs)" by (simp add: d(1) d(2) [symmetric])
  have frame: "agree_on (- region p (length bs + 2)) m ?m3"
    unfolding agree_on_def
  proof
    fix x
    assume "x \<in> - region p (length bs + 2)"
    then have x: "x \<notin> region p (length bs + 2)" by simp
    have "x \<noteq> p + of_nat k" "x \<noteq> p + of_nat (Suc (length bs))"
      using x offset_in_region [of k "length bs + 2" p] offset_in_region [of "Suc (length bs)" "length bs + 2" p] k len by auto
    moreover have "?m1 x = m x" using x len by (intro strins_shift_frame) simp_all
    ultimately show "?m3 x = m x" by (simp del: of_nat_Suc)
  qed
  have "strins m p c (int k) = Some ?m3"
    using strlen_cstr [OF s] len k c_int_nat [of "length bs"]
    by (simp add: strins_def Let_def not_less del: of_nat_Suc)
  then show ?thesis using that cs frame by blast
qed

end
