(* ===== verification/NumeralLaws.thy ===== *)
theory NumeralLaws
  imports StringEdit
begin

text \<open>
  \<open>intToString\<close>, \<open>itoa\<close> and \<open>atoi\<close>: the first two write the same text in base 10, and \<open>atoi\<close> reads
  back the number.
\<close>

section \<open>The digits of a number, lowest first\<close>

function ndigits :: "nat \<Rightarrow> u8 list" where
  "ndigits n = (if n = 0 then [] else of_nat (48 + n mod 10) # ndigits (n div 10))"
  by pat_completeness auto
termination
  by (relation "measure id") auto

declare ndigits.simps [simp del]

lemma ndigits_0 [simp]: "ndigits 0 = []"
  by (simp add: ndigits.simps)

lemma ndigits_pos: "0 < n \<Longrightarrow> ndigits n = of_nat (48 + n mod 10) # ndigits (n div 10)"
  by (simp add: ndigits.simps)

lemma ndigits_length: "n < 10 ^ k \<Longrightarrow> length (ndigits n) \<le> k"
proof (induction k arbitrary: n)
  case (Suc k)
  then have "n div 10 < 10 ^ k" by (simp add: div_less_iff_less_mult mult.commute)
  then show ?case using Suc.IH by (cases "n = 0") (simp_all add: ndigits_pos)
qed simp

lemma digit_value: "d < 10 \<Longrightarrow> sint (of_nat (48 + d) :: u8) = 48 + int d"
proof -
  assume "d < 10"
  then consider "d = 0" | "d = 1" | "d = 2" | "d = 3" | "d = 4" | "d = 5" | "d = 6" | "d = 7" | "d = 8" | "d = 9"
    by atomize_elim presburger
  then show ?thesis by cases simp_all
qed

lemma ndigits_digits: "b \<in> set (ndigits n) \<Longrightarrow> digit_char b \<and> b \<noteq> 0"
proof (induction n rule: ndigits.induct)
  case (1 n)
  have v: "sint (of_nat (48 + n mod 10) :: u8) = 48 + int (n mod 10)" by (rule digit_value) simp
  have "n mod 10 < 10" by simp
  then have "digit_char (of_nat (48 + n mod 10))" using v by (simp add: digit_char_def del: of_nat_add)
  moreover have "(of_nat (48 + n mod 10) :: u8) \<noteq> 0" using v by (metis add_le_same_cancel1 of_nat_0_le_iff not_numeral_le_zero signed_0 add.commute)
  ultimately show ?case using 1 by (cases "n = 0") (auto simp: ndigits_pos)
qed

definition digits_value :: "u8 list \<Rightarrow> int \<Rightarrow> int" where
  "digits_value ds r = foldl (\<lambda>r d. r * 10 + (sint d - 48)) r ds"

lemma ndigits_value: "digits_value (rev (ndigits n)) 0 = int n"
proof (induction n rule: ndigits.induct)
  case (1 n)
  have v: "sint (of_nat (48 + n mod 10) :: u8) = 48 + int (n mod 10)" by (rule digit_value) simp
  show ?case
  proof (cases "n = 0")
    case False
    have "int n = int (n div 10) * 10 + int (n mod 10)" by (simp add: zdiv_int zmod_int)
    then show ?thesis using 1 False v by (simp add: digits_value_def ndigits_pos del: of_nat_add)
  qed (simp add: digits_value_def)
qed

section \<open>Writing\<close>

lemma int_div_mod_10: "int n smod 10 = int (n mod 10)" "int n sdiv 10 = int (n div 10)"
  by (simp_all add: signed_divide_int_def signed_modulo_int_def zdiv_int zmod_int sgn_if
      minus_mult_div_eq_mod [symmetric] mult.commute)

lemma int_mod_10: "int n mod 10 = int (n mod 10)" "int n div 10 = int (n div 10)"
  by (simp_all add: zdiv_int zmod_int)

lemma digit_of_int: "of_int (int (n mod 10) + 48) = (of_nat (48 + n mod 10) :: u8)"
  by (simp add: add.commute)

lemma c_int_small: "k < 2 ^ 31 \<Longrightarrow> c_int (int k) = Some (int k)"
  by (simp add: c_int_def INT_MIN_def INT_MAX_def)

lemma mod_10_le: "\<not> 9 < n mod (10 :: nat)" "\<not> (9 :: int) < int (n mod 10)"
  using mod_less_divisor [of 10 n] by linarith+

lemma itoa_loop_digits:
  assumes "bytes_at m str xs" and "n < 2 ^ 31" and "length xs + length (ndigits n) < 2 ^ 31"
  shows "\<exists>m'. itoa_loop m str (int (length xs)) (int n) 10 = Some (m', int (length xs + length (ndigits n))) \<and>
    bytes_at m' str (xs @ ndigits n) \<and>
    (0 < n \<longrightarrow> intToString_loop m str (int (length xs)) (int n) = (m', int (length xs + length (ndigits n))))"
  using assms
proof (induction n arbitrary: m xs rule: ndigits.induct)
  case (1 n)
  show ?case
  proof (cases "n = 0")
    case True
    then show ?thesis using 1 by (subst itoa_loop.simps) simp
  next
    case False
    let ?d = "of_nat (48 + n mod 10) :: u8"
    let ?m = "m(str + of_nat (length xs) := ?d)"
    have b: "bytes_at ?m str (xs @ [?d])" using "1.prems" by (intro bytes_at_snoc) simp_all
    have len: "length (ndigits n) = Suc (length (ndigits (n div 10)))" using False by (simp add: ndigits_pos)
    have q: "n div 10 < 2 ^ 31" using "1.prems"(2) by (meson div_le_dividend le_less_trans)
    have l3: "length (xs @ [?d]) + length (ndigits (n div 10)) < 2 ^ 31" using "1.prems"(3) len by simp
    obtain m' where m': "itoa_loop ?m str (int (length (xs @ [?d]))) (int (n div 10)) 10 =
        Some (m', int (length (xs @ [?d]) + length (ndigits (n div 10))))"
      "bytes_at m' str ((xs @ [?d]) @ ndigits (n div 10))"
      "0 < n div 10 \<Longrightarrow> intToString_loop ?m str (int (length (xs @ [?d]))) (int (n div 10)) =
        (m', int (length (xs @ [?d]) + length (ndigits (n div 10))))"
      using "1.IH" [OF False b q l3] by (elim exE conjE) (rule that, assumption, assumption, erule (1) mp)
    have e: "itoa_loop m str (int (length xs)) (int n) 10 =
        itoa_loop ?m str (int (length (xs @ [?d]))) (int (n div 10)) 10"
      using False c_int_nat [of "length xs"] c_int_small [OF q] "1.prems"(3) len
      by (subst itoa_loop.simps)
        (simp add: Let_def int_div_mod_10 digit_of_int mod_10_le del: of_nat_add of_nat_Suc, simp add: mod_10_le ac_simps)
    have t: "intToString_loop m str (int (length xs)) (int n) =
        (if 0 < n div 10 then intToString_loop ?m str (int (length (xs @ [?d]))) (int (n div 10))
         else (?m, int (length (xs @ [?d]))))"
      by (subst intToString_loop.simps) (simp add: Let_def int_mod_10 digit_of_int del: of_nat_add, simp add: ac_simps)
    have z: "m' = ?m" if "n div 10 = 0" using m'(1) that by (subst (asm) itoa_loop.simps) simp
    have nd: "ndigits n = ?d # ndigits (n div 10)" using False by (simp add: ndigits_pos)
    have len': "length xs + length (?d # ndigits (n div 10)) = length (xs @ [?d]) + length (ndigits (n div 10))" by simp
    have b': "bytes_at m' str (xs @ ?d # ndigits (n div 10))" using m'(2) by simp
    have "intToString_loop m str (int (length xs)) (int n) = (m', int (length (xs @ [?d]) + length (ndigits (n div 10))))"
      using t m'(3) z by (cases "n div 10 = 0") simp_all
    then show ?thesis using m'(1) b' unfolding e nd len' by blast
  qed
qed

section \<open>Reading\<close>

lemma digits_value_Cons: "digits_value (d # ds) r = digits_value ds (r * 10 + (sint d - 48))"
  by (simp add: digits_value_def)

lemma digits_value_ge: "\<forall>d \<in> set ds. digit_char d \<Longrightarrow> 0 \<le> r \<Longrightarrow> r \<le> digits_value ds r"
proof (induction ds arbitrary: r)
  case (Cons d ds)
  have "r * 10 + (sint d - 48) \<le> digits_value ds (r * 10 + (sint d - 48))"
    using Cons.prems by (intro Cons.IH) (auto simp: digit_char_def)
  then show ?case using Cons.prems by (auto simp: digits_value_Cons digit_char_def)
qed (simp add: digits_value_def)

lemma atoi_digits_value:
  assumes "cstr m (str + of_nat k) ds" and "\<forall>d \<in> set ds. digit_char d" and "0 \<le> r"
    and "digits_value ds r \<le> INT_MAX" and "k + length ds < 2 ^ 31"
  shows "atoi_digits m str (int k) r = Some (digits_value ds r)"
  using assms
proof (induction ds arbitrary: k r)
  case Nil
  then show ?case by (subst atoi_digits.simps) (simp add: digits_value_def digit_char_def)
next
  case (Cons d ds)
  let ?r = "r * 10 + (sint d - 48)"
  have d: "48 \<le> sint d" "sint d \<le> 57" using Cons.prems(2) by (simp_all add: digit_char_def)
  have r: "0 \<le> ?r" "?r \<le> digits_value ds ?r"
    using Cons.prems d digits_value_ge [of ds ?r] by auto
  have le: "?r \<le> INT_MAX" "r * 10 \<le> INT_MAX" using r(2) Cons.prems(4) d by (auto simp: digits_value_Cons)
  have c: "c_int (r * 10) = Some (r * 10)" "c_int ?r = Some ?r"
    using le r Cons.prems(3) by (simp_all add: c_int_def INT_MIN_def)
  have md: "m (str + of_nat k) = d" using Cons.prems(1) by simp
  have "atoi_digits m str (int (Suc k)) ?r = Some (digits_value ds ?r)"
    using Cons.prems r by (intro Cons.IH) (simp_all add: ac_simps digits_value_Cons)
  then show ?case using Cons.prems(2,5) c c_int_nat [of k]
    by (subst atoi_digits.simps) (simp add: md digits_value_Cons del: of_nat_Suc)
qed

lemma atoi_unsigned:
  assumes "cstr m str (d # ds)" and "\<forall>d \<in> set (d # ds). digit_char d"
    and "digits_value (d # ds) 0 \<le> INT_MAX" and "length (d # ds) < 2 ^ 31"
  shows "atoi m str = Some (digits_value (d # ds) 0)"
proof -
  have md: "m str = d" using assms(1) by simp
  have nd: "\<not> is_blank d" "d \<noteq> 45" "d \<noteq> 43"
    using assms(2) by (auto simp: is_blank_def digit_char_def)
  have "atoi_digits m str (int 0) 0 = Some (digits_value (d # ds) 0)"
    using assms by (intro atoi_digits_value) simp_all
  moreover have "0 \<le> digits_value (d # ds) 0" using digits_value_ge [OF assms(2), of 0] by simp
  ultimately show ?thesis using assms(3) nd
    by (simp add: atoi_def atoi_blanks.simps [of m str 0] md INT_MIN_def)
qed

lemma atoi_negative:
  assumes "cstr m str (ch CHR ''-'' # ds)" and "\<forall>d \<in> set ds. digit_char d"
    and "digits_value ds 0 \<le> INT_MAX" and "length ds < 2 ^ 31 - 1"
  shows "atoi m str = Some (- digits_value ds 0)"
proof -
  have md: "m str = 45" using assms(1) by simp
  have "atoi_digits m str (int 1) 0 = Some (digits_value ds 0)"
    using assms by (intro atoi_digits_value) simp_all
  moreover have "0 \<le> digits_value ds 0" using digits_value_ge [OF assms(2), of 0] by simp
  ultimately show ?thesis using assms(3) c_int_nat [of 0]
    by (simp add: atoi_def atoi_blanks.simps [of m str 0] md is_blank_def INT_MIN_def INT_MAX_def c_int_def)
qed

section \<open>The text of a number\<close>

definition int_text :: "int \<Rightarrow> u8 list" where
  "int_text v = (if v = 0 then [48] else (if v < 0 then [ch CHR ''-''] else []) @ rev (ndigits (nat \<bar>v\<bar>)))"

lemma finish_text:
  assumes "bytes_at m str bs" and "0 \<notin> set bs" and "length bs < 2 ^ 31 - 1"
  obtains m' where "reverse (m(str + of_nat (length bs) := 0)) str = Some m'" and "cstr m' str (rev bs)"
proof -
  have "bytes_at (m(str + of_nat (length bs) := 0)) str (bs @ [0])"
    using assms by (intro bytes_at_snoc) simp_all
  then have c: "cstr (m(str + of_nat (length bs) := 0)) str bs" using assms(2) by (simp add: cstr_bytes_at)
  have "length bs < 2 ^ 31" using assms(3) by simp
  from reverse_cstr [OF c this] show ?thesis using that by blast
qed

lemma itoa_text:
  assumes v: "INT_MIN < v" "v \<le> INT_MAX"
  shows "\<exists>m'. itoa m v str 10 = Some m' \<and> intToString m v str = Some m' \<and> cstr m' str (int_text v)"
proof (cases "v = 0")
  case True
  let ?m = "m(str := 48, str + 1 := 0)"
  have c: "cstr ?m str [48]" by simp
  have "reverse ?m str = Some ?m"
    using strlen_cstr [OF c] by (simp add: reverse_def reverse_loop.simps)
  then show ?thesis
    using True c by (simp add: itoa_def intToString_def intToString_loop.simps int_text_def)
next
  case False
  let ?n = "nat \<bar>v\<bar>" and ?neg = "v < 0"
  have n: "0 < ?n" "?n < 2 ^ 31" using v False by (simp_all add: INT_MIN_def INT_MAX_def)
  have len: "length (ndigits ?n) \<le> 10" using n(2) by (intro ndigits_length) simp
  obtain m1 where m1: "itoa_loop m str 0 (int ?n) 10 = Some (m1, int (length (ndigits ?n)))"
    "bytes_at m1 str (ndigits ?n)" "intToString_loop m str 0 (int ?n) = (m1, int (length (ndigits ?n)))"
    using itoa_loop_digits [of m str "[]" ?n] n len by auto
  have abs: "(if ?neg then c_int (- v) else Some v) = Some (int ?n)"
    using v by (simp add: c_int_def INT_MIN_def INT_MAX_def)
  have dig: "0 \<notin> set (ndigits ?n)" using ndigits_digits by blast
  show ?thesis
  proof (cases ?neg)
    case True
    let ?m2 = "m1(str + of_nat (length (ndigits ?n)) := 45)"
    have "bytes_at ?m2 str (ndigits ?n @ [45])" using m1(2) len by (intro bytes_at_snoc) simp_all
    from finish_text [OF this] dig len
    obtain m' where m': "reverse (?m2(str + of_nat (Suc (length (ndigits ?n))) := 0)) str = Some m'"
      "cstr m' str (45 # rev (ndigits ?n))"
      by auto
    then have "itoa m v str 10 = Some m'" "intToString m v str = Some m'"
      using True False abs m1 by (simp_all add: itoa_def intToString_def Let_def add.commute)
    then show ?thesis using m'(2) True False by (simp add: int_text_def)
  next
    case pos: False
    from finish_text [OF m1(2)] dig len
    obtain m' where m': "reverse (m1(str + of_nat (length (ndigits ?n)) := 0)) str = Some m'"
      "cstr m' str (rev (ndigits ?n))"
      by auto
    then have "itoa m v str 10 = Some m'" "intToString m v str = Some m'"
      using pos False abs m1 by (simp_all add: itoa_def intToString_def Let_def)
    then show ?thesis using m'(2) pos False by (simp add: int_text_def)
  qed
qed

lemma atoi_text:
  assumes c: "cstr m str (int_text v)" and v: "INT_MIN < v" "v \<le> INT_MAX"
  shows "atoi m str = Some v"
proof (cases "v = 0")
  case True
  then show ?thesis using atoi_unsigned [of m str 48 "[]"] c
    by (simp add: int_text_def digit_char_def digits_value_def INT_MAX_def)
next
  case False
  let ?n = "nat \<bar>v\<bar>"
  have n: "0 < ?n" "?n < 2 ^ 31" using v False by (simp_all add: INT_MIN_def INT_MAX_def)
  have len: "length (ndigits ?n) \<le> 10" using n(2) by (intro ndigits_length) simp
  have dig: "\<forall>d \<in> set (rev (ndigits ?n)). digit_char d" using ndigits_digits by auto
  have val: "digits_value (rev (ndigits ?n)) 0 = int ?n" by (rule ndigits_value)
  have max: "int ?n \<le> INT_MAX" using v by (simp add: INT_MIN_def INT_MAX_def)
  show ?thesis
  proof (cases "v < 0")
    case True
    then have "cstr m str (ch CHR ''-'' # rev (ndigits ?n))" using c False by (simp add: int_text_def)
    from atoi_negative [OF this dig] show ?thesis using val max len True by simp
  next
    case pos: False
    then have c': "cstr m str (rev (ndigits ?n))" using c False by (simp add: int_text_def)
    have "rev (ndigits ?n) \<noteq> []" using n by (simp add: ndigits_pos)
    then obtain d ds where ds: "rev (ndigits ?n) = d # ds" by (cases "rev (ndigits ?n)") auto
    have "length (d # ds) \<le> 10" unfolding ds [symmetric] using len by simp
    then show ?thesis using atoi_unsigned [of m str d ds] c' dig val max pos unfolding ds by simp
  qed
qed

text \<open>
  C28.  Round trip: for every \<open>int\<close> except \<open>INT_MIN\<close>, \<open>itoa\<close> in base 10 and \<open>intToString\<close> terminate and leave
  the same memory, with the decimal text of the number at the destination, and \<open>atoi\<close> reads the number back.
\<close>

theorem itoa_atoi_roundtrip:
  assumes "INT_MIN < v" and "v \<le> INT_MAX"
  shows "\<exists>m'. itoa m v str 10 = Some m' \<and> intToString m v str = Some m' \<and>
    cstr m' str (int_text v) \<and> atoi m' str = Some v"
  using itoa_text [OF assms, of m str] atoi_text [OF _ assms] by blast

theorem itoa_atoi_roundtrip_witness:
  "\<exists>m'. itoa hello_memory (-42) 0x300 10 = Some m' \<and> cstr m' 0x300 (lit ''-42'') \<and> atoi m' 0x300 = Some (-42)"
  using itoa_atoi_roundtrip [of "-42" hello_memory "0x300"]
  by (auto simp: INT_MIN_def INT_MAX_def int_text_def ndigits_pos)

end
