(* ===== verification/KeyTables.thy ===== *)
theory KeyTables
  imports Prelude
begin

text \<open>
  The scancodes of \<open>include/in/keys.h\<close> and the two translation tables of \<open>cpu/cpu.c\<close>
  (\<open>get_acsii_low\<close>, \<open>get_acsii_high\<close>).  A \<open>switch\<close> whose cases return a constant is the
  lookup in the list of its cases.
\<close>

section \<open>Scancodes\<close>

definition KEY_A :: u8 where "KEY_A = 0x1E"
definition KEY_B :: u8 where "KEY_B = 0x30"
definition KEY_C :: u8 where "KEY_C = 0x2E"
definition KEY_D :: u8 where "KEY_D = 0x20"
definition KEY_E :: u8 where "KEY_E = 0x12"
definition KEY_F :: u8 where "KEY_F = 0x21"
definition KEY_G :: u8 where "KEY_G = 0x22"
definition KEY_H :: u8 where "KEY_H = 0x23"
definition KEY_I :: u8 where "KEY_I = 0x17"
definition KEY_J :: u8 where "KEY_J = 0x24"
definition KEY_K :: u8 where "KEY_K = 0x25"
definition KEY_L :: u8 where "KEY_L = 0x26"
definition KEY_M :: u8 where "KEY_M = 0x32"
definition KEY_N :: u8 where "KEY_N = 0x31"
definition KEY_O :: u8 where "KEY_O = 0x18"
definition KEY_P :: u8 where "KEY_P = 0x19"
definition KEY_Q :: u8 where "KEY_Q = 0x10"
definition KEY_R :: u8 where "KEY_R = 0x13"
definition KEY_S :: u8 where "KEY_S = 0x1F"
definition KEY_T :: u8 where "KEY_T = 0x14"
definition KEY_U :: u8 where "KEY_U = 0x16"
definition KEY_V :: u8 where "KEY_V = 0x2F"
definition KEY_W :: u8 where "KEY_W = 0x11"
definition KEY_X :: u8 where "KEY_X = 0x2D"
definition KEY_Y :: u8 where "KEY_Y = 0x15"
definition KEY_Z :: u8 where "KEY_Z = 0x2C"
definition KEY_1 :: u8 where "KEY_1 = 0x02"
definition KEY_2 :: u8 where "KEY_2 = 0x03"
definition KEY_3 :: u8 where "KEY_3 = 0x04"
definition KEY_4 :: u8 where "KEY_4 = 0x05"
definition KEY_5 :: u8 where "KEY_5 = 0x06"
definition KEY_6 :: u8 where "KEY_6 = 0x07"
definition KEY_7 :: u8 where "KEY_7 = 0x08"
definition KEY_8 :: u8 where "KEY_8 = 0x09"
definition KEY_9 :: u8 where "KEY_9 = 0x0A"
definition KEY_0 :: u8 where "KEY_0 = 0x0B"
definition KEY_MINUS :: u8 where "KEY_MINUS = 0x0C"
definition KEY_EQUAL :: u8 where "KEY_EQUAL = 0x0D"
definition KEY_SQUARE_OPEN_BRACKET :: u8 where "KEY_SQUARE_OPEN_BRACKET = 0x1A"
definition KEY_SQUARE_CLOSE_BRACKET :: u8 where "KEY_SQUARE_CLOSE_BRACKET = 0x1B"
definition KEY_SEMICOLON :: u8 where "KEY_SEMICOLON = 0x27"
definition KEY_APOSTROPHE :: u8 where "KEY_APOSTROPHE = 0x28"
definition KEY_BACKSLASH :: u8 where "KEY_BACKSLASH = 0x2B"
definition KEY_COMMA :: u8 where "KEY_COMMA = 0x33"
definition KEY_DOT :: u8 where "KEY_DOT = 0x34"
definition KEY_FORESLHASH :: u8 where "KEY_FORESLHASH = 0x35"
definition KEY_F1 :: u8 where "KEY_F1 = 0x3B"
definition KEY_F2 :: u8 where "KEY_F2 = 0x3C"
definition KEY_F3 :: u8 where "KEY_F3 = 0x3D"
definition KEY_F4 :: u8 where "KEY_F4 = 0x3E"
definition KEY_F5 :: u8 where "KEY_F5 = 0x3F"
definition KEY_F6 :: u8 where "KEY_F6 = 0x40"
definition KEY_F7 :: u8 where "KEY_F7 = 0x41"
definition KEY_F8 :: u8 where "KEY_F8 = 0x42"
definition KEY_F9 :: u8 where "KEY_F9 = 0x43"
definition KEY_F10 :: u8 where "KEY_F10 = 0x44"
definition KEY_F11 :: u8 where "KEY_F11 = 0x85"
definition KEY_F12 :: u8 where "KEY_F12 = 0x86"
definition KEY_BACKSPACE :: u8 where "KEY_BACKSPACE = 0x0E"
definition KEY_DELETE :: u8 where "KEY_DELETE = 0x53"
definition KEY_DOWN :: u8 where "KEY_DOWN = 0x50"
definition KEY_END :: u8 where "KEY_END = 0x4F"
definition KEY_ENTER :: u8 where "KEY_ENTER = 0x1C"
definition KEY_ESC :: u8 where "KEY_ESC = 0x01"
definition KEY_HOME :: u8 where "KEY_HOME = 0x47"
definition KEY_INSERT :: u8 where "KEY_INSERT = 0x52"
definition KEY_KEYPAD_5 :: u8 where "KEY_KEYPAD_5 = 0x4C"
definition KEY_KEYPAD_MUL :: u8 where "KEY_KEYPAD_MUL = 0x37"
definition KEY_KEYPAD_Minus :: u8 where "KEY_KEYPAD_Minus = 0x4A"
definition KEY_KEYPAD_PLUS :: u8 where "KEY_KEYPAD_PLUS = 0x4E"
definition KEY_KEYPAD_DIV :: u8 where "KEY_KEYPAD_DIV = 0x35"
definition KEY_LEFT :: u8 where "KEY_LEFT = 0x4B"
definition KEY_PAGE_DOWN :: u8 where "KEY_PAGE_DOWN = 0x51"
definition KEY_PAGE_UP :: u8 where "KEY_PAGE_UP = 0x49"
definition KEY_PRINT_SCREEN :: u8 where "KEY_PRINT_SCREEN = 0x37"
definition KEY_RIGHT :: u8 where "KEY_RIGHT = 0x4D"
definition KEY_SPACE :: u8 where "KEY_SPACE = 0x39"
definition KEY_TAB :: u8 where "KEY_TAB = 0x0F"
definition KEY_UP :: u8 where "KEY_UP = 0x48"
definition KEY_LSHIFT :: u8 where "KEY_LSHIFT = 0x2A"
definition KEY_RSHIFT :: u8 where "KEY_RSHIFT = 0x36"
definition KEY_CAPS_LOCK :: u8 where "KEY_CAPS_LOCK = 0x3A"
definition KEY_LCTRL :: u8 where "KEY_LCTRL = 0x1D"
definition KEY_LALT :: u8 where "KEY_LALT = 0x38"

lemmas key_defs =
  KEY_A_def KEY_B_def KEY_C_def KEY_D_def KEY_E_def KEY_F_def KEY_G_def KEY_H_def KEY_I_def
  KEY_J_def KEY_K_def KEY_L_def KEY_M_def KEY_N_def KEY_O_def KEY_P_def KEY_Q_def KEY_R_def
  KEY_S_def KEY_T_def KEY_U_def KEY_V_def KEY_W_def KEY_X_def KEY_Y_def KEY_Z_def KEY_1_def
  KEY_2_def KEY_3_def KEY_4_def KEY_5_def KEY_6_def KEY_7_def KEY_8_def KEY_9_def KEY_0_def
  KEY_MINUS_def KEY_EQUAL_def KEY_SQUARE_OPEN_BRACKET_def KEY_SQUARE_CLOSE_BRACKET_def
  KEY_SEMICOLON_def KEY_APOSTROPHE_def KEY_BACKSLASH_def KEY_COMMA_def KEY_DOT_def
  KEY_FORESLHASH_def KEY_F1_def KEY_F2_def KEY_F3_def KEY_F4_def KEY_F5_def KEY_F6_def
  KEY_F7_def KEY_F8_def KEY_F9_def KEY_F10_def KEY_F11_def KEY_F12_def KEY_BACKSPACE_def
  KEY_DELETE_def KEY_DOWN_def KEY_END_def KEY_ENTER_def KEY_ESC_def KEY_HOME_def KEY_INSERT_def
  KEY_KEYPAD_5_def KEY_KEYPAD_MUL_def KEY_KEYPAD_Minus_def KEY_KEYPAD_PLUS_def
  KEY_KEYPAD_DIV_def KEY_LEFT_def KEY_PAGE_DOWN_def KEY_PAGE_UP_def KEY_PRINT_SCREEN_def
  KEY_RIGHT_def KEY_SPACE_def KEY_TAB_def KEY_UP_def KEY_LSHIFT_def KEY_RSHIFT_def
  KEY_CAPS_LOCK_def KEY_LCTRL_def KEY_LALT_def

section \<open>Translation tables\<close>

definition acsii_low_cases :: "(u8 \<times> u8) list" where
  "acsii_low_cases =
    [(KEY_A, ch CHR ''a''),
     (KEY_B, ch CHR ''b''),
     (KEY_C, ch CHR ''c''),
     (KEY_D, ch CHR ''d''),
     (KEY_E, ch CHR ''e''),
     (KEY_F, ch CHR ''f''),
     (KEY_G, ch CHR ''g''),
     (KEY_H, ch CHR ''h''),
     (KEY_I, ch CHR ''i''),
     (KEY_J, ch CHR ''j''),
     (KEY_K, ch CHR ''k''),
     (KEY_L, ch CHR ''l''),
     (KEY_M, ch CHR ''m''),
     (KEY_N, ch CHR ''n''),
     (KEY_O, ch CHR ''o''),
     (KEY_P, ch CHR ''p''),
     (KEY_Q, ch CHR ''q''),
     (KEY_R, ch CHR ''r''),
     (KEY_S, ch CHR ''s''),
     (KEY_T, ch CHR ''t''),
     (KEY_U, ch CHR ''u''),
     (KEY_V, ch CHR ''v''),
     (KEY_W, ch CHR ''w''),
     (KEY_X, ch CHR ''x''),
     (KEY_Y, ch CHR ''y''),
     (KEY_Z, ch CHR ''z''),
     (KEY_1, ch CHR ''1''),
     (KEY_2, ch CHR ''2''),
     (KEY_3, ch CHR ''3''),
     (KEY_4, ch CHR ''4''),
     (KEY_5, ch CHR ''5''),
     (KEY_6, ch CHR ''6''),
     (KEY_7, ch CHR ''7''),
     (KEY_8, ch CHR ''8''),
     (KEY_9, ch CHR ''9''),
     (KEY_0, ch CHR ''0''),
     (KEY_MINUS, ch CHR ''-''),
     (KEY_EQUAL, ch CHR ''=''),
     (KEY_SQUARE_OPEN_BRACKET, ch CHR ''[''),
     (KEY_SQUARE_CLOSE_BRACKET, ch CHR '']''),
     (KEY_SEMICOLON, ch CHR '';''),
     (KEY_BACKSLASH, 92),
     (KEY_COMMA, ch CHR '',''),
     (KEY_DOT, ch CHR ''.''),
     (KEY_FORESLHASH, ch CHR ''/''),
     (KEY_SPACE, ch CHR '' ''),
     (KEY_APOSTROPHE, 39),
     (KEY_ENTER, 10)]"

definition get_acsii_low :: "u8 \<Rightarrow> u8" where
  "get_acsii_low code = (case map_of acsii_low_cases code of Some c \<Rightarrow> c | None \<Rightarrow> 0)"

definition acsii_high_cases :: "(u8 \<times> u8) list" where
  "acsii_high_cases =
    [(KEY_A, ch CHR ''A''),
     (KEY_B, ch CHR ''B''),
     (KEY_C, ch CHR ''C''),
     (KEY_D, ch CHR ''D''),
     (KEY_E, ch CHR ''E''),
     (KEY_F, ch CHR ''F''),
     (KEY_G, ch CHR ''G''),
     (KEY_H, ch CHR ''H''),
     (KEY_I, ch CHR ''I''),
     (KEY_J, ch CHR ''J''),
     (KEY_K, ch CHR ''K''),
     (KEY_L, ch CHR ''L''),
     (KEY_M, ch CHR ''M''),
     (KEY_N, ch CHR ''N''),
     (KEY_O, ch CHR ''O''),
     (KEY_P, ch CHR ''P''),
     (KEY_Q, ch CHR ''Q''),
     (KEY_R, ch CHR ''R''),
     (KEY_S, ch CHR ''S''),
     (KEY_T, ch CHR ''T''),
     (KEY_U, ch CHR ''U''),
     (KEY_V, ch CHR ''V''),
     (KEY_W, ch CHR ''W''),
     (KEY_X, ch CHR ''X''),
     (KEY_Y, ch CHR ''Y''),
     (KEY_Z, ch CHR ''Z''),
     (KEY_1, ch CHR ''!''),
     (KEY_2, ch CHR ''@''),
     (KEY_3, ch CHR ''#''),
     (KEY_4, ch CHR ''$''),
     (KEY_5, ch CHR ''%''),
     (KEY_6, ch CHR ''^''),
     (KEY_7, ch CHR ''&''),
     (KEY_8, ch CHR ''*''),
     (KEY_9, ch CHR ''(''),
     (KEY_0, ch CHR '')''),
     (KEY_MINUS, ch CHR ''_''),
     (KEY_EQUAL, ch CHR ''+''),
     (KEY_SQUARE_OPEN_BRACKET, ch CHR ''{''),
     (KEY_SQUARE_CLOSE_BRACKET, ch CHR ''}''),
     (KEY_SEMICOLON, ch CHR '':''),
     (KEY_BACKSLASH, ch CHR ''|''),
     (KEY_COMMA, ch CHR ''<''),
     (KEY_DOT, ch CHR ''>''),
     (KEY_FORESLHASH, ch CHR ''?''),
     (KEY_SPACE, ch CHR '' ''),
     (KEY_APOSTROPHE, 34)]"

definition get_acsii_high :: "u8 \<Rightarrow> u8" where
  "get_acsii_high code = (case map_of acsii_high_cases code of Some c \<Rightarrow> c | None \<Rightarrow> 0)"

section \<open>Properties of the tables\<close>

lemma map_of_inj:
  assumes "distinct (map snd t)" and "map_of t k = Some c" and "map_of t k' = Some c"
  shows "k = k'"
  using assms map_of_SomeD [OF assms(2)] map_of_SomeD [OF assms(3)]
  by (metis (no_types) distinct_map inj_onD snd_conv fst_conv)

lemma low_cases_distinct: "distinct (map snd acsii_low_cases)" "distinct (map fst acsii_low_cases)"
  by (simp_all add: acsii_low_cases_def key_defs)

lemma high_cases_distinct: "distinct (map snd acsii_high_cases)" "distinct (map fst acsii_high_cases)"
  by (simp_all add: acsii_high_cases_def key_defs)

lemma low_cases_nonzero: "0 \<notin> snd ` set acsii_low_cases"
  by (simp add: acsii_low_cases_def)

lemma high_cases_nonzero: "0 \<notin> snd ` set acsii_high_cases"
  by (simp add: acsii_high_cases_def)

lemma cases_keys: "set (map fst acsii_low_cases) = insert KEY_ENTER (set (map fst acsii_high_cases))"
  by (simp add: acsii_low_cases_def acsii_high_cases_def insert_commute)

lemma letter_cases:
  "list_all (\<lambda>(k, c). 97 \<le> c \<and> c \<le> 122 \<longrightarrow> map_of acsii_high_cases k = Some (c - 32)) acsii_low_cases"
  unfolding acsii_low_cases_def acsii_high_cases_def key_defs by simp

text \<open>
  C40.  Both tables translate different keys to different characters, they translate the same keys
  except that Enter is missing from the shifted table, and every key that gives a small letter
  gives the capital of the same letter in the shifted table.
\<close>

theorem key_tables_agree:
  "inj_on get_acsii_low {c. get_acsii_low c \<noteq> 0} \<and> inj_on get_acsii_high {c. get_acsii_high c \<noteq> 0} \<and>
   {c. get_acsii_low c \<noteq> 0} = insert KEY_ENTER {c. get_acsii_high c \<noteq> 0} \<and>
   {c. 97 \<le> get_acsii_low c \<and> get_acsii_low c \<le> 122} \<subseteq> {c. get_acsii_high c = get_acsii_low c - 32}"
proof (intro conjI)
  show "inj_on get_acsii_low {c. get_acsii_low c \<noteq> 0}"
    using map_of_inj [OF low_cases_distinct(1)]
    by (auto simp: inj_on_def get_acsii_low_def split: option.splits)
  show "inj_on get_acsii_high {c. get_acsii_high c \<noteq> 0}"
    using map_of_inj [OF high_cases_distinct(1)]
    by (auto simp: inj_on_def get_acsii_high_def split: option.splits)
  have l: "get_acsii_low c \<noteq> 0 \<longleftrightarrow> c \<in> set (map fst acsii_low_cases)" for c
    using low_cases_nonzero map_of_SomeD [of acsii_low_cases c]
    by (force simp: get_acsii_low_def map_of_eq_None_iff split: option.splits)
  have h: "get_acsii_high c \<noteq> 0 \<longleftrightarrow> c \<in> set (map fst acsii_high_cases)" for c
    using high_cases_nonzero map_of_SomeD [of acsii_high_cases c]
    by (force simp: get_acsii_high_def map_of_eq_None_iff split: option.splits)
  show "{c. get_acsii_low c \<noteq> 0} = insert KEY_ENTER {c. get_acsii_high c \<noteq> 0}"
    unfolding l h using cases_keys by auto
  show "{c. 97 \<le> get_acsii_low c \<and> get_acsii_low c \<le> 122} \<subseteq> {c. get_acsii_high c = get_acsii_low c - 32}"
  proof clarify
    fix c
    assume a: "97 \<le> get_acsii_low c" "get_acsii_low c \<le> 122"
    then obtain d where d: "map_of acsii_low_cases c = Some d" "get_acsii_low c = d"
      by (auto simp: get_acsii_low_def split: option.splits)
    have "(c, d) \<in> set acsii_low_cases" using map_of_SomeD [OF d(1)] .
    then have "map_of acsii_high_cases c = Some (d - 32)"
      using letter_cases a d(2) unfolding list_all_iff by fastforce
    then show "get_acsii_high c = get_acsii_low c - 32" using d(2) by (simp add: get_acsii_high_def)
  qed
qed

end
