(* ===== verification/Input.thy ===== *)
theory Input
  imports KeyTables Strings
begin

text \<open>
  Keyboard input of \<open>cpu/kprintf.c\<close>: the interrupt handlers \<open>kscan_handler\<close> (line editing) and
  \<open>getch_handler\<close> (single characters) and the state they share.  The scancode comes from port 0x60,
  so from the bus.  \<open>kscan_buf\<close> is the address of the line buffer, a constant of the program.
\<close>

section \<open>State\<close>

record input_machine = heap_machine +
  capslock :: bool
  shift :: bool
  ctrl :: bool
  alt :: bool
  kscan_pos :: u64
  enter :: bool
  kscan_buf :: u64
  getch_end :: bool
  getch_char :: u8

definition KSCAN_BUF_SIZE :: nat where "KSCAN_BUF_SIZE = 512"

section \<open>Handlers\<close>

text \<open>The first \<open>switch\<close> of both handlers; \<open>Some\<close> if the key is a modifier and the handler
  returns.\<close>

definition modifier_key :: "u8 \<Rightarrow> bool \<Rightarrow> 'a input_machine_scheme \<Rightarrow> 'a input_machine_scheme option" where
  "modifier_key scancode pressed s =
    (if scancode = KEY_LSHIFT \<or> scancode = KEY_RSHIFT then Some (s\<lparr>shift := pressed\<rparr>)
     else if scancode = KEY_CAPS_LOCK then Some (if pressed then s\<lparr>capslock := \<not> capslock s\<rparr> else s)
     else if scancode = KEY_LCTRL then Some (s\<lparr>ctrl := pressed\<rparr>)
     else if scancode = KEY_LALT then Some (s\<lparr>alt := pressed\<rparr>)
     else None)"

definition key_char :: "u8 \<Rightarrow> 'a input_machine_scheme \<Rightarrow> u8" where
  "key_char scancode s = (if shift s \<or> capslock s then get_acsii_high scancode else get_acsii_low scancode)"

definition kscan_backspace :: "u64 \<Rightarrow> 'a input_machine_scheme \<Rightarrow> 'a input_machine_scheme" where
  "kscan_backspace len s =
    (let buf = kscan_buf s;
         s = s\<lparr>mem := memmove (mem s) (buf + (kscan_pos s - 1)) (buf + kscan_pos s) (len - kscan_pos s + 1)\<rparr>;
         s = s\<lparr>kscan_pos := kscan_pos s - 1\<rparr>;
         s = s\<lparr>mem := (mem s)(buf + (len - 1) := 0)\<rparr>;
         (cursor_pos, s) = get_cursor s;
         start_pos = ucast (ucast cursor_pos - len * 2) :: u16;
         s = set_cursor start_pos s;
         s = fold (\<lambda>i s. kputchar (mem s (buf + of_nat i)) 0x07 s) [0 ..< unat len] s;
         s = kputchar (ch CHR '' '') 0x07 s
     in set_cursor (ucast (ucast start_pos + kscan_pos s * 2)) s)"

text \<open>\<open>strins\<close> takes the position as an \<open>int\<close>.\<close>

definition kscan_insert :: "u8 \<Rightarrow> 'a input_machine_scheme \<Rightarrow> 'a input_machine_scheme option" where
  "kscan_insert c s = do {
     m \<leftarrow> strins (mem s) (kscan_buf s) c (sint (ucast (kscan_pos s) :: u32));
     let s = kputchar c 0x07 (s\<lparr>mem := m\<rparr>);
     Some (s\<lparr>kscan_pos := kscan_pos s + 1\<rparr>) }"

definition kscan_handler :: "'a input_machine_scheme \<Rightarrow> 'a input_machine_scheme option" where
  "kscan_handler s = do {
     let (code, s) = inb 0x60 s;
     let pressed = \<not> bit code 7;
     let scancode = code AND 0x7F;
     len \<leftarrow> strlen (mem s) (kscan_buf s);
     let len = of_int len;
     (case modifier_key scancode pressed s of
        Some s \<Rightarrow> Some s
      | None \<Rightarrow>
          if scancode = KEY_LEFT \<and> pressed then
            Some (if 0 < kscan_pos s then s\<lparr>kscan_pos := kscan_pos s - 1\<rparr> else s)
          else if scancode = KEY_RIGHT \<and> pressed then
            Some (if kscan_pos s < len then s\<lparr>kscan_pos := kscan_pos s + 1\<rparr> else s)
          else if scancode = 0x0E then
            Some (if pressed \<and> 0 < kscan_pos s then kscan_backspace len s else s)
          else if scancode = 0x1C then
            (if pressed then do {
               s \<leftarrow> kprintf ''\<newline>'' [] s;
               Some (s\<lparr>enter := True, kscan_pos := 0\<rparr>) }
             else Some s)
          else if pressed \<and> key_char scancode s \<noteq> 0 then kscan_insert (key_char scancode s) s
          else Some s) }"

text \<open>The keys that \<open>getch_handler\<close> treats itself, with the value it reports for them.\<close>

definition getch_cases :: "(u8 \<times> u8) list" where
  "getch_cases =
    [(KEY_ENTER, 10), (KEY_BACKSPACE, 8), (KEY_TAB, 9), (KEY_ESC, 27),
     (KEY_UP, 72), (KEY_DOWN, 80), (KEY_LEFT, 75), (KEY_RIGHT, 77),
     (KEY_F1, 59), (KEY_F2, 60), (KEY_F3, 61), (KEY_F4, 62), (KEY_F5, 63), (KEY_F6, 64),
     (KEY_F7, 65), (KEY_F8, 66), (KEY_F9, 67), (KEY_F10, 68), (KEY_F11, 69), (KEY_F12, 70)]"

definition getch_handler :: "'a input_machine_scheme \<Rightarrow> 'a input_machine_scheme" where
  "getch_handler s =
    (let (code, s) = inb 0x60 s;
         pressed = \<not> bit code 7;
         scancode = code AND 0x7F in
     case modifier_key scancode pressed s of
       Some s \<Rightarrow> s
     | None \<Rightarrow>
         if \<not> pressed then s
         else (case map_of getch_cases scancode of
             Some v \<Rightarrow> s\<lparr>getch_char := v, getch_end := True\<rparr>
           | None \<Rightarrow>
               if key_char scancode s \<noteq> 0 then s\<lparr>getch_char := key_char scancode s, getch_end := True\<rparr>
               else s))"

end
