(* ===== verification/Keyboard.thy ===== *)
theory Keyboard
  imports Prelude
begin

text \<open>
  The keyboard ring buffer of \<open>drivers/input/keyboard.c\<close>, the interface of a bounded queue that
  its clients rely on, and the proof that the ring buffer is such a queue.
\<close>

section \<open>The code\<close>

definition KB_BUF_SIZE :: u32 where "KB_BUF_SIZE = 128"

record keyboard =
  kb_buf :: "u8 list"
  kb_head :: u32
  kb_tail :: u32

definition keyboard_buffer_push :: "u8 \<Rightarrow> keyboard \<Rightarrow> keyboard" where
  "keyboard_buffer_push c k =
    (let nxt = (kb_head k + 1) mod KB_BUF_SIZE in
     if nxt \<noteq> kb_tail k
     then k\<lparr>kb_buf := (kb_buf k)[unat (kb_head k) := c], kb_head := nxt\<rparr>
     else k)"

text \<open>\<open>None\<close>: the C function returns 0; \<open>Some c\<close>: it stores \<open>c\<close> and returns 1.\<close>

definition keyboard_buffer_pop :: "keyboard \<Rightarrow> u8 option \<times> keyboard" where
  "keyboard_buffer_pop k =
    (if kb_head k = kb_tail k then (None, k)
     else (Some (kb_buf k ! unat (kb_tail k)), k\<lparr>kb_tail := (kb_tail k + 1) mod KB_BUF_SIZE\<rparr>))"

text \<open>The static variables before the first call.\<close>

definition keyboard_start :: keyboard where
  "keyboard_start = \<lparr>kb_buf = replicate 128 0, kb_head = 0, kb_tail = 0\<rparr>"

section \<open>Bounded queues\<close>

datatype 'a queue_op = Push 'a | Pop

fun run_queue :: "('a \<Rightarrow> 's \<Rightarrow> 's) \<Rightarrow> ('s \<Rightarrow> 'a option \<times> 's) \<Rightarrow> 'a queue_op list \<Rightarrow> 's \<Rightarrow> 'a option list \<times> 's" where
  "run_queue push pop [] s = ([], s)"
| "run_queue push pop (Push c # ops) s = run_queue push pop ops (push c s)"
| "run_queue push pop (Pop # ops) s =
    (let (r, s) = pop s; (rs, s) = run_queue push pop ops s in (r # rs, s))"

text \<open>The reference: a list that drops what does not fit.\<close>

definition list_push :: "nat \<Rightarrow> 'a \<Rightarrow> 'a list \<Rightarrow> 'a list" where
  "list_push cap c q = (if length q < cap then q @ [c] else q)"

fun list_pop :: "'a list \<Rightarrow> 'a option \<times> 'a list" where
  "list_pop [] = (None, [])"
| "list_pop (c # q) = (Some c, q)"

locale bounded_queue =
  fixes ok :: "'s \<Rightarrow> bool" and contents :: "'s \<Rightarrow> 'a list" and push :: "'a \<Rightarrow> 's \<Rightarrow> 's"
    and pop :: "'s \<Rightarrow> 'a option \<times> 's" and cap :: nat
  assumes push_ok: "ok s \<Longrightarrow> ok (push c s)"
    and push_contents: "ok s \<Longrightarrow> contents (push c s) = list_push cap c (contents s)"
    and pop_ok: "ok s \<Longrightarrow> ok (snd (pop s))"
    and pop_contents: "ok s \<Longrightarrow> map_prod id contents (pop s) = list_pop (contents s)"
begin

lemma pop_split:
  assumes "ok s"
  obtains r s' where "pop s = (r, s')" and "ok s'" and "list_pop (contents s) = (r, contents s')"
proof -
  obtain r s' where p: "pop s = (r, s')" by fastforce
  show ?thesis using that [OF p] pop_ok [OF assms] pop_contents [OF assms] by (simp add: p)
qed

lemma run_refines:
  "ok s \<Longrightarrow> run_queue push pop ops s = (rs, s') \<Longrightarrow>
    ok s' \<and> run_queue (list_push cap) list_pop ops (contents s) = (rs, contents s')"
proof (induction ops arbitrary: s rs s')
  case (Cons op ops)
  show ?case
  proof (cases op)
    case (Push c)
    then show ?thesis using Cons.IH [of "push c s" rs] Cons.prems push_ok push_contents by simp
  next
    case Pop
    obtain r s1 where p: "pop s = (r, s1)" "ok s1" "list_pop (contents s) = (r, contents s1)"
      using pop_split [OF Cons.prems(1)] by blast
    obtain rs1 s2 where r: "run_queue push pop ops s1 = (rs1, s2)" by fastforce
    show ?thesis using Cons.IH [OF p(2) r] Cons.prems(2) p r Pop by simp
  qed
qed simp

lemma fold_push: "ok s \<Longrightarrow> ok (fold push cs s) \<and> contents (fold push cs s) = fold (list_push cap) cs (contents s)"
  by (induction cs arbitrary: s) (auto simp: push_ok push_contents)

lemma drain:
  "ok s \<Longrightarrow> fst (run_queue push pop (replicate n Pop) s) =
    map Some (take n (contents s)) @ replicate (n - length (contents s)) None"
proof (induction n arbitrary: s)
  case (Suc n)
  obtain r s1 where p: "pop s = (r, s1)" "ok s1" "list_pop (contents s) = (r, contents s1)"
    using pop_split [OF Suc.prems] by blast
  show ?case using Suc.IH [OF p(2)] p by (cases "contents s") (auto simp: split_beta)
qed simp

end

lemma fold_list_push: "length q \<le> cap \<Longrightarrow> fold (list_push cap) cs q = take cap (q @ cs)"
proof (induction cs arbitrary: q)
  case (Cons c cs)
  then show ?case
    by (cases "length q < cap") (simp_all add: list_push_def Suc_diff_Suc [symmetric])
qed simp

section \<open>The ring buffer is a bounded queue\<close>

definition kb_ok :: "keyboard \<Rightarrow> bool" where
  "kb_ok k \<longleftrightarrow> length (kb_buf k) = 128 \<and> unat (kb_head k) < 128 \<and> unat (kb_tail k) < 128"

definition kb_count :: "nat \<Rightarrow> nat \<Rightarrow> nat" where
  "kb_count h t = (h + 128 - t) mod 128"

definition kb_contents :: "keyboard \<Rightarrow> u8 list" where
  "kb_contents k = map (\<lambda>i. kb_buf k ! ((unat (kb_tail k) + i) mod 128))
     [0 ..< kb_count (unat (kb_head k)) (unat (kb_tail k))]"

lemma kb_next: "unat (i :: u32) < 128 \<Longrightarrow> unat ((i + 1) mod KB_BUF_SIZE) = (unat i + 1) mod 128"
proof -
  assume "unat i < 128"
  then have "unat (i + 1) = unat i + 1" by (intro unat_add_lem [THEN iffD1, THEN trans]) simp_all
  then show ?thesis by (simp add: KB_BUF_SIZE_def unat_mod)
qed

lemma mod_128: "(x :: nat) < 256 \<Longrightarrow> x mod 128 = (if x < 128 then x else x - 128)"
  by (simp add: mod_if)

lemma kb_count_eq: "h < 128 \<Longrightarrow> t < 128 \<Longrightarrow> kb_count h t = (if t \<le> h then h - t else h + 128 - t)"
  by (simp add: kb_count_def mod_128)

lemma kb_count_push:
  assumes "h < 128" and "t < 128"
  shows "(h + 1) mod 128 \<noteq> t \<longleftrightarrow> kb_count h t < 127"
    and "(h + 1) mod 128 \<noteq> t \<Longrightarrow> kb_count ((h + 1) mod 128) t = Suc (kb_count h t)"
    and "(t + kb_count h t) mod 128 = h"
    and "i < kb_count h t \<Longrightarrow> (t + i) mod 128 \<noteq> h"
  using assms by (auto simp: kb_count_eq mod_128 split: if_splits)

lemma kb_count_pop:
  assumes "h < 128" and "t < 128" and "h \<noteq> t"
  shows "kb_count h t = Suc (kb_count h ((t + 1) mod 128))"
    and "((t + 1) mod 128 + i) mod 128 = (t + Suc i) mod 128"
proof -
  show "kb_count h t = Suc (kb_count h ((t + 1) mod 128))"
    using assms by (auto simp: kb_count_eq mod_128 split: if_splits)
  show "((t + 1) mod 128 + i) mod 128 = (t + Suc i) mod 128"
    using mod_add_left_eq [of "t + 1" 128 i] by simp
qed

lemma kb_push_ok: "kb_ok k \<Longrightarrow> kb_ok (keyboard_buffer_push c k)"
  by (simp add: kb_ok_def keyboard_buffer_push_def Let_def kb_next)

lemma kb_push_contents:
  assumes "kb_ok k"
  shows "kb_contents (keyboard_buffer_push c k) = list_push 127 c (kb_contents k)"
proof -
  let ?h = "unat (kb_head k)" and ?t = "unat (kb_tail k)"
  have b: "length (kb_buf k) = 128" "?h < 128" "?t < 128" using assms by (simp_all add: kb_ok_def)
  have full: "(kb_head k + 1) mod KB_BUF_SIZE \<noteq> kb_tail k \<longleftrightarrow> kb_count ?h ?t < 127"
    using kb_count_push(1) [OF b(2,3)] kb_next [OF b(2)] by (metis word_unat_eq_iff)
  have len: "length (kb_contents k) = kb_count ?h ?t" by (simp add: kb_contents_def)
  show ?thesis
  proof (cases "kb_count ?h ?t < 127")
    case True
    have n: "kb_count ((?h + 1) mod 128) ?t = Suc (kb_count ?h ?t)"
      using kb_count_push(1,2) [OF b(2,3)] True by blast
    have "kb_contents (keyboard_buffer_push c k) =
        map (\<lambda>i. (kb_buf k)[?h := c] ! ((?t + i) mod 128)) [0 ..< Suc (kb_count ?h ?t)]"
      using True full n kb_next [OF b(2)] by (simp add: keyboard_buffer_push_def Let_def kb_contents_def)
    also have "\<dots> = kb_contents k @ [c]"
      using kb_count_push(3) [OF b(2,3)] kb_count_push(4) [OF b(2,3), THEN not_sym] b(1,2)
      by (simp add: kb_contents_def)
    finally show ?thesis using True len by (simp add: list_push_def)
  next
    case False
    then show ?thesis using full len by (simp add: keyboard_buffer_push_def Let_def list_push_def)
  qed
qed

lemma kb_pop_ok: "kb_ok k \<Longrightarrow> kb_ok (snd (keyboard_buffer_pop k))"
  by (simp add: kb_ok_def keyboard_buffer_pop_def kb_next)

lemma kb_pop_contents:
  assumes "kb_ok k"
  shows "map_prod id kb_contents (keyboard_buffer_pop k) = list_pop (kb_contents k)"
proof -
  let ?h = "unat (kb_head k)" and ?t = "unat (kb_tail k)"
  have b: "?h < 128" "?t < 128" using assms by (simp_all add: kb_ok_def)
  show ?thesis
  proof (cases "kb_head k = kb_tail k")
    case True
    then have "kb_contents k = []" by (simp add: kb_contents_def kb_count_def)
    then show ?thesis using True by (simp add: keyboard_buffer_pop_def)
  next
    case False
    then have ne: "?h \<noteq> ?t" by (metis word_unat_eq_iff)
    have "kb_contents k = map (\<lambda>i. kb_buf k ! ((?t + i) mod 128)) (0 # map Suc [0 ..< kb_count ?h ((?t + 1) mod 128)])"
      by (simp only: kb_contents_def kb_count_pop(1) [OF b ne] upt_conv_Cons map_Suc_upt zero_less_Suc)
    also have "\<dots> = kb_buf k ! ?t # map (\<lambda>i. kb_buf k ! (((?t + 1) mod 128 + i) mod 128)) [0 ..< kb_count ?h ((?t + 1) mod 128)]"
      using b(2) unfolding kb_count_pop(2) [OF b ne] by simp
    finally show ?thesis using False kb_next [OF b(2)]
      by (simp add: keyboard_buffer_pop_def kb_contents_def)
  qed
qed

interpretation kbq: bounded_queue kb_ok kb_contents keyboard_buffer_push keyboard_buffer_pop 127
  by unfold_locales (auto intro: kb_push_ok kb_push_contents kb_pop_ok kb_pop_contents)

lemma keyboard_start_ok: "kb_ok keyboard_start" "kb_contents keyboard_start = []"
  by (simp_all add: kb_ok_def keyboard_start_def kb_contents_def kb_count_def)


section \<open>Properties\<close>

text \<open>
  C18.  The ring buffer is a queue of capacity 127: from the initial state, every sequence of pushes
  and pops returns, pop by pop, what a first-in first-out list returns that drops a character
  when it already holds 127.
\<close>

theorem keyboard_is_queue:
  "fst (run_queue keyboard_buffer_push keyboard_buffer_pop ops keyboard_start) =
    fst (run_queue (list_push 127) list_pop ops [])"
proof -
  obtain rs k where r: "run_queue keyboard_buffer_push keyboard_buffer_pop ops keyboard_start = (rs, k)"
    by fastforce
  show ?thesis using kbq.run_refines [OF keyboard_start_ok(1) r] r keyboard_start_ok(2) by simp
qed

text \<open>
  After characters \<open>cs\<close> have been pushed in a row into an empty buffer, \<open>n\<close> pops return the
  first \<open>n\<close> of them in order, up to the 127 that fit, and then report an empty buffer.
\<close>

theorem keyboard_fill_drain:
  "fst (run_queue keyboard_buffer_push keyboard_buffer_pop (map Push cs @ replicate n Pop) keyboard_start) =
    map Some (take n (take 127 cs)) @ replicate (n - min 127 (length cs)) None"
proof -
  have app: "run_queue keyboard_buffer_push keyboard_buffer_pop (map Push cs @ ops) k =
      run_queue keyboard_buffer_push keyboard_buffer_pop ops (fold keyboard_buffer_push cs k)" for cs ops k
    by (induction cs arbitrary: k) simp_all
  have k: "kb_ok (fold keyboard_buffer_push cs keyboard_start)"
    "kb_contents (fold keyboard_buffer_push cs keyboard_start) = take 127 cs"
    using kbq.fold_push [OF keyboard_start_ok(1), of cs] fold_list_push [of "[]" 127 cs] keyboard_start_ok(2)
    by simp_all
  show ?thesis unfolding app using kbq.drain [OF k(1), of n] k(2) by (simp add: min.commute)
qed

end
