(* ===== verification/Descriptors.thy ===== *)
theory Descriptors
  imports Machine MemOps
begin

text \<open>
  The descriptor tables: \<open>cpu/gdt.c\<close>, \<open>cpu/tss.c\<close> and the table part of \<open>cpu/idt.c\<close>.  A table is
  the list of its entries; the addresses at which the linker places the tables and the TSS are
  arguments.  The instructions \<open>lgdt\<close>, \<open>lidt\<close> and \<open>ltr\<close> load a register of the record.
\<close>

section \<open>The global descriptor table\<close>

record gdt_entry =
  limit_low :: u16
  base_low :: u16
  base_mid :: u8
  access :: u8
  flags_limit :: u8
  base_high :: u8

record table_register =
  dt_size :: u16
  dt_offset :: u64

definition GDT_ENTRIES :: nat where "GDT_ENTRIES = 7"
definition GDT_FLAG_GRANULARITY :: u8 where "GDT_FLAG_GRANULARITY = 0x8"
definition GDT_FLAG_LONGMODE :: u8 where "GDT_FLAG_LONGMODE = 0x2"
definition GDT_ACCESS_RING0 :: u8 where "GDT_ACCESS_RING0 = 0x00"
definition GDT_ACCESS_RING3 :: u8 where "GDT_ACCESS_RING3 = 0x60"
definition GDT_ACCESS_PRESENT :: u8 where "GDT_ACCESS_PRESENT = 0x80"
definition GDT_ACCESS_CODE :: u8 where "GDT_ACCESS_CODE = 0x18"
definition GDT_ACCESS_DATA :: u8 where "GDT_ACCESS_DATA = 0x10"
definition GDT_ACCESS_RW :: u8 where "GDT_ACCESS_RW = 0x02"

lemmas gdt_consts = GDT_ENTRIES_def GDT_FLAG_GRANULARITY_def GDT_FLAG_LONGMODE_def GDT_ACCESS_RING0_def
  GDT_ACCESS_RING3_def GDT_ACCESS_PRESENT_def GDT_ACCESS_CODE_def GDT_ACCESS_DATA_def GDT_ACCESS_RW_def

definition gdt_encode :: "u32 \<Rightarrow> u32 \<Rightarrow> u8 \<Rightarrow> u8 \<Rightarrow> gdt_entry" where
  "gdt_encode base limit acc flags = \<lparr>
     limit_low = ucast (limit AND 0xFFFF),
     base_low = ucast (base AND 0xFFFF),
     base_mid = ucast (drop_bit 16 base AND 0xFF),
     access = acc,
     flags_limit = ucast ((drop_bit 16 limit AND 0x0F) OR push_bit 4 (ucast flags)),
     base_high = ucast (drop_bit 24 base AND 0xFF)\<rparr>"

text \<open>An index outside the table is undefined.\<close>

definition gdt_set_entry :: "nat \<Rightarrow> u32 \<Rightarrow> u32 \<Rightarrow> u8 \<Rightarrow> u8 \<Rightarrow> gdt_entry list \<Rightarrow> gdt_entry list option" where
  "gdt_set_entry idx base limit acc flags gdt =
    (if idx < length gdt then Some (gdt[idx := gdt_encode base limit acc flags]) else None)"

definition gdt_set_tss_entry :: "nat \<Rightarrow> u64 \<Rightarrow> u32 \<Rightarrow> gdt_entry list \<Rightarrow> gdt_entry list option" where
  "gdt_set_tss_entry idx base limit gdt =
    (if Suc idx < length gdt then
       Some (gdt[idx := \<lparr>limit_low = ucast (limit AND 0xFFFF), base_low = ucast (base AND 0xFFFF),
                  base_mid = ucast (drop_bit 16 base AND 0xFF), access = 0x89,
                  flags_limit = ucast (drop_bit 16 limit AND 0x0F),
                  base_high = ucast (drop_bit 24 base AND 0xFF)\<rparr>,
               Suc idx := \<lparr>limit_low = ucast (drop_bit 32 base AND 0xFFFF),
                  base_low = ucast (drop_bit 48 base AND 0xFFFF), base_mid = 0, access = 0,
                  flags_limit = 0, base_high = 0\<rparr>])
     else None)"

text \<open>\<open>gdt_init\<close>, up to the reload of the segment registers; \<open>addr\<close> is the address of the table.\<close>

definition gdt_init :: "u64 \<Rightarrow> gdt_entry list \<Rightarrow> (gdt_entry list \<times> table_register) option" where
  "gdt_init addr gdt = do {
     let gdtr = \<lparr>dt_size = of_nat (8 * GDT_ENTRIES) - 1, dt_offset = addr\<rparr>;
     gdt \<leftarrow> gdt_set_entry 0 0 0 0 0 gdt;
     gdt \<leftarrow> gdt_set_entry 1 0 0 (GDT_ACCESS_PRESENT OR GDT_ACCESS_RING0 OR GDT_ACCESS_CODE OR GDT_ACCESS_RW)
              (GDT_FLAG_GRANULARITY OR GDT_FLAG_LONGMODE) gdt;
     gdt \<leftarrow> gdt_set_entry 2 0 0 (GDT_ACCESS_PRESENT OR GDT_ACCESS_RING0 OR GDT_ACCESS_DATA OR GDT_ACCESS_RW)
              GDT_FLAG_GRANULARITY gdt;
     gdt \<leftarrow> gdt_set_entry 3 0 0 (GDT_ACCESS_PRESENT OR GDT_ACCESS_RING3 OR GDT_ACCESS_DATA OR GDT_ACCESS_RW)
              GDT_FLAG_GRANULARITY gdt;
     gdt \<leftarrow> gdt_set_entry 4 0 0 (GDT_ACCESS_PRESENT OR GDT_ACCESS_RING3 OR GDT_ACCESS_CODE OR GDT_ACCESS_RW)
              (GDT_FLAG_GRANULARITY OR GDT_FLAG_LONGMODE) gdt;
     Some (gdt, gdtr) }"

section \<open>The task state segment\<close>

definition KERNEL_STACK_SIZE :: u64 where "KERNEL_STACK_SIZE = 8192"
definition SIZEOF_TSS :: u32 where "SIZEOF_TSS = 104"

text \<open>\<open>rsp0\<close> is the second field, at offset 4; the result is the memory, the table and the task
  register.\<close>

definition tss_init :: "u64 \<Rightarrow> u64 \<Rightarrow> memory \<Rightarrow> gdt_entry list \<Rightarrow> (memory \<times> gdt_entry list \<times> u16) option" where
  "tss_init tss_entry kernel_stack m gdt = do {
     let m = memset m tss_entry 0 SIZEOF_TSS;
     let m = wr64 m (tss_entry + 4) (kernel_stack + KERNEL_STACK_SIZE);
     gdt \<leftarrow> gdt_set_tss_entry 5 tss_entry (SIZEOF_TSS - 1) gdt;
     Some (m, gdt, 5 * 8) }"

section \<open>The interrupt descriptor table\<close>

record idt_entry =
  offset_low :: u16
  selector :: u16
  ist :: u8
  type_attr :: u8
  offset_mid :: u16
  offset_high :: u32
  idt_zero :: u32

definition IDT_SIZE :: nat where "IDT_SIZE = 256"

definition idt_gate :: "u64 \<Rightarrow> u8 \<Rightarrow> idt_entry" where
  "idt_gate handler flags = \<lparr>
     offset_low = ucast (handler AND 0xFFFF),
     selector = 0x08,
     ist = 0,
     type_attr = flags,
     offset_mid = ucast (drop_bit 16 handler AND 0xFFFF),
     offset_high = ucast (drop_bit 32 handler AND 0xFFFFFFFF),
     idt_zero = 0\<rparr>"

definition idt_set_gate :: "u8 \<Rightarrow> u64 \<Rightarrow> u8 \<Rightarrow> idt_entry list \<Rightarrow> idt_entry list" where
  "idt_set_gate vector handler flags idt = idt[unat vector := idt_gate handler flags]"

definition gate_flags :: "nat \<Rightarrow> u8" where
  "gate_flags i = (if i = 0x80 then 0xEE else 0x8E)"

text \<open>\<open>stubs\<close> is \<open>isr_stub_table\<close>, which the assembler builds; \<open>addr\<close> the address of the table.\<close>

definition idt_init :: "(nat \<Rightarrow> u64) \<Rightarrow> u64 \<Rightarrow> idt_entry list \<Rightarrow> idt_entry list \<times> table_register" where
  "idt_init stubs addr idt =
    (fold (\<lambda>i. idt_set_gate (of_nat i) (stubs i) (gate_flags i)) [0 ..< IDT_SIZE] idt,
     \<lparr>dt_size = of_nat (16 * IDT_SIZE) - 1, dt_offset = addr\<rparr>)"

section \<open>What the processor reads from an entry\<close>

definition seg_base :: "gdt_entry \<Rightarrow> u32" where
  "seg_base e = ucast (base_low e) OR push_bit 16 (ucast (base_mid e)) OR push_bit 24 (ucast (base_high e))"

definition seg_limit :: "gdt_entry \<Rightarrow> u32" where
  "seg_limit e = ucast (limit_low e) OR push_bit 16 (ucast (flags_limit e AND 0x0F))"

definition seg_flags :: "gdt_entry \<Rightarrow> u8" where
  "seg_flags e = drop_bit 4 (flags_limit e)"

definition tss_base :: "gdt_entry \<Rightarrow> gdt_entry \<Rightarrow> u64" where
  "tss_base lo hi = ucast (seg_base lo) OR push_bit 32 (ucast (limit_low hi)) OR push_bit 48 (ucast (base_low hi))"

definition gate_offset :: "idt_entry \<Rightarrow> u64" where
  "gate_offset e = ucast (offset_low e) OR push_bit 16 (ucast (offset_mid e)) OR push_bit 32 (ucast (offset_high e))"

lemma and_masks:
  "(x :: u32) AND 0xFFFF = take_bit 16 x" "(x :: u32) AND 0xFF = take_bit 8 x" "(x :: u32) AND 0x0F = take_bit 4 x"
  "(y :: u64) AND 0xFFFF = take_bit 16 y" "(y :: u64) AND 0xFF = take_bit 8 y" "(y :: u64) AND 0xFFFFFFFF = take_bit 32 y"
  "(z :: u8) AND 0x0F = take_bit 4 z"
  by (simp_all add: take_bit_eq_mask mask_eq_exp_minus_1)

lemma seg_base_encode: "seg_base (gdt_encode b l a f) = b"
proof (rule bit_word_eqI)
  fix n
  assume "n < LENGTH(32)"
  then show "bit (seg_base (gdt_encode b l a f)) n = bit b n"
    by (cases "n < 16"; cases "n < 24") (auto simp: seg_base_def gdt_encode_def and_masks bit_simps)
qed

lemma seg_limit_encode: "seg_limit (gdt_encode b l a f) = take_bit 20 l"
proof (rule bit_word_eqI)
  fix n
  assume "n < LENGTH(32)"
  then show "bit (seg_limit (gdt_encode b l a f)) n = bit (take_bit 20 l) n"
    by (cases "n < 16"; cases "n < 20") (auto simp: seg_limit_def gdt_encode_def and_masks bit_simps)
qed

lemma seg_flags_encode: "seg_flags (gdt_encode b l a f) = take_bit 4 f"
  by (rule bit_word_eqI) (auto simp: seg_flags_def gdt_encode_def and_masks bit_simps)

lemma gate_offset_encode: "gate_offset (idt_gate h f) = h"
proof (rule bit_word_eqI)
  fix n
  assume "n < LENGTH(64)"
  then show "bit (gate_offset (idt_gate h f)) n = bit h n"
    by (cases "n < 16"; cases "n < 32") (auto simp: gate_offset_def idt_gate_def and_masks bit_simps)
qed

definition tss_low :: "u64 \<Rightarrow> u32 \<Rightarrow> gdt_entry" where
  "tss_low base limit = \<lparr>limit_low = ucast (limit AND 0xFFFF), base_low = ucast (base AND 0xFFFF),
     base_mid = ucast (drop_bit 16 base AND 0xFF), access = 0x89,
     flags_limit = ucast (drop_bit 16 limit AND 0x0F), base_high = ucast (drop_bit 24 base AND 0xFF)\<rparr>"

definition tss_high :: "u64 \<Rightarrow> gdt_entry" where
  "tss_high base = \<lparr>limit_low = ucast (drop_bit 32 base AND 0xFFFF),
     base_low = ucast (drop_bit 48 base AND 0xFFFF), base_mid = 0, access = 0, flags_limit = 0, base_high = 0\<rparr>"

lemma tss_base_encode: "tss_base (tss_low b l) (tss_high b) = b"
proof (rule bit_word_eqI)
  fix n
  assume "n < LENGTH(64)"
  then show "bit (tss_base (tss_low b l) (tss_high b)) n = bit b n"
    by (cases "n < 16"; cases "n < 24"; cases "n < 32"; cases "n < 48")
      (auto simp: tss_base_def seg_base_def tss_low_def tss_high_def and_masks bit_simps)
qed

lemma tss_limit_encode: "seg_limit (tss_low b l) = take_bit 20 l"
proof (rule bit_word_eqI)
  fix n
  assume "n < LENGTH(32)"
  then show "bit (seg_limit (tss_low b l)) n = bit (take_bit 20 l) n"
    by (cases "n < 16"; cases "n < 20") (auto simp: seg_limit_def tss_low_def and_masks bit_simps)
qed

lemma set_tss_entry: "Suc idx < length gdt \<Longrightarrow>
    gdt_set_tss_entry idx b l gdt = Some (gdt[idx := tss_low b l, Suc idx := tss_high b])"
  by (simp add: gdt_set_tss_entry_def tss_low_def tss_high_def)

section \<open>Properties\<close>

text \<open>
  The processor reads from an entry what \<open>gdt_set_entry\<close> was given: the base, the low 20 bits of
  the limit, the low 4 flag bits and the access byte.
\<close>

theorem gdt_entry_roundtrip:
  "seg_base (gdt_encode b l a f) = b \<and> seg_limit (gdt_encode b l a f) = take_bit 20 l \<and>
   seg_flags (gdt_encode b l a f) = take_bit 4 f \<and> access (gdt_encode b l a f) = a"
  by (simp add: seg_base_encode seg_limit_encode seg_flags_encode) (simp add: gdt_encode_def)

text \<open>The tables before the first call: static variables are zero.\<close>

definition gdt_start :: "gdt_entry list" where
  "gdt_start = replicate GDT_ENTRIES
     \<lparr>limit_low = 0, base_low = 0, base_mid = 0, access = 0, flags_limit = 0, base_high = 0\<rparr>"

definition idt_start :: "idt_entry list" where
  "idt_start = replicate IDT_SIZE \<lparr>offset_low = 0, selector = 0, ist = 0, type_attr = 0,
     offset_mid = 0, offset_high = 0, idt_zero = 0\<rparr>"

lemma gdt_tss_ok:
  "\<exists>gdt0 m' gdt. gdt_init addr gdt_start = Some (gdt0, \<lparr>dt_size = 55, dt_offset = addr\<rparr>) \<and>
    tss_init tss stack m gdt0 = Some (m', gdt, 0x28) \<and>
    map access gdt = [0, 0x9A, 0x92, 0xF2, 0xFA, 0x89, 0] \<and>
    map seg_flags (take 5 gdt) = [0, 0xA, 0x8, 0x8, 0xA] \<and>
    tss_base (gdt ! 5) (gdt ! 6) = tss \<and> seg_limit (gdt ! 5) = 103 \<and>
    rd64 m' (tss + 4) = stack + 8192 \<and>
    {x. m' x \<noteq> m x} \<subseteq> region tss 104 \<and> {x \<in> region tss 104. m' x \<noteq> 0} \<subseteq> region (tss + 4) 8"
proof -
  let ?n = "\<lparr>limit_low = 0, base_low = 0, base_mid = 0, access = 0, flags_limit = 0, base_high = 0\<rparr> :: gdt_entry"
  let ?g = "[gdt_encode 0 0 0 0, gdt_encode 0 0 0x9A 0xA, gdt_encode 0 0 0x92 0x8, gdt_encode 0 0 0xF2 0x8,
    gdt_encode 0 0 0xFA 0xA, ?n, ?n]"
  let ?t = "[gdt_encode 0 0 0 0, gdt_encode 0 0 0x9A 0xA, gdt_encode 0 0 0x92 0x8, gdt_encode 0 0 0xF2 0x8,
    gdt_encode 0 0 0xFA 0xA, tss_low tss 103, tss_high tss]"
  let ?m = "wr64 (memset m tss 0 SIZEOF_TSS) (tss + 4) (stack + 8192)"
  have st: "gdt_start = [?n, ?n, ?n, ?n, ?n, ?n, ?n]" by (simp add: gdt_start_def GDT_ENTRIES_def numeral_eq_Suc)
  have g: "gdt_init addr gdt_start = Some (?g, \<lparr>dt_size = 55, dt_offset = addr\<rparr>)"
    unfolding st gdt_init_def gdt_set_entry_def gdt_consts by simp
  have t: "tss_init tss stack m ?g = Some (?m, ?t, 0x28)"
    by (simp add: tss_init_def set_tss_entry SIZEOF_TSS_def KERNEL_STACK_SIZE_def)
  have acc: "access (gdt_encode b l a f) = a" "access (tss_low tss l) = 0x89" "access (tss_high tss) = 0" for b l a f
    by (simp_all add: gdt_encode_def tss_low_def tss_high_def)
  have mv: "?m x = (if x \<in> region tss 104 then 0 else m x)" if "x \<notin> region (tss + 4) 8" for x
    unfolding wr64_frame [OF that] by (simp add: memset_value SIZEOF_TSS_def)
  have sub: "region (tss + 4) 8 \<subseteq> region tss 104" by (rule region_offset_subset) simp_all
  have m1: "x \<in> region tss 104" if "?m x \<noteq> m x" for x
    using that mv [of x] sub by (cases "x \<in> region (tss + 4) 8") (auto split: if_splits)
  have m2: "x \<in> region (tss + 4) 8" if "x \<in> region tss 104" "?m x \<noteq> 0" for x
    using that mv [of x] by (cases "x \<in> region (tss + 4) 8") auto
  have m: "{x. ?m x \<noteq> m x} \<subseteq> region tss 104" "{x \<in> region tss 104. ?m x \<noteq> 0} \<subseteq> region (tss + 4) 8"
    using m1 m2 by blast+
  show ?thesis
    by (rule exI [of _ ?g], rule exI [of _ ?m], rule exI [of _ ?t])
      (use g t m in \<open>simp add: acc seg_flags_encode tss_base_encode tss_limit_encode rd64_wr64\<close>)
qed

text \<open>
  C32.  \<open>gdt_init\<close> followed by \<open>tss_init\<close> leaves a table of 56 bytes with the null descriptor, 64-bit code and
  data segments for ring 0 and ring 3, and a TSS descriptor with the address of the TSS and the limit
  103; the task register selects it, the TSS holds the top of the kernel stack in \<open>rsp0\<close>, and its other
  bytes are zero.
\<close>

theorem gdt_tss_init:
  "\<exists>gdt0 m' gdt. gdt_init addr gdt_start = Some (gdt0, \<lparr>dt_size = 55, dt_offset = addr\<rparr>) \<and>
    tss_init tss stack m gdt0 = Some (m', gdt, 0x28) \<and>
    map access gdt = [0, 0x9A, 0x92, 0xF2, 0xFA, 0x89, 0] \<and>
    map seg_flags (take 5 gdt) = [0, 0xA, 0x8, 0x8, 0xA] \<and>
    tss_base (gdt ! 5) (gdt ! 6) = tss \<and> seg_limit (gdt ! 5) = 103 \<and>
    rd64 m' (tss + 4) = stack + 8192 \<and>
    {x. m' x \<noteq> m x} \<subseteq> region tss 104 \<and> {x \<in> region tss 104. m' x \<noteq> 0} \<subseteq> region (tss + 4) 8"
  by (rule gdt_tss_ok)

lemma idt_init_fold:
  assumes "length xs = 256" and "n \<le> 256"
  shows "fold (\<lambda>i. idt_set_gate (of_nat i) (h i) (f i)) [0 ..< n] xs = map (\<lambda>i. idt_gate (h i) (f i)) [0 ..< n] @ drop n xs"
  using assms(2)
proof (induction n)
  case (Suc n)
  then have "unat (of_nat n :: u8) = n" by (intro unat_of_nat_small) simp
  moreover have "drop n xs = xs ! n # drop (Suc n) xs" using Suc.prems assms(1) by (simp add: Cons_nth_drop_Suc)
  ultimately show ?case using Suc by (simp add: idt_set_gate_def list_update_append)
qed simp

lemma idt_init_ok:
  "fst (idt_init stubs addr idt_start) = map (\<lambda>i. idt_gate (stubs i) (gate_flags i)) [0 ..< 256] \<and>
   map gate_offset (fst (idt_init stubs addr idt_start)) = map stubs [0 ..< 256] \<and>
   map selector (fst (idt_init stubs addr idt_start)) = replicate 256 8 \<and>
   map (\<lambda>e. drop_bit 5 (type_attr e) AND 3) (fst (idt_init stubs addr idt_start)) = (replicate 256 0)[0x80 := 3] \<and>
   snd (idt_init stubs addr idt_start) = \<lparr>dt_size = 4095, dt_offset = addr\<rparr>"
proof -
  have f: "fst (idt_init stubs addr idt_start) = map (\<lambda>i. idt_gate (stubs i) (gate_flags i)) [0 ..< 256]"
    using idt_init_fold [of idt_start 256 stubs gate_flags] by (simp add: idt_init_def IDT_SIZE_def idt_start_def del: upt_rec_numeral)
  have dpl: "map (\<lambda>i. drop_bit 5 (gate_flags i) AND 3) [0 ..< 256] = (replicate 256 0)[0x80 := 3]"
    by (rule nth_equalityI) (auto simp: gate_flags_def nth_list_update simp del: upt_rec_numeral)
  have ta: "type_attr (idt_gate h fl) = fl" "selector (idt_gate h fl) = 8" for h fl by (simp_all add: idt_gate_def)
  have sel: "map (\<lambda>i. 8 :: u16) [0 ..< 256] = replicate 256 8" by (simp add: map_replicate_const del: upt_rec_numeral)
  show ?thesis unfolding f
    using dpl sel by (simp add: gate_offset_encode ta o_def idt_init_def IDT_SIZE_def del: upt_rec_numeral)
qed

text \<open>
  \<open>idt_init\<close> fills all 256 gates: gate \<open>i\<close> leads to stub \<open>i\<close> of the stub table through the kernel code
  segment, and only the system call gate 0x80 may be used from ring 3.
\<close>

theorem idt_init_gates:
  "fst (idt_init stubs addr idt_start) = map (\<lambda>i. idt_gate (stubs i) (gate_flags i)) [0 ..< 256] \<and>
   map gate_offset (fst (idt_init stubs addr idt_start)) = map stubs [0 ..< 256] \<and>
   map selector (fst (idt_init stubs addr idt_start)) = replicate 256 8 \<and>
   map (\<lambda>e. drop_bit 5 (type_attr e) AND 3) (fst (idt_init stubs addr idt_start)) = (replicate 256 0)[0x80 := 3] \<and>
   snd (idt_init stubs addr idt_start) = \<lparr>dt_size = 4095, dt_offset = addr\<rparr>"
  by (rule idt_init_ok)

end
