(* ===== verification/Debug.thy ===== *)
theory Debug
  imports Machine
begin

text \<open>
  The debug console of \<open>debug.c\<close> (bytes to port 0xE9) and the interrupt controller of
  \<open>cpu/pic.c\<close>.
\<close>

section \<open>The debug console\<close>

definition putc_e9 :: "u8 \<Rightarrow> 'a machine_scheme \<Rightarrow> 'a machine_scheme" where
  "putc_e9 c s = outb 0xE9 c s"

definition qemu_debug_putc :: "u8 \<Rightarrow> 'a machine_scheme \<Rightarrow> 'a machine_scheme" where
  "qemu_debug_putc c s = (let s = (if c = 10 then putc_e9 13 s else s) in putc_e9 c s)"

text \<open>The digits \<open>put_uint\<close> collects in \<open>buf\<close>, the lowest first.\<close>

function uint_digits :: "nat \<Rightarrow> nat \<Rightarrow> u8 list" where
  "uint_digits val base =
    (if val = 0 \<or> base < 2 then []
     else lit ''0123456789abcdef'' ! (val mod base) # uint_digits (val div base) base)"
  by pat_completeness auto
termination
  by (relation "measure fst") (auto intro: div_less_dividend)

declare uint_digits.simps [simp del]

definition put_uint :: "u32 \<Rightarrow> nat \<Rightarrow> 'a machine_scheme \<Rightarrow> 'a machine_scheme" where
  "put_uint val base s =
    (if val = 0 then qemu_debug_putc (ch CHR ''0'') s
     else fold qemu_debug_putc (rev (uint_digits (unat val) base)) s)"

partial_function (option) put_cstr :: "u64 \<Rightarrow> 'a machine_scheme \<Rightarrow> 'a machine_scheme option" where
  "put_cstr p s = (if mem s p \<noteq> 0 then put_cstr (p + 1) (qemu_debug_putc (mem s p) s) else Some s)"

definition debug_convert :: "u8 \<Rightarrow> u64 list \<Rightarrow> 'a machine_scheme \<Rightarrow> (u64 list \<times> 'a machine_scheme) option" where
  "debug_convert spec args s =
    (if spec = ch CHR ''c'' then
       (case args of [] \<Rightarrow> None | a # args \<Rightarrow> Some (args, qemu_debug_putc (ucast a) s))
     else if spec = ch CHR ''s'' then
       (case args of [] \<Rightarrow> None | a # args \<Rightarrow> do { s \<leftarrow> put_cstr a s; Some (args, s) })
     else if spec = ch CHR ''d'' \<or> spec = ch CHR ''i'' then
       (case args of [] \<Rightarrow> None | a # args \<Rightarrow> do {
          let v = sint (ucast a :: u32);
          let s' = (if v < 0 then qemu_debug_putc (ch CHR ''-'') s else s);
          v \<leftarrow> (if v < 0 then c_int (- v) else Some v);
          Some (args, put_uint (of_int v) 10 s') })
     else if spec = ch CHR ''u'' then
       (case args of [] \<Rightarrow> None | a # args \<Rightarrow> Some (args, put_uint (ucast a) 10 s))
     else if spec = ch CHR ''x'' \<or> spec = ch CHR ''X'' then
       (case args of [] \<Rightarrow> None | a # args \<Rightarrow> Some (args, put_uint (ucast a) 16 s))
     else if spec = ch CHR ''%'' then Some (args, qemu_debug_putc (ch CHR ''%'') s)
     else Some (args, qemu_debug_putc spec (qemu_debug_putc (ch CHR ''%'') s)))"

fun debug_vprintf :: "u8 list \<Rightarrow> u64 list \<Rightarrow> 'a machine_scheme \<Rightarrow> 'a machine_scheme option" where
  "debug_vprintf [] args s = Some s"
| "debug_vprintf [c] args s = Some (if c \<noteq> ch CHR ''%'' then qemu_debug_putc c s else s)"
| "debug_vprintf (c # spec # p) args s =
    (if c \<noteq> ch CHR ''%'' then debug_vprintf (spec # p) args (qemu_debug_putc c s)
     else (case debug_convert spec args s of
         None \<Rightarrow> None
       | Some (args, s) \<Rightarrow> debug_vprintf p args s))"

definition qemu_debug_printf :: "string \<Rightarrow> u64 list \<Rightarrow> 'a machine_scheme \<Rightarrow> 'a machine_scheme option" where
  "qemu_debug_printf fmt args s = debug_vprintf (lit fmt) args s"

section \<open>The interrupt controllers\<close>

definition PIC1_COMMAND :: u16 where "PIC1_COMMAND = 0x20"
definition PIC1_DATA :: u16 where "PIC1_DATA = 0x21"
definition PIC2_COMMAND :: u16 where "PIC2_COMMAND = 0xA0"
definition PIC2_DATA :: u16 where "PIC2_DATA = 0xA1"
definition PIC_EOI :: u8 where "PIC_EOI = 0x20"
definition ICW1_ICW4 :: u8 where "ICW1_ICW4 = 0x01"
definition ICW1_INIT :: u8 where "ICW1_INIT = 0x10"
definition ICW4_8086 :: u8 where "ICW4_8086 = 0x01"

lemmas pic_defs = PIC1_COMMAND_def PIC1_DATA_def PIC2_COMMAND_def PIC2_DATA_def PIC_EOI_def
  ICW1_ICW4_def ICW1_INIT_def ICW4_8086_def

definition pic_remap :: "u8 \<Rightarrow> u8 \<Rightarrow> 'a machine_scheme \<Rightarrow> 'a machine_scheme" where
  "pic_remap offset1 offset2 s =
    (let (a1, s) = inb PIC1_DATA s;
         (a2, s) = inb PIC2_DATA s;
         s = outb PIC1_COMMAND (ICW1_INIT OR ICW1_ICW4) s;
         s = outb PIC2_COMMAND (ICW1_INIT OR ICW1_ICW4) s;
         s = outb PIC1_DATA offset1 s;
         s = outb PIC2_DATA offset2 s;
         s = outb PIC1_DATA 4 s;
         s = outb PIC2_DATA 2 s;
         s = outb PIC1_DATA ICW4_8086 s;
         s = outb PIC2_DATA ICW4_8086 s;
         s = outb PIC1_DATA a1 s
     in outb PIC2_DATA a2 s)"

definition pic_send_eoi :: "u8 \<Rightarrow> 'a machine_scheme \<Rightarrow> 'a machine_scheme" where
  "pic_send_eoi irq s =
    (let s = (if irq \<ge> 8 then outb PIC2_COMMAND PIC_EOI s else s) in outb PIC1_COMMAND PIC_EOI s)"

definition pic_set_mask :: "u8 \<Rightarrow> 'a machine_scheme \<Rightarrow> 'a machine_scheme" where
  "pic_set_mask irq_line s =
    (let port = (if irq_line < 8 then PIC1_DATA else PIC2_DATA);
         (v, s) = inb port s;
         value = v OR push_bit (unat (irq_line AND 7)) 1
     in outb port value s)"

definition pic_clear_mask :: "u8 \<Rightarrow> 'a machine_scheme \<Rightarrow> 'a machine_scheme" where
  "pic_clear_mask irq_line s =
    (let port = (if irq_line < 8 then PIC1_DATA else PIC2_DATA);
         (v, s) = inb port s;
         value = v AND NOT (push_bit (unat (irq_line AND 7)) 1)
     in outb port value s)"

end
