(* ===== verification/Interrupts.thy ===== *)
theory Interrupts
  imports Input Keyboard Descriptors Debug
begin

text \<open>
  The part of the kernel that runs in interrupt context: the dispatcher of \<open>cpu/idt.c\<close> with its table
  of handlers, the APIC timer of \<open>cpu/apic.c\<close> and the system calls of \<open>cpu/syscall.c\<close>.  A function
  pointer of the handler table is a constructor of \<open>handler\<close>.  \<open>hlt\<close> is the halt instruction: what happens until
  the processor goes on, \<open>None\<close> if it never does.
\<close>

section \<open>State\<close>

datatype handler = Getch_handler | Kscan_handler | Apic_handler | Syscall_handler

record cpu_registers =
  int_no :: u64
  err_code :: u64
  r15 :: u64
  r14 :: u64
  r13 :: u64
  r12 :: u64
  r11 :: u64
  r10 :: u64
  r9 :: u64
  r8 :: u64
  rdi :: u64
  rsi :: u64
  rbp :: u64
  rbx :: u64
  rdx :: u64
  rcx :: u64
  rax :: u64
  rip :: u64
  cs :: u64
  rflags :: u64
  rsp :: u64
  ss :: u64

text \<open>
  The static objects of the interrupt side.  They are fields, apart from the bytes of \<open>mem\<close>; \<open>KernelSafety\<close> shows when no
  store through a pointer reaches the addresses at which the program has them.
\<close>

record kernel = input_machine +
  interrupt_handlers :: "u8 \<Rightarrow> handler option"
  kb :: keyboard
  apic :: u64
  blink_counter :: u32
  gdt :: "gdt_entry list"
  gdtr :: table_register
  task_register :: u16
  idt :: "idt_entry list"
  idtr :: table_register

section \<open>The handler table\<close>

definition idt_register_handler :: "u8 \<Rightarrow> handler \<Rightarrow> 'a kernel_scheme \<Rightarrow> 'a kernel_scheme" where
  "idt_register_handler vector handler s =
    s\<lparr>interrupt_handlers := (interrupt_handlers s)(vector := Some handler)\<rparr>"

definition idt_uninstall_handler :: "u8 \<Rightarrow> 'a kernel_scheme \<Rightarrow> 'a kernel_scheme" where
  "idt_uninstall_handler vector s = s\<lparr>interrupt_handlers := (interrupt_handlers s)(vector := None)\<rparr>"

section \<open>The APIC timer\<close>

text \<open>The registers are 32-bit words of memory at the address that the MSR 0x1B holds.\<close>

definition APIC_OFFSET_EOI :: u64 where "APIC_OFFSET_EOI = 0x0B0"
definition APIC_OFFSET_SVR :: u64 where "APIC_OFFSET_SVR = 0x0F0"
definition APIC_OFFSET_LVT_TIMER :: u64 where "APIC_OFFSET_LVT_TIMER = 0x320"
definition APIC_OFFSET_TIMER_ICR :: u64 where "APIC_OFFSET_TIMER_ICR = 0x380"
definition APIC_OFFSET_TIMER_DIV :: u64 where "APIC_OFFSET_TIMER_DIV = 0x3E0"
definition APIC_TIMER_VECTOR :: u8 where "APIC_TIMER_VECTOR = 0xEF"
definition BLINK_INTERVAL :: u32 where "BLINK_INTERVAL = 20"

definition apic_write :: "u64 \<Rightarrow> u32 \<Rightarrow> 'a kernel_scheme \<Rightarrow> 'a kernel_scheme" where
  "apic_write off v s = s\<lparr>mem := wr32 (mem s) (apic s + off) v\<rparr>"

definition apic_map :: "'a kernel_scheme \<Rightarrow> 'a kernel_scheme" where
  "apic_map s = s\<lparr>apic := cpu_read_msr 0x1B s AND 0xFFFFF000\<rparr>"

definition apic_init :: "'a kernel_scheme \<Rightarrow> 'a kernel_scheme" where
  "apic_init s =
    (let s = apic_map s;
         s = apic_write APIC_OFFSET_SVR (rd32 (mem s) (apic s + APIC_OFFSET_SVR) OR 0x100) s;
         s = apic_write APIC_OFFSET_TIMER_DIV 0x3 s;
         s = apic_write APIC_OFFSET_LVT_TIMER (ucast APIC_TIMER_VECTOR OR push_bit 17 1) s;
         s = apic_write APIC_OFFSET_TIMER_ICR 0x100000 s
     in idt_register_handler APIC_TIMER_VECTOR Apic_handler s)"

definition apic_handler :: "'a kernel_scheme \<Rightarrow> 'a kernel_scheme" where
  "apic_handler s =
    (let s = s\<lparr>blink_counter := blink_counter s + 1\<rparr>;
         s = (if blink_counter s \<ge> BLINK_INTERVAL then
                let s = s\<lparr>blink_counter := 0\<rparr>; (current_pos, s) = get_cursor s
                in set_cursor current_pos s
              else s)
     in apic_write APIC_OFFSET_EOI 0 s)"

section \<open>System calls\<close>

text \<open>The inner loop of \<open>sys_read\<close>: halt until the ring buffer holds a character.\<close>

partial_function (option) next_char ::
  "('a kernel_scheme \<Rightarrow> 'a kernel_scheme option) \<Rightarrow> 'a kernel_scheme \<Rightarrow> (u8 \<times> 'a kernel_scheme) option" where
  "next_char hlt s =
    (case keyboard_buffer_pop (kb s) of
       (Some c, k) \<Rightarrow> Some (c, s\<lparr>kb := k\<rparr>)
     | (None, k) \<Rightarrow> Option.bind (hlt (s\<lparr>kb := k\<rparr>)) (\<lambda>s. next_char hlt s))"

primrec read_chars ::
  "('a kernel_scheme \<Rightarrow> 'a kernel_scheme option) \<Rightarrow> u64 \<Rightarrow> u64 \<Rightarrow> nat \<Rightarrow> 'a kernel_scheme \<Rightarrow> 'a kernel_scheme option" where
  "read_chars hlt buf i 0 s = Some s"
| "read_chars hlt buf i (Suc n) s = do {
     (c, s) \<leftarrow> next_char hlt s;
     read_chars hlt buf (i + 1) n (s\<lparr>mem := (mem s)(buf + i := c)\<rparr>) }"

definition sys_read ::
  "('a kernel_scheme \<Rightarrow> 'a kernel_scheme option) \<Rightarrow> u64 \<Rightarrow> u64 \<Rightarrow> u64 \<Rightarrow> 'a kernel_scheme \<Rightarrow> (u64 \<times> 'a kernel_scheme) option" where
  "sys_read hlt fd buf count s =
    (if fd = 0 then do { s \<leftarrow> read_chars hlt buf 0 (unat count) s; Some (count, s) }
     else Some (- 1, s))"

primrec write_chars :: "u64 \<Rightarrow> u64 \<Rightarrow> nat \<Rightarrow> 'a kernel_scheme \<Rightarrow> 'a kernel_scheme option" where
  "write_chars buf i 0 s = Some s"
| "write_chars buf i (Suc n) s = do {
     s \<leftarrow> kprintf ''%c'' [scast (mem s (buf + i))] s;
     write_chars buf (i + 1) n s }"

definition sys_write :: "u64 \<Rightarrow> u64 \<Rightarrow> u64 \<Rightarrow> 'a kernel_scheme \<Rightarrow> (u64 \<times> 'a kernel_scheme) option" where
  "sys_write fd buf count s =
    (if fd = 1 \<or> fd = 2 then do { s \<leftarrow> write_chars buf 0 (unat count) s; Some (count, s) }
     else Some (- 1, s))"

partial_function (option) halt_loop ::
  "('a kernel_scheme \<Rightarrow> 'a kernel_scheme option) \<Rightarrow> 'a kernel_scheme \<Rightarrow> 'a kernel_scheme option" where
  "halt_loop hlt s = Option.bind (hlt s) (\<lambda>s. halt_loop hlt s)"

definition sys_exit ::
  "('a kernel_scheme \<Rightarrow> 'a kernel_scheme option) \<Rightarrow> u64 \<Rightarrow> 'a kernel_scheme \<Rightarrow> 'a kernel_scheme option" where
  "sys_exit hlt status s = halt_loop hlt (cpu_disable_interrupts s)"

definition syscall_handler ::
  "('a kernel_scheme \<Rightarrow> 'a kernel_scheme option) \<Rightarrow> cpu_registers \<Rightarrow> 'a kernel_scheme \<Rightarrow> (cpu_registers \<times> 'a kernel_scheme) option" where
  "syscall_handler hlt regs s =
    (let num = rax regs in
     if num = 0 then do {
       (r, s) \<leftarrow> sys_read hlt (rdi regs) (rsi regs) (rdx regs) s;
       Some (regs\<lparr>rax := r\<rparr>, s) }
     else if num = 1 then do {
       (r, s) \<leftarrow> sys_write (rdi regs) (rsi regs) (rdx regs) s;
       Some (regs\<lparr>rax := r\<rparr>, s) }
     else if num = 60 then do { s \<leftarrow> sys_exit hlt (rdi regs) s; Some (regs, s) }
     else Some (regs\<lparr>rax := - 1\<rparr>, s))"

definition syscall_init :: "'a kernel_scheme \<Rightarrow> 'a kernel_scheme" where
  "syscall_init s = idt_register_handler 0x80 Syscall_handler s"

section \<open>Dispatch\<close>

text \<open>The call through the function pointer.\<close>

definition run_handler ::
  "('a kernel_scheme \<Rightarrow> 'a kernel_scheme option) \<Rightarrow> handler \<Rightarrow> cpu_registers \<Rightarrow> 'a kernel_scheme \<Rightarrow> (cpu_registers \<times> 'a kernel_scheme) option" where
  "run_handler hlt h regs s =
    (case h of
       Getch_handler \<Rightarrow> Some (regs, getch_handler s)
     | Kscan_handler \<Rightarrow> do { s \<leftarrow> kscan_handler s; Some (regs, s) }
     | Apic_handler \<Rightarrow> Some (regs, apic_handler s)
     | Syscall_handler \<Rightarrow> syscall_handler hlt regs s)"

definition trace_interrupt :: "u8 \<Rightarrow> cpu_registers \<Rightarrow> 'a kernel_scheme \<Rightarrow> 'a kernel_scheme option" where
  "trace_interrupt vec regs s =
    (if vec = 1 then qemu_debug_printf ''Timer interrupt\<newline>'' [] s
     else if vec = 14 then qemu_debug_printf ''Page fault!\<newline>EIP: %08X\<newline>'' [rip regs] s
     else if vec = 33 then qemu_debug_printf ''Keyboard interrupt\<newline>'' [] s
     else qemu_debug_printf ''Unknown interrupt: %d\<newline>'' [ucast vec] s)"

definition isr_dispatch ::
  "('a kernel_scheme \<Rightarrow> 'a kernel_scheme option) \<Rightarrow> cpu_registers \<Rightarrow> 'a kernel_scheme \<Rightarrow> (cpu_registers \<times> 'a kernel_scheme) option" where
  "isr_dispatch hlt regs s = do {
     let vec = ucast (int_no regs);
     s \<leftarrow> trace_interrupt vec regs s;
     (regs, s) \<leftarrow> (case interrupt_handlers s vec of
         None \<Rightarrow> Some (regs, s)
       | Some h \<Rightarrow> run_handler hlt h regs s);
     Some (regs, if 32 \<le> vec \<and> vec \<le> 47 then pic_send_eoi (vec - 32) s else s) }"

text \<open>
  An interrupt as the processor takes it: the gates are interrupt gates, so the handler runs with the
  interrupt flag off and \<open>iretq\<close> restores it.
\<close>

definition interrupt ::
  "('a kernel_scheme \<Rightarrow> 'a kernel_scheme option) \<Rightarrow> cpu_registers \<Rightarrow> 'a kernel_scheme \<Rightarrow> (cpu_registers \<times> 'a kernel_scheme) option" where
  "interrupt hlt regs s = do {
     (regs, s') \<leftarrow> isr_dispatch hlt regs (s\<lparr>iflag := False\<rparr>);
     Some (regs, s'\<lparr>iflag := iflag s\<rparr>) }"

end
