(* ===== verification/InterruptLaws.thy ===== *)
theory InterruptLaws
  imports Interrupts StringEdit
begin

text \<open>
  What the interrupt side of the kernel guarantees: acknowledgement of interrupts, the system calls, and
  the fact that no interrupt ever puts a character into the ring buffer that \<open>sys_read\<close> waits for.
\<close>

section \<open>A concrete kernel\<close>

definition boot_kernel :: kernel where
  "boot_kernel = \<lparr>mem = mem boot_heap, io = [], bus = bus boot_heap, cr0 = 0, cr3 = 0, cr4 = 0,
     msrs = msrs boot_heap, iflag = True, kernel_heap = kernel_heap boot_heap,
     capslock = False, shift = False, ctrl = False, alt = False, kscan_pos = 0, enter = False,
     kscan_buf = 0x300000, getch_end = False, getch_char = 0, interrupt_handlers = (\<lambda>_. None),
     kb = keyboard_start, apic = 0, blink_counter = 0, gdt = gdt_start, gdtr = \<lparr>dt_size = 0, dt_offset = 0\<rparr>,
     task_register = 0, idt = idt_start, idtr = \<lparr>dt_size = 0, dt_offset = 0\<rparr>\<rparr>"

text \<open>An interrupt frame with the given vector and system call arguments.\<close>

definition irq_frame :: "u64 \<Rightarrow> u64 \<Rightarrow> cpu_registers" where
  "irq_frame vec a = \<lparr>int_no = vec, err_code = 0, r15 = 0, r14 = 0, r13 = 0, r12 = 0, r11 = 0, r10 = 0, r9 = 0,
     r8 = 0, rdi = 0, rsi = 0, rbp = 0, rbx = 0, rdx = 0, rcx = 0, rax = a, rip = 0x100000, cs = 8,
     rflags = 0x202, rsp = 0x90000, ss = 0x10\<rparr>"

section \<open>Operations that only write to ports\<close>

definition port_writes :: "io_history \<Rightarrow> bool" where
  "port_writes h \<longleftrightarrow> (\<forall>e \<in> set h. \<exists>w p v. e = PortOut w p v)"

definition quiet :: "'a machine_scheme \<Rightarrow> 'a machine_scheme \<Rightarrow> bool" where
  "quiet s s' \<longleftrightarrow> (\<exists>h. s' = s\<lparr>io := h @ io s\<rparr> \<and> port_writes h)"

lemma quiet_refl [simp]: "quiet s s"
  unfolding quiet_def by (rule exI [of _ "[]"]) (simp add: port_writes_def)

lemma port_writes_append [simp]: "port_writes (h @ k) \<longleftrightarrow> port_writes h \<and> port_writes k"
  by (auto simp: port_writes_def)

lemma quiet_trans: "quiet s t \<Longrightarrow> quiet t u \<Longrightarrow> quiet s u"
  unfolding quiet_def
proof (elim exE conjE)
  fix h k
  assume "t = s\<lparr>io := h @ io s\<rparr>" "port_writes h" "u = t\<lparr>io := k @ io t\<rparr>" "port_writes k"
  then show "\<exists>h. u = s\<lparr>io := h @ io s\<rparr> \<and> port_writes h" by (intro exI [of _ "k @ h"]) simp
qed

lemma quiet_outb [simp]: "quiet s (outb p v s)"
  unfolding quiet_def outb_def by (rule exI [of _ "[PortOut IO8 p (ucast v)]"]) (simp add: port_writes_def)

lemma quiet_send_eoi [simp]: "quiet s (pic_send_eoi irq s)"
  unfolding pic_send_eoi_def Let_def by (rule quiet_trans [OF _ quiet_outb]) simp

text \<open>Nothing but bytes to the debug port 0xE9.\<close>

definition debug_only :: "'a machine_scheme \<Rightarrow> 'a machine_scheme \<Rightarrow> bool" where
  "debug_only s s' \<longleftrightarrow> (\<exists>h. s' = s\<lparr>io := h @ io s\<rparr> \<and> (\<forall>e \<in> set h. \<exists>v. e = PortOut IO8 0xE9 v))"

lemma debug_only_refl [simp]: "debug_only s s"
  unfolding debug_only_def by (rule exI [of _ "[]"]) simp

lemma debug_only_trans: "debug_only s t \<Longrightarrow> debug_only t u \<Longrightarrow> debug_only s u"
  unfolding debug_only_def
proof (elim exE conjE)
  fix h k
  assume "t = s\<lparr>io := h @ io s\<rparr>" "\<forall>e \<in> set h. \<exists>v. e = PortOut IO8 0xE9 v"
    "u = t\<lparr>io := k @ io t\<rparr>" "\<forall>e \<in> set k. \<exists>v. e = PortOut IO8 0xE9 v"
  then show "\<exists>h. u = s\<lparr>io := h @ io s\<rparr> \<and> (\<forall>e \<in> set h. \<exists>v. e = PortOut IO8 0xE9 v)"
    by (intro exI [of _ "k @ h"]) auto
qed

lemma debug_only_quiet: "debug_only s s' \<Longrightarrow> quiet s s'"
  unfolding debug_only_def quiet_def port_writes_def by blast

lemma debug_only_putc [simp]: "debug_only s (qemu_debug_putc c s)"
proof -
  have "debug_only s (putc_e9 d s)" for d and s :: "'a machine_scheme"
    unfolding debug_only_def putc_e9_def outb_def by (rule exI [of _ "[PortOut IO8 0xE9 (ucast d)]"]) simp
  then show ?thesis unfolding qemu_debug_putc_def Let_def by (auto intro: debug_only_trans)
qed

lemma debug_only_fold: "(\<And>x s. debug_only s (f x s)) \<Longrightarrow> debug_only s (fold f xs s)"
  by (induction xs arbitrary: s) (auto intro: debug_only_trans)

lemma debug_only_put_uint [simp]: "debug_only s (put_uint v b s)"
  by (simp add: put_uint_def debug_only_fold)

text \<open>A format without arguments.\<close>

lemma debug_text: "37 \<notin> set p \<Longrightarrow> debug_vprintf (p @ q) args s = debug_vprintf q args (fold qemu_debug_putc p s)"
proof (induction p arbitrary: s)
  case (Cons c p)
  then show ?case by (cases "p @ q") auto
qed simp

lemma debug_plain: "37 \<notin> set p \<Longrightarrow> debug_vprintf p args s = Some (fold qemu_debug_putc p s)"
  using debug_text [of p "[]"] by simp

lemma sint_vector: "sint (ucast (ucast (v :: u8) :: u64) :: u32) = uint v"
proof -
  have "(ucast (ucast v :: u64) :: u32) = ucast v" by (rule bit_word_eqI) (simp add: bit_simps)
  moreover have "uint v < 2 ^ LENGTH(8)" by (rule unsigned_less)
  then have "- (2 ^ 31) \<le> uint v" "uint v < 2 ^ 31" using order_trans [of "- (2 ^ 31)" 0 "uint v"] by simp_all
  then have "signed_take_bit 31 (uint v) = uint v" by (rule signed_take_bit_int_eq_self)
  ultimately show ?thesis by (simp add: sint_uint uint_up_ucast is_up)
qed

lemma debug_unknown:
  "qemu_debug_printf ''Unknown interrupt: %d\<newline>'' [ucast (v :: u8)] s =
    Some (qemu_debug_putc 10 (put_uint (ucast v) 10 (fold qemu_debug_putc (lit ''Unknown interrupt: '') s)))"
proof -
  have f: "lit ''Unknown interrupt: %d\<newline>'' = lit ''Unknown interrupt: '' @ [37, 100, 10]" by simp
  have "uint v < 2 ^ LENGTH(8)" by (rule unsigned_less)
  then have u: "uint v < 256" by simp
  have "INT_MIN \<le> uint v" using order_trans [of INT_MIN 0 "uint v"] by (simp add: INT_MIN_def)
  then have "c_int (uint v) = Some (uint v)" using u by (simp add: INT_MAX_def)
  moreover have "(of_int (uint v) :: u32) = ucast v" by simp
  moreover have "37 \<notin> set (lit ''Unknown interrupt: '')" by simp
  ultimately show ?thesis unfolding qemu_debug_printf_def f using u
    by (simp add: debug_text debug_convert_def sint_vector Let_def)
qed

text \<open>\<open>%08X\<close> is not a conversion of \<open>qemu_debug_printf\<close>: its letters go out as they are.\<close>

lemma debug_page_fault:
  "qemu_debug_printf ''Page fault!\<newline>EIP: %08X\<newline>'' args s =
    Some (fold qemu_debug_putc (lit ''Page fault!\<newline>EIP: %08X\<newline>'') s)"
proof -
  have f: "lit ''Page fault!\<newline>EIP: %08X\<newline>'' = lit ''Page fault!\<newline>EIP: '' @ [37, 48, 56, 88, 10]" by simp
  have "37 \<notin> set (lit ''Page fault!\<newline>EIP: '')" by simp
  then show ?thesis unfolding qemu_debug_printf_def f
    by (simp add: debug_text debug_convert_def del: lit_Cons)
qed

lemma trace_interrupt_debug: "\<exists>s'. trace_interrupt vec regs s = Some s' \<and> debug_only s s'"
proof -
  have p: "\<exists>s'. qemu_debug_printf f [] s = Some s' \<and> debug_only s s'" if "37 \<notin> set (lit f)" for f
    using that by (simp add: qemu_debug_printf_def debug_plain debug_only_fold)
  have q: "debug_only s (qemu_debug_putc 10 (put_uint v 10 (fold qemu_debug_putc ps s)))" for v ps
    by (rule debug_only_trans [OF debug_only_trans [OF debug_only_fold [OF debug_only_putc] debug_only_put_uint]
          debug_only_putc])
  show ?thesis
    using p [of "''Timer interrupt\<newline>''", simplified] p [of "''Keyboard interrupt\<newline>''", simplified]
    by (simp add: trace_interrupt_def debug_page_fault debug_unknown q debug_only_fold
        del: lit_Cons fold_simps)
qed

lemma trace_interrupt_quiet: "\<exists>s'. trace_interrupt vec regs s = Some s' \<and> quiet s s'"
  using trace_interrupt_debug debug_only_quiet by blast

section \<open>System calls\<close>

lemma pop_available:
  assumes "kb_ok k" and "kb_contents k = c # q"
  obtains k' where "keyboard_buffer_pop k = (Some c, k')" and "kb_ok k'" and "kb_contents k' = q"
proof -
  obtain r k' where "keyboard_buffer_pop k = (r, k')" "kb_ok k'" "list_pop (kb_contents k) = (r, kb_contents k')"
    using kbq.pop_split [OF assms(1)] by blast
  then show ?thesis using that assms(2) by simp
qed

lemma read_chars_available:
  assumes "kb_ok (kb s)" and "kb_contents (kb s) = xs @ q" and "i + length xs < 2 ^ 63"
  shows "\<exists>m k. read_chars hlt buf (of_nat i) (length xs) s = Some (s\<lparr>mem := m, kb := k\<rparr>) \<and> kb_ok k \<and>
    kb_contents k = q \<and> bytes_at m (buf + of_nat i) xs \<and>
    agree_on (- region (buf + of_nat i) (length xs)) (mem s) m"
  using assms
proof (induction xs arbitrary: s i)
  case Nil
  have "s = s\<lparr>mem := mem s, kb := kb s\<rparr>" by simp
  then show ?case using Nil by (intro exI [of _ "mem s"] exI [of _ "kb s"]) simp
next
  case (Cons c xs)
  obtain k' where k: "keyboard_buffer_pop (kb s) = (Some c, k')" "kb_ok k'" "kb_contents k' = xs @ q"
    using pop_available [OF Cons.prems(1)] Cons.prems(2) by auto
  let ?a = "buf + of_nat i" and ?s = "s\<lparr>kb := k', mem := (mem s)(buf + of_nat i := c)\<rparr>"
  have n: "next_char hlt s = Some (c, s\<lparr>kb := k'\<rparr>)" by (subst next_char.simps) (simp add: k(1))
  have p: "kb_ok (kb ?s)" "kb_contents (kb ?s) = xs @ q" "Suc i + length xs < 2 ^ 63"
    using k Cons.prems(3) by simp_all
  obtain m k2 where r: "read_chars hlt buf (of_nat (Suc i)) (length xs) ?s = Some (?s\<lparr>mem := m, kb := k2\<rparr>)"
    "kb_ok k2" "kb_contents k2 = q" "bytes_at m (buf + of_nat (Suc i)) xs"
    "agree_on (- region (buf + of_nat (Suc i)) (length xs)) (mem ?s) m"
    using Cons.IH [OF p] by blast
  have next_a: "buf + of_nat (Suc i) = ?a + 1" by (simp add: ac_simps)
  have lx: "length xs < 2 ^ 64 - 1" using Cons.prems(3) by simp
  have "?a \<in> - region (buf + of_nat (Suc i)) (length xs)" unfolding next_a using lx by (simp add: region_def)
  then have ma: "m ?a = c" using agree_onD [OF r(5)] by simp
  have "bytes_at m ?a (c # xs)"
    using r(4) [unfolded next_a] ma bytes_at_append [of m ?a "[c]" xs] by (simp add: bytes_at_def [of m ?a "[c]"])
  moreover have "agree_on (- region ?a (length (c # xs))) (mem s) m"
    using r(5) [unfolded next_a] lx by (auto simp: agree_on_def region_Suc)
  moreover have "read_chars hlt buf (of_nat i) (length (c # xs)) s = Some (s\<lparr>mem := m, kb := k2\<rparr>)"
    using r(1) by (simp add: n add.commute)
  ultimately show ?case using r(2,3) by blast
qed

text \<open>
  C15.  Reading from standard input what the keyboard buffer already holds: \<open>sys_read\<close> returns \<open>count\<close>, the
  first \<open>count\<close> buffered characters stand in the user's buffer in the order in which they were typed, they
  are gone from the ring buffer, and nothing else has changed.
\<close>

theorem sys_read_takes:
  assumes "kb_ok (kb s)" and "unat count \<le> length (kb_contents (kb s))"
  shows "\<exists>m k. sys_read hlt 0 buf count s = Some (count, s\<lparr>mem := m, kb := k\<rparr>) \<and> kb_ok k \<and>
    kb_contents k = drop (unat count) (kb_contents (kb s)) \<and>
    bytes_at m buf (take (unat count) (kb_contents (kb s))) \<and>
    agree_on (- region buf (unat count)) (mem s) m"
proof -
  let ?xs = "take (unat count) (kb_contents (kb s))"
  have len: "length ?xs = unat count" using assms(2) by simp
  have "kb_count h t < 128" for h t by (simp add: kb_count_def)
  then have "length (kb_contents (kb s)) < 128" by (simp add: kb_contents_def)
  then have "0 + length ?xs < 2 ^ 63" by simp
  then have "\<exists>m k. read_chars hlt buf (of_nat 0) (length ?xs) s = Some (s\<lparr>mem := m, kb := k\<rparr>) \<and> kb_ok k \<and>
      kb_contents k = drop (unat count) (kb_contents (kb s)) \<and> bytes_at m (buf + of_nat 0) ?xs \<and>
      agree_on (- region (buf + of_nat 0) (length ?xs)) (mem s) m"
    by (intro read_chars_available [OF assms(1)]) simp_all
  then obtain m k where r: "read_chars hlt buf 0 (unat count) s = Some (s\<lparr>mem := m, kb := k\<rparr>)" "kb_ok k"
    "kb_contents k = drop (unat count) (kb_contents (kb s))" "bytes_at m buf ?xs"
    "agree_on (- region buf (unat count)) (mem s) m"
    unfolding len by auto
  then show ?thesis by (intro exI [of _ m] exI [of _ k]) (simp add: sys_read_def)
qed

theorem sys_read_takes_witness:
  "\<exists>m k. sys_read Some 0 0x400000 1 (boot_kernel\<lparr>kb := keyboard_buffer_push 65 keyboard_start\<rparr>) =
     Some (1, boot_kernel\<lparr>mem := m, kb := k\<rparr>) \<and> kb_contents k = [] \<and> m 0x400000 = 65"
proof -
  let ?k = "keyboard_buffer_push 65 keyboard_start"
  have k: "kb_ok ?k" "kb_contents ?k = [65]"
    using kb_push_ok [OF keyboard_start_ok(1)] kb_push_contents [OF keyboard_start_ok(1)] keyboard_start_ok(2)
    by (simp_all add: list_push_def)
  then show ?thesis
    using sys_read_takes [of "boot_kernel\<lparr>kb := ?k\<rparr>" 1 Some "0x400000"] by (auto simp: bytes_at_def)
qed

section \<open>Waiting for input that never comes\<close>

lemma quiet_kb: "quiet s s' \<Longrightarrow> kb s' = kb s"
  by (auto simp: quiet_def)

lemma con_frame_kb: "con_frame s s' \<Longrightarrow> kb s' = kb s"
  by (cases s; cases s') (simp add: con_frame_def)

definition kb_empty :: "keyboard \<Rightarrow> bool" where
  "kb_empty k \<longleftrightarrow> kb_head k = kb_tail k"

definition never_pushes :: "('a kernel_scheme \<Rightarrow> 'a kernel_scheme option) \<Rightarrow> bool" where
  "never_pushes hlt \<longleftrightarrow> (\<forall>s s'. kb_empty (kb s) \<longrightarrow> hlt s = Some s' \<longrightarrow> kb_empty (kb s'))"

lemma next_char_blocks:
  assumes "never_pushes hlt" and "kb_empty (kb s)"
  shows "next_char hlt s = None"
proof -
  have "\<not> (never_pushes hlt \<and> kb_empty (kb s))" if "next_char hlt s = Some y" for y
  proof (rule next_char.raw_induct [OF _ that])
    fix f hlt s y
    assume IH: "\<And>hlt s y. f hlt s = Some y \<Longrightarrow> \<not> (never_pushes hlt \<and> kb_empty (kb (s :: 'a kernel_scheme)))"
      and step: "(case keyboard_buffer_pop (kb s) of
         (None, k) \<Rightarrow> hlt (s\<lparr>kb := k\<rparr>) \<bind> f hlt
       | (Some c, k) \<Rightarrow> Some (c, s\<lparr>kb := k\<rparr>)) = Some y"
    show "\<not> (never_pushes hlt \<and> kb_empty (kb s))"
    proof
      assume a: "never_pushes hlt \<and> kb_empty (kb s)"
      then have "keyboard_buffer_pop (kb s) = (None, kb s)" by (simp add: kb_empty_def keyboard_buffer_pop_def)
      then obtain t where t: "hlt s = Some t" "f hlt t = Some y" using step by (auto simp: bind_eq_Some_conv)
      then have "kb_empty (kb t)" using a by (auto simp: never_pushes_def)
      then show False using IH [OF t(2)] a by blast
    qed
  qed
  then show ?thesis using assms by (cases "next_char hlt s") auto
qed

lemma halt_loop_None [simp]: "halt_loop hlt s = None"
proof -
  have False if "halt_loop hlt s = Some y" for y
    by (rule halt_loop.raw_induct [OF _ that]) (auto simp: bind_eq_Some_conv)
  then show ?thesis by (cases "halt_loop hlt s") auto
qed

lemma kb_console [simp]: "kb (set_cursor p s) = kb s" "kb (kputchar c a s) = kb s" "kb (snd (get_cursor s)) = kb s"
  "kb (pic_send_eoi i s) = kb s"
  by (simp_all add: con_frame_kb quiet_kb)

lemma kb_getch_handler [simp]: "kb (getch_handler s) = kb s"
  by (simp add: getch_handler_def modifier_key_def inb_def Let_def split: option.splits)

lemma kb_kscan_backspace [simp]: "kb (kscan_backspace len s) = kb s"
proof -
  have g: "kb (fold (\<lambda>i s. kputchar (mem s (q + of_nat i)) 7 s) xs t) = kb t" for q xs t
    by (intro con_frame_kb con_frame_fold) simp
  show ?thesis by (simp add: kscan_backspace_def Let_def g split_beta)
qed

lemma kb_kscan_insert: "kscan_insert c s = Some s' \<Longrightarrow> kb s' = kb s"
  by (auto simp: kscan_insert_def Let_def split: bind_splits)

lemma kb_kscan_handler: "kscan_handler s = Some s' \<Longrightarrow> kb s' = kb s"
  by (auto simp: kscan_handler_def modifier_key_def inb_def Let_def
      split: bind_splits if_splits option.splits dest!: kb_kscan_insert con_frame_kprintf con_frame_kb)

lemma kb_apic_handler [simp]: "kb (apic_handler s) = kb s"
  by (simp add: apic_handler_def apic_write_def Let_def split_beta)

lemma kb_write_chars: "write_chars buf i n s = Some s' \<Longrightarrow> kb s' = kb s"
  by (induction n arbitrary: i s) (auto split: bind_splits dest!: con_frame_kprintf con_frame_kb)

lemma sys_read_empty:
  assumes "never_pushes hlt" and "kb_empty (kb s)" and "0 < count"
  shows "sys_read hlt 0 buf count s = None"
proof -
  obtain n where "unat count = Suc n" using assms(3) by (cases "unat count") (auto simp: unat_eq_0)
  then show ?thesis using next_char_blocks [OF assms(1,2)] by (simp add: sys_read_def)
qed

lemma kb_syscall_handler:
  assumes "syscall_handler hlt regs s = Some (regs', s')" and "never_pushes hlt" and "kb_empty (kb s)"
  shows "kb s' = kb s"
proof -
  have "kb s' = kb s" if "sys_read hlt fd buf count s = Some (r, s')" for fd buf count r
    using that sys_read_empty [OF assms(2,3), of count buf]
    by (cases "count = 0") (auto simp: sys_read_def word_gt_0 split: if_splits bind_splits)
  then show ?thesis using assms(1)
    by (auto simp: syscall_handler_def sys_write_def sys_exit_def Let_def
        split: if_splits bind_splits dest: kb_write_chars)
qed

lemma interrupt_never_pushes:
  assumes "interrupt hlt regs s = Some (regs', s')" and "never_pushes hlt" and "kb_empty (kb s)"
  shows "kb_empty (kb s')"
proof -
  let ?s0 = "s\<lparr>iflag := False\<rparr>" and ?vec = "ucast (int_no regs) :: u8"
  obtain t where t: "trace_interrupt ?vec regs ?s0 = Some t" "quiet ?s0 t"
    using trace_interrupt_quiet by blast
  have e: "kb_empty (kb t)" using quiet_kb [OF t(2)] assms(3) by simp
  have "kb_empty (kb u)" if "run_handler hlt h regs t = Some (r, u)" for h r u
    using that e kb_syscall_handler [OF _ assms(2) e]
    by (auto simp: run_handler_def split: handler.splits bind_splits dest!: kb_kscan_handler)
  then show ?thesis using assms(1) t(1) e
    by (auto simp: interrupt_def isr_dispatch_def Let_def split: bind_splits option.splits if_splits)
qed

text \<open>
  C17.  \<open>sys_read\<close> on an empty keyboard buffer never returns, whatever interrupts end the halt: no
  interrupt handler of the kernel ever puts a character into the buffer, so taking any interrupt keeps it empty.
\<close>

theorem sys_read_blocks:
  assumes "never_pushes hlt" and "kb_empty (kb s)" and "0 < count"
  shows "sys_read hlt 0 buf count s = None \<and> never_pushes (\<lambda>s. map_option snd (interrupt hlt regs s))"
proof -
  have "never_pushes (\<lambda>s. map_option snd (interrupt hlt regs s))"
    unfolding never_pushes_def by (auto dest: interrupt_never_pushes [OF _ assms(1)])
  then show ?thesis using sys_read_empty [OF assms] by blast
qed

theorem sys_read_blocks_witness: "sys_read Some 0 0x400000 1 boot_kernel = None"
  using sys_read_blocks [of Some boot_kernel 1 "0x400000"]
  by (simp add: never_pushes_def kb_empty_def boot_kernel_def keyboard_start_def)

lemma kprintf_char: "kprintf ''%c'' [scast (c :: u8)] s = Some (kputc c s)"
proof -
  have "(ucast (scast c :: u64) :: u8) = c" by (rule bit_word_eqI) (simp add: bit_simps)
  then show ?thesis
    by (simp add: kprintf_def parse_directive_plain is_digit_def convert_def pad_before_def pad_after_def)
qed

lemma write_chars_prints:
  "bytes_at (mem s) (buf + i) xs \<Longrightarrow> region (buf + i) (length xs) \<inter> video_window = {} \<Longrightarrow> length xs < 2 ^ 64 \<Longrightarrow>
    write_chars buf i (length xs) s = Some (kputs xs s)"
proof (induction xs arbitrary: i s)
  case (Cons c xs)
  have c: "mem s (buf + i) = c" and xs: "bytes_at (mem s) (buf + i + 1) xs"
    using Cons.prems(1) bytes_at_append [of "mem s" "buf + i" "[c]" xs] by (simp_all add: bytes_at_def [of _ _ "[c]"])
  have r: "region (buf + i + 1) (length xs) \<inter> video_window = {}"
    using Cons.prems(2,3) by (auto simp: region_Suc)
  have "bytes_at (mem (kputc c s)) (buf + i + 1) xs"
    unfolding bytes_at_def
  proof (intro allI impI)
    fix j
    assume j: "j < length xs"
    have "unat (of_nat j :: u64) = j" using j Cons.prems(3) by (intro unat_of_nat_small) simp
    then have "buf + i + 1 + of_nat j \<notin> video_window" using r j mem_region_offset [of "of_nat j" "length xs" "buf + i + 1"] by auto
    then have "mem (kputc c s) (buf + i + 1 + of_nat j) = mem s (buf + i + 1 + of_nat j)"
      by (rule con_frame_mem [OF con_frame_kputc])
    then show "mem (kputc c s) (buf + i + 1 + of_nat j) = xs ! j" using bytes_at_nth [OF xs j] by simp
  qed
  then have "write_chars buf (i + 1) (length xs) (kputc c s) = Some (kputs xs (kputc c s))"
    using r Cons.prems(3) by (intro Cons.IH) (simp_all add: add.assoc)
  then show ?case by (simp add: c kprintf_char kputs_def)
qed (simp add: kputs_def)

text \<open>
  C23.  \<open>sys_write\<close> to descriptor 1 or 2 prints exactly the \<open>count\<close> bytes of the buffer, in order, and returns
  \<open>count\<close>; for any other descriptor it prints nothing and returns -1.
\<close>

theorem sys_write_prints:
  assumes "bytes_at (mem s) buf xs" and "length xs = unat count" and "region buf (length xs) \<inter> video_window = {}"
  shows "sys_write fd buf count s = (if fd = 1 \<or> fd = 2 then Some (count, kputs xs s) else Some (- 1, s))"
  using write_chars_prints [of s buf 0 xs] assms by (simp add: sys_write_def)

theorem sys_write_prints_witness:
  "sys_write 1 0x400000 2 (boot_kernel\<lparr>mem := (\<lambda>_. 0)(0x400000 := 72, 0x400001 := 105)\<rparr>) =
    Some (2, kputs [72, 105] (boot_kernel\<lparr>mem := (\<lambda>_. 0)(0x400000 := 72, 0x400001 := 105)\<rparr>))"
proof -
  let ?s = "boot_kernel\<lparr>mem := (\<lambda>_. 0)(0x400000 := 72, 0x400001 := 105)\<rparr>"
  have "x \<notin> video_window" if "x \<in> region 0x400000 2" for x
    using that by (auto simp: region_def video_window_def VIDEO_ADDRESS_def unat_sub_if_size word_size split: if_splits)
  then have "region 0x400000 2 \<inter> video_window = {}" by blast
  moreover have "bytes_at (mem ?s) 0x400000 [72, 105]" by (auto simp: bytes_at_def less_Suc_eq)
  ultimately show ?thesis using sys_write_prints [of ?s "0x400000" "[72, 105]" 2 1]
    by (simp add: numeral_2_eq_2 [symmetric])
qed

section \<open>Interrupts\<close>

lemma interrupt_runs:
  assumes "interrupt_handlers s (ucast (int_no regs)) = None"
  shows "\<exists>s'. interrupt hlt regs s = Some (regs, s') \<and> quiet s s'"
proof -
  let ?v = "ucast (int_no regs) :: u8" and ?s0 = "s\<lparr>iflag := False\<rparr>"
  obtain t where t: "trace_interrupt ?v regs ?s0 = Some t" "quiet ?s0 t" using trace_interrupt_quiet by blast
  let ?u = "if 32 \<le> ?v \<and> ?v \<le> 47 then pic_send_eoi (?v - 32) t else t"
  have "quiet ?s0 ?u" using quiet_trans [OF t(2) quiet_send_eoi] t(2) by simp
  then have "quiet s (?u\<lparr>iflag := iflag s\<rparr>)" by (auto simp: quiet_def)
  moreover have "interrupt_handlers t = interrupt_handlers s" using t(2) by (auto simp: quiet_def)
  then have "interrupt hlt regs s = Some (regs, ?u\<lparr>iflag := iflag s\<rparr>)"
    using t(1) assms by (simp add: interrupt_def isr_dispatch_def Let_def)
  ultimately show ?thesis by blast
qed

text \<open>
  C19.  Whatever the handler does, an interrupt of the two controllers (vectors 32 to 47) that returns has sent
  the end-of-interrupt command, last of all, to the master, and before that to the slave if the line is
  one of the slave's; and the interrupt flag is what it was before.
\<close>

theorem interrupt_acknowledged:
  assumes "interrupt hlt regs s = Some (regs', s')" and "int_no regs = of_nat vec" and "32 \<le> vec" and "vec < 48"
  shows "(\<exists>h. io s' = PortOut IO8 0x20 0x20 # (if 40 \<le> vec then [PortOut IO8 0xA0 0x20] else []) @ h) \<and>
    iflag s' = iflag s"
proof -
  let ?v = "of_nat vec :: u8"
  have uv: "unat ?v = vec" using assms(4) by (intro unat_of_nat_small) simp
  have v: "(ucast (int_no regs) :: u8) = ?v"
    using assms(2,4) by (simp add: unsigned_of_nat take_bit_nat_eq_self)
  have b: "32 \<le> ?v" "?v \<le> 47" using assms(3,4) by (simp_all add: word_le_unat uv)
  have "unat (?v - 32) = vec - 32" using uv b(1) by (simp add: unat_sub)
  then have e: "8 \<le> ?v - 32 \<longleftrightarrow> 40 \<le> vec" using assms(3) by (simp add: word_le_unat, arith)
  obtain t where "s' = (pic_send_eoi (?v - 32) t)\<lparr>iflag := iflag s\<rparr>"
    using assms(1) b by (auto simp: interrupt_def isr_dispatch_def Let_def v split: bind_splits)
  then show ?thesis using e by (simp add: pic_send_eoi_def Let_def outb_def pic_defs)
qed

theorem interrupt_acknowledged_witness:
  "\<exists>s' h. interrupt Some (irq_frame 40 0) boot_kernel = Some (irq_frame 40 0, s') \<and>
    io s' = PortOut IO8 0x20 0x20 # PortOut IO8 0xA0 0x20 # h"
proof -
  obtain s' where s': "interrupt Some (irq_frame 40 0) boot_kernel = Some (irq_frame 40 0, s')"
    using interrupt_runs [of boot_kernel "irq_frame 40 0" Some] by (auto simp: boot_kernel_def)
  then show ?thesis using interrupt_acknowledged [OF s', of 40] by (auto simp: irq_frame_def)
qed

text \<open>The way into \<open>syscall_handler\<close> and out again.\<close>

lemma interrupt_syscall:
  assumes "interrupt_handlers s 0x80 = Some Syscall_handler" and "int_no regs = 0x80"
  obtains t where "debug_only (s\<lparr>iflag := False\<rparr>) t" and "interrupt hlt regs s =
      Option.bind (syscall_handler hlt regs t) (\<lambda>(regs, s'). Some (regs, s'\<lparr>iflag := iflag s\<rparr>))"
proof -
  let ?s0 = "s\<lparr>iflag := False\<rparr>"
  obtain t where t: "trace_interrupt 0x80 regs ?s0 = Some t" "debug_only ?s0 t" using trace_interrupt_debug by blast
  have "interrupt_handlers t = interrupt_handlers s" using t(2) by (auto simp: debug_only_def)
  then have "interrupt hlt regs s =
      Option.bind (syscall_handler hlt regs t) (\<lambda>(regs, s'). Some (regs, s'\<lparr>iflag := iflag s\<rparr>))"
    using t(1) assms by (simp add: interrupt_def isr_dispatch_def run_handler_def Let_def split_beta)
  then show thesis using that t(2) by blast
qed

text \<open>
  C20.  The numbers of the system calls: a call the kernel does not know returns -1 in \<open>rax\<close> and changes no
  other register and nothing else of the machine, but for the bytes of the trace on the debug port 0xE9 (no other port is
  written: a system call is not acknowledged to an interrupt controller); and call 60 (exit) never returns.
\<close>

theorem syscall_numbers:
  assumes "interrupt_handlers s 0x80 = Some Syscall_handler" and "int_no regs = 0x80"
  shows "(rax regs \<notin> {0, 1, 60} \<longrightarrow> (\<exists>s'. interrupt hlt regs s = Some (regs\<lparr>rax := - 1\<rparr>, s') \<and> debug_only s s')) \<and>
    (rax regs = 60 \<longrightarrow> interrupt hlt regs s = None)"
proof -
  obtain t where t: "debug_only (s\<lparr>iflag := False\<rparr>) t" "interrupt hlt regs s =
      Option.bind (syscall_handler hlt regs t) (\<lambda>(regs, s'). Some (regs, s'\<lparr>iflag := iflag s\<rparr>))"
    by (rule interrupt_syscall [OF assms])
  have "debug_only s (t\<lparr>iflag := iflag s\<rparr>)" using t(1) by (auto simp: debug_only_def)
  then show ?thesis using t(2) by (simp add: syscall_handler_def sys_exit_def)
qed

theorem syscall_numbers_witness:
  "interrupt Some (irq_frame 0x80 60) (boot_kernel\<lparr>interrupt_handlers := [0x80 \<mapsto> Syscall_handler]\<rparr>) = None"
  using syscall_numbers [of "boot_kernel\<lparr>interrupt_handlers := [0x80 \<mapsto> Syscall_handler]\<rparr>" "irq_frame 0x80 60" Some]
  by (simp add: irq_frame_def)

end
