(* ===== verification/Paging.thy ===== *)
theory Paging
  imports Machine MemOps
begin

text \<open>
  The page tables of \<open>mem/paging.c\<close>: \<open>paging_init\<close> on the byte memory, the page walk of the
  processor as documented, and the theorem that the tables map the first 4 GiB to themselves and
  nothing else.  The addresses of the six tables, which the linker chooses, are an argument.
\<close>

section \<open>The code\<close>

definition PAGE_PRESENT :: u64 where "PAGE_PRESENT = 2 ^ 0"
definition PAGE_RW :: u64 where "PAGE_RW = 2 ^ 1"
definition PAGE_PS :: u64 where "PAGE_PS = 2 ^ 7"

lemmas page_consts = PAGE_PRESENT_def PAGE_RW_def PAGE_PS_def

record page_tables =
  pml4 :: u64
  pdpt :: u64
  pd0 :: u64
  pd1 :: u64
  pd2 :: u64
  pd3 :: u64

definition pd_of :: "page_tables \<Rightarrow> nat \<Rightarrow> u64" where
  "pd_of l j = (if j = 0 then pd0 l else if j = 1 then pd1 l else if j = 2 then pd2 l else pd3 l)"

definition clear_table :: "u64 \<Rightarrow> memory \<Rightarrow> memory" where
  "clear_table t m = memset m t 0 4096"

definition set_entry :: "u64 \<Rightarrow> nat \<Rightarrow> u64 \<Rightarrow> memory \<Rightarrow> memory" where
  "set_entry t i v m = wr64 m (t + 8 * of_nat i) v"

definition fill_pd :: "page_tables \<Rightarrow> nat \<Rightarrow> memory \<Rightarrow> memory" where
  "fill_pd l j m = fold (\<lambda>i m.
     let addr = (of_nat j * 512 + of_nat i) * 0x200000
     in set_entry (pd_of l j) i (addr OR PAGE_PRESENT OR PAGE_RW OR PAGE_PS) m) [0 ..< 512] m"

definition build_tables :: "page_tables \<Rightarrow> memory \<Rightarrow> memory" where
  "build_tables l m =
    (let m = clear_table (pml4 l) m;
         m = clear_table (pdpt l) m;
         m = clear_table (pd0 l) m;
         m = clear_table (pd1 l) m;
         m = clear_table (pd2 l) m;
         m = clear_table (pd3 l) m;
         m = set_entry (pml4 l) 0 (pdpt l OR PAGE_PRESENT OR PAGE_RW) m;
         m = set_entry (pdpt l) 0 (pd0 l OR PAGE_PRESENT OR PAGE_RW) m;
         m = set_entry (pdpt l) 1 (pd1 l OR PAGE_PRESENT OR PAGE_RW) m;
         m = set_entry (pdpt l) 2 (pd2 l OR PAGE_PRESENT OR PAGE_RW) m;
         m = set_entry (pdpt l) 3 (pd3 l OR PAGE_PRESENT OR PAGE_RW) m
     in fold (fill_pd l) [0 ..< 4] m)"

definition paging_init :: "page_tables \<Rightarrow> 'a machine_scheme \<Rightarrow> 'a machine_scheme" where
  "paging_init l s =
    (let s = s\<lparr>mem := build_tables l (mem s)\<rparr>;
         s = s\<lparr>cr4 := cr4 s OR push_bit 5 1\<rparr>;
         s = cpu_write_cr3 (pml4 l) s
     in s\<lparr>cr0 := cr0 s OR push_bit 31 1\<rparr>)"

section \<open>The page walk\<close>

definition frame :: "u64 \<Rightarrow> u64" where
  "frame e = e AND 0x000FFFFFFFFFF000"

definition table_index :: "nat \<Rightarrow> u64 \<Rightarrow> nat" where
  "table_index level va = unat (drop_bit (12 + 9 * level) va) mod 512"

definition entry :: "memory \<Rightarrow> u64 \<Rightarrow> nat \<Rightarrow> u64" where
  "entry m t i = rd64 m (t + 8 * of_nat i)"

text \<open>The translation of a 48-bit address through the table at \<open>root\<close>; \<open>None\<close> is a page fault.\<close>

definition page_walk :: "memory \<Rightarrow> u64 \<Rightarrow> u64 \<Rightarrow> u64 option" where
  "page_walk m root va =
    (let e4 = entry m (frame root) (table_index 3 va) in
     if \<not> bit e4 0 then None else
     let e3 = entry m (frame e4) (table_index 2 va) in
     if \<not> bit e3 0 then None else
     if bit e3 7 then Some ((e3 AND 0x000FFFFFC0000000) OR take_bit 30 va) else
     let e2 = entry m (frame e3) (table_index 1 va) in
     if \<not> bit e2 0 then None else
     if bit e2 7 then Some ((e2 AND 0x000FFFFFFFE00000) OR take_bit 21 va) else
     let e1 = entry m (frame e2) (table_index 0 va) in
     if \<not> bit e1 0 then None else Some (frame e1 OR take_bit 12 va))"

section \<open>Reading tables back\<close>

text \<open>Six different pages below 2^52, where a table must lie.\<close>

definition tables_list :: "page_tables \<Rightarrow> u64 list" where
  "tables_list l = [pml4 l, pdpt l, pd0 l, pd1 l, pd2 l, pd3 l]"

definition tables_ok :: "page_tables \<Rightarrow> bool" where
  "tables_ok l \<longleftrightarrow> distinct (tables_list l) \<and> (\<forall>t \<in> set (tables_list l). frame t = t)"

lemma frame_mask: "frame e = e AND push_bit 12 (mask 40)"
  by (simp add: frame_def mask_eq_exp_minus_1 push_bit_eq_mult)

lemma large_mask: "(0x000FFFFFFFE00000 :: u64) = push_bit 21 (mask 31)"
  by (simp add: mask_eq_exp_minus_1 push_bit_eq_mult)

text \<open>Page-aligned addresses as naturals.\<close>

lemma frame_aligned:
  assumes "frame t = t"
  shows "unat t mod 4096 = 0" and "unat t < 2 ^ 52"
proof -
  have "take_bit 12 t = 0"
    by (subst assms [symmetric], rule bit_word_eqI) (auto simp: frame_mask bit_simps)
  then have "take_bit 12 (unat t) = 0" by (metis unsigned_take_bit_eq unsigned_0)
  then show "unat t mod 4096 = 0" by (simp add: take_bit_nat_def)
  have "t \<le> 0x000FFFFFFFFFF000" by (subst assms [symmetric]) (simp add: frame_def word_and_le1)
  then show "unat t < 2 ^ 52" by (simp add: word_le_unat)
qed

lemma entry_region:
  assumes "frame t = t" and "i < 512"
  shows "region (t + 8 * of_nat i) 8 = region (of_nat (unat t + 8 * i)) 8" "unat t + 8 * i + 8 < 2 ^ 64"
  using frame_aligned [OF assms(1)] assms(2) by simp_all

lemma aligned_apart:
  fixes a b :: nat
  assumes "a mod 4096 = 0" and "b mod 4096 = 0" and "a \<noteq> b"
  shows "a + 4096 \<le> b \<or> b + 4096 \<le> a"
proof -
  obtain x y where "a = 4096 * x" "b = 4096 * y" using assms(1,2) by (auto simp: mod_eq_0_iff_dvd dvd_def)
  then show ?thesis using assms(3) by (cases x y rule: linorder_cases) auto
qed

lemma entries_apart:
  assumes "frame t = t" and "frame t' = t'" and "i < 512" and "i' < 512" and "(t, i) \<noteq> (t', i')"
  shows "region (t + 8 * of_nat i) 8 \<inter> region (t' + 8 * of_nat i') 8 = {}"
proof -
  have "unat t + 8 * i + 8 \<le> unat t' + 8 * i' \<or> unat t' + 8 * i' + 8 \<le> unat t + 8 * i"
  proof (cases "t = t'")
    case False
    then have "unat t \<noteq> unat t'" by (simp add: word_unat_eq_iff)
    then have "unat t + 4096 \<le> unat t' \<or> unat t' + 4096 \<le> unat t"
      by (intro aligned_apart frame_aligned(1) assms(1,2))
    then show ?thesis using assms(3,4) by linarith
  qed (use assms(5) in auto)
  then show ?thesis
    unfolding entry_region(1) [OF assms(1,3)] entry_region(1) [OF assms(2,4)]
    by (rule region_of_nat_disjoint [OF _ entry_region(2) [OF assms(1,3)] entry_region(2) [OF assms(2,4)]])
qed

lemma entry_set:
  assumes "frame t = t" and "frame t' = t'" and "i < 512" and "i' < 512"
  shows "entry (set_entry t i v m) t' i' = (if t' = t \<and> i' = i then v else entry m t' i')"
  using entries_apart [OF assms(2,1,4,3)] w64.load_store_apart
  by (auto simp: entry_def set_entry_def rd64_wr64)

lemma entry_zero: "\<forall>x \<in> region a 8. m x = 0 \<Longrightarrow> rd64 m a = 0"
  using mem_region_offset [of _ 8 a] by (simp add: rd64_def rd32_def region_def)

lemma entry_clear:
  assumes "frame t = t" and "frame t' = t'" and "i < 512"
  shows "entry (clear_table t m) t' i = (if t' = t then 0 else entry m t' i)"
proof (cases "t' = t")
  case True
  have "region (t + 8 * of_nat i) 8 \<subseteq> region t 4096"
    using assms(3) by (intro region_offset_subset) (simp_all add: unat_word_ariths unat_of_nat_small)
  then have "\<forall>x \<in> region (t + 8 * of_nat i) 8. clear_table t m x = 0"
    by (auto simp: clear_table_def memset_value)
  then show ?thesis using True entry_zero unfolding entry_def by simp
next
  case False
  then have ne: "unat t \<noteq> unat t'" by (simp add: word_unat_eq_iff)
  note al = frame_aligned [OF assms(1)] frame_aligned [OF assms(2)]
  have ap: "unat t' + 8 * i + 8 \<le> unat t \<or> unat t + 4096 \<le> unat t' + 8 * i"
    using aligned_apart [OF al(1,3) ne] assms(3) by linarith
  have "region (of_nat (unat t' + 8 * i)) 8 \<inter> region (of_nat (unat t)) 4096 = {}"
    using al assms(3) by (intro region_of_nat_disjoint [OF ap]) auto
  then have "region (t' + 8 * of_nat i) 8 \<inter> region t 4096 = {}" by simp
  then have "agree_on (region (t' + 8 * of_nat i) 8) m (clear_table t m)"
    unfolding clear_table_def by (intro memset_frame) simp
  then show ?thesis using False rd64_cong unfolding entry_def by simp
qed

section \<open>The tables that are built\<close>

definition leaf :: "nat \<Rightarrow> nat \<Rightarrow> u64" where
  "leaf j i = ((of_nat j * 512 + of_nat i) * 0x200000) OR PAGE_PRESENT OR PAGE_RW OR PAGE_PS"

lemma fill_pd_leaf: "fill_pd l j m = fold (\<lambda>i. set_entry (pd_of l j) i (leaf j i)) [0 ..< 512] m"
  by (simp add: fill_pd_def leaf_def Let_def)

lemma entry_fill:
  assumes "frame t = t" and "frame t' = t'" and "i' < 512" and "n \<le> 512"
  shows "entry (fold (\<lambda>i. set_entry t i (f i)) [0 ..< n] m) t' i' = (if t' = t \<and> i' < n then f i' else entry m t' i')"
  using assms(4) by (induction n) (auto simp: entry_set [OF assms(1,2) _ assms(3)])

lemma tables_okD:
  assumes "tables_ok l"
  shows "frame (pml4 l) = pml4 l" "frame (pdpt l) = pdpt l" "frame (pd_of l j) = pd_of l j"
    "pml4 l \<noteq> pdpt l" "pml4 l \<noteq> pd_of l j" "pdpt l \<noteq> pd_of l j"
    "j < 4 \<Longrightarrow> j' < 4 \<Longrightarrow> pd_of l j = pd_of l j' \<longleftrightarrow> j = j'"
  using assms by (auto simp: tables_ok_def tables_list_def pd_of_def)

lemma entry_fill_pds:
  assumes ok: "tables_ok l" and "frame t = t" and "i < 512" and "n \<le> 4"
  shows "entry (fold (fill_pd l) [0 ..< n] m) t i =
    (if \<exists>j < n. t = pd_of l j then leaf (THE j. j < n \<and> t = pd_of l j) i else entry m t i)"
  using assms(4)
proof (induction n)
  case (Suc n)
  have step: "entry (fill_pd l n m') t i = (if t = pd_of l n then leaf n i else entry m' t i)" for m'
    unfolding fill_pd_leaf using assms(2,3) entry_fill [OF tables_okD(3) [OF ok] assms(2,3)] by simp
  have the: "(THE j. j < k \<and> t = pd_of l j) = j" if "j < k" "k \<le> 4" "t = pd_of l j" for j k
  proof (rule the_equality)
    show "j < k \<and> t = pd_of l j" using that by simp
    show "j' = j" if "j' < k \<and> t = pd_of l j'" for j'
      using that \<open>j < k\<close> \<open>k \<le> 4\<close> \<open>t = pd_of l j\<close> tables_okD(7) [OF ok, of j j'] by simp
  qed
  show ?case
  proof (cases "t = pd_of l n")
    case True
    then show ?thesis using the [of n "Suc n"] Suc.prems step by auto
  next
    case False
    then have "(\<exists>j < Suc n. t = pd_of l j) \<longleftrightarrow> (\<exists>j < n. t = pd_of l j)" by (auto simp: less_Suc_eq)
    moreover have "(THE j. j < Suc n \<and> t = pd_of l j) = (THE j. j < n \<and> t = pd_of l j)"
      using False by (auto simp: less_Suc_eq intro!: arg_cong [of _ _ The])
    ultimately show ?thesis using False Suc step by auto
  qed
qed simp

lemma pds: "pd0 l = pd_of l 0" "pd1 l = pd_of l 1" "pd2 l = pd_of l 2" "pd3 l = pd_of l 3"
  by (simp_all add: pd_of_def)

lemma built_entries:
  assumes ok: "tables_ok l" and i: "i < 512"
  shows "entry (build_tables l m) (pml4 l) i = (if i = 0 then pdpt l OR PAGE_PRESENT OR PAGE_RW else 0)"
    and "entry (build_tables l m) (pdpt l) i = (if i < 4 then pd_of l i OR PAGE_PRESENT OR PAGE_RW else 0)"
    and "j < 4 \<Longrightarrow> entry (build_tables l m) (pd_of l j) i = leaf j i"
proof -
  note fr = tables_okD(1-3) [OF ok]
  note ne = tables_okD(4-6) [OF ok] tables_okD(4-6) [OF ok, THEN not_sym]
  show "entry (build_tables l m) (pml4 l) i = (if i = 0 then pdpt l OR PAGE_PRESENT OR PAGE_RW else 0)"
    using i fr ne by (simp add: build_tables_def Let_def entry_fill_pds [OF ok] entry_set entry_clear pds)
  show "entry (build_tables l m) (pdpt l) i = (if i < 4 then pd_of l i OR PAGE_PRESENT OR PAGE_RW else 0)"
  proof -
    have i4: "i < 4 \<longleftrightarrow> i = 0 \<or> i = 1 \<or> i = 2 \<or> i = 3" by linarith
    show ?thesis
      using i fr ne unfolding i4
      by (simp add: build_tables_def Let_def entry_fill_pds [OF ok] entry_set entry_clear pds)
  qed
  assume j: "j < 4"
  have "(THE k. k < 4 \<and> pd_of l j = pd_of l k) = j"
    using j tables_okD(7) [OF ok j] by (intro the_equality) auto
  then show "entry (build_tables l m) (pd_of l j) i = leaf j i"
    using i j fr by (auto simp: build_tables_def Let_def entry_fill_pds [OF ok])
qed

section \<open>The identity map\<close>

lemma bit_page_consts:
  "bit PAGE_PRESENT n \<longleftrightarrow> n = 0" "bit PAGE_RW n \<longleftrightarrow> n = 1" "bit PAGE_PS n \<longleftrightarrow> n = 7"
  by (auto simp only: page_consts bit_exp_iff possible_bit_word) simp_all

lemma dir_entry:
  assumes "frame t = t"
  shows "bit (t OR PAGE_PRESENT OR PAGE_RW) 0" "\<not> bit (t OR PAGE_PRESENT OR PAGE_RW) 7"
    "frame (t OR PAGE_PRESENT OR PAGE_RW) = t"
proof -
  have low: "\<not> bit t n" if "n < 12" for n
    using that by (subst assms [symmetric]) (auto simp: frame_mask bit_simps)
  show "bit (t OR PAGE_PRESENT OR PAGE_RW) 0" by (simp add: bit_or_iff bit_page_consts)
  show "\<not> bit (t OR PAGE_PRESENT OR PAGE_RW) 7" using low [of 7] by (simp add: bit_or_iff bit_page_consts)
  have "frame (t OR PAGE_PRESENT OR PAGE_RW) = frame t"
    by (rule bit_word_eqI) (auto simp: frame_mask bit_page_consts bit_simps)
  then show "frame (t OR PAGE_PRESENT OR PAGE_RW) = t" using assms by simp
qed

lemma leaf_bits:
  assumes "j < 4" and "i < 512"
  shows "bit (leaf j i) 0" "bit (leaf j i) 7" "leaf j i AND 0x000FFFFFFFE00000 = of_nat ((j * 512 + i) * 2 ^ 21)"
proof -
  define w where "w = (of_nat (j * 512 + i) :: u64)"
  have lf: "leaf j i = push_bit 21 w OR PAGE_PRESENT OR PAGE_RW OR PAGE_PS"
    by (simp add: leaf_def w_def push_bit_eq_mult)
  show "bit (leaf j i) 0" "bit (leaf j i) 7" unfolding lf by (simp_all add: bit_or_iff bit_page_consts)
  have "take_bit 11 (j * 512 + i) = j * 512 + i" using assms by (intro take_bit_nat_eq_self) simp
  then have "take_bit 11 w = w" unfolding w_def by (simp only: take_bit_of_nat)
  then have small: "n < 11" if "bit w n" for n
    using that by (metis bit_take_bit_iff)
  have "leaf j i AND push_bit 21 (mask 31) = push_bit 21 w"
    unfolding lf by (rule bit_word_eqI) (auto simp: bit_simps bit_page_consts dest: small)
  then show "leaf j i AND 0x000FFFFFFFE00000 = of_nat ((j * 512 + i) * 2 ^ 21)"
    unfolding large_mask by (simp add: push_bit_eq_mult w_def)
qed

lemma table_index_less [simp]: "table_index k va < 512"
  by (simp add: table_index_def)

lemma low_indices:
  assumes "unat va < 2 ^ 32"
  shows "table_index 3 va = 0" "table_index 2 va = unat va div 2 ^ 30" "unat va div 2 ^ 30 < 4"
    "unat va div 2 ^ 30 * 512 + table_index 1 va = unat va div 2 ^ 21"
proof -
  have i: "table_index k va = (unat va div 2 ^ (12 + 9 * k)) mod 512" for k
    by (simp add: table_index_def unsigned_drop_bit_eq drop_bit_nat_def take_bit_nat_eq_self)
  show "table_index 3 va = 0" "table_index 2 va = unat va div 2 ^ 30" "unat va div 2 ^ 30 < 4"
    using assms by (simp_all add: i)
  have "unat va div 2 ^ 30 = unat va div 2 ^ 21 div 512" by (simp add: div_mult2_eq [symmetric])
  then show "unat va div 2 ^ 30 * 512 + table_index 1 va = unat va div 2 ^ 21" by (simp add: i)
qed

lemma split_address: "of_nat (unat (va :: u64) div 2 ^ 21 * 2 ^ 21) OR take_bit 21 va = va"
proof -
  have "of_nat (unat va div 2 ^ 21 * 2 ^ 21) = push_bit 21 (drop_bit 21 va)"
    by (simp add: word_unat_eq_iff push_bit_eq_mult drop_bit_eq_div unat_word_ariths unat_div unat_of_nat
        take_bit_nat_def)
  moreover have "push_bit 21 (drop_bit 21 va) OR take_bit 21 va = va"
    by (rule bit_word_eqI) (auto simp: bit_simps)
  ultimately show ?thesis by simp
qed

text \<open>What the walk relies on: the entries of the six tables.\<close>

definition identity_tables :: "page_tables \<Rightarrow> memory \<Rightarrow> bool" where
  "identity_tables l m \<longleftrightarrow> (\<forall>i < 512.
     entry m (pml4 l) i = (if i = 0 then pdpt l OR PAGE_PRESENT OR PAGE_RW else 0) \<and>
     entry m (pdpt l) i = (if i < 4 then pd_of l i OR PAGE_PRESENT OR PAGE_RW else 0) \<and>
     (\<forall>j < 4. entry m (pd_of l j) i = leaf j i))"

lemma built_identity_tables: "tables_ok l \<Longrightarrow> identity_tables l (build_tables l m)"
  by (simp add: identity_tables_def built_entries)

lemma entry_agree:
  assumes "agree_on (region t 4096) m m'" and "i < 512"
  shows "entry m' t i = entry m t i"
  unfolding entry_def
proof (rule rd64_cong [OF agree_on_subset [OF assms(1)]])
  show "region (t + 8 * of_nat i) 8 \<subseteq> region t 4096"
    using assms(2) by (intro region_offset_subset) (simp_all add: unat_word_ariths unat_of_nat_small)
qed

lemma identity_tables_agree:
  assumes "identity_tables l m" and "\<forall>t \<in> set (tables_list l). agree_on (region t 4096) m m'"
  shows "identity_tables l m'"
proof -
  have "entry m' (pml4 l) i = entry m (pml4 l) i" "entry m' (pdpt l) i = entry m (pdpt l) i"
    "entry m' (pd_of l j) i = entry m (pd_of l j) i" if "i < 512" for i j
    using assms(2) that by (auto simp: tables_list_def pd_of_def intro!: entry_agree)
  then show ?thesis using assms(1) by (simp add: identity_tables_def)
qed

lemma walk_identity:
  assumes ok: "tables_ok l" and t: "identity_tables l m" and va: "unat va < 2 ^ 48"
  shows "page_walk m (pml4 l) va = (if unat va < 2 ^ 32 then Some va else None)"
proof -
  have be: "entry m (pml4 l) i = (if i = 0 then pdpt l OR PAGE_PRESENT OR PAGE_RW else 0)"
    "entry m (pdpt l) i = (if i < 4 then pd_of l i OR PAGE_PRESENT OR PAGE_RW else 0)"
    "j < 4 \<Longrightarrow> entry m (pd_of l j) i = leaf j i" if "i < 512" for i j
    using t that by (simp_all add: identity_tables_def)
  note fr = tables_okD(1-3) [OF ok]
  show ?thesis
  proof (cases "unat va < 2 ^ 32")
    case True
    note ix = low_indices [OF True]
    have j: "unat va div 2 ^ 30 < 4" by (rule ix(3))
    note lf = leaf_bits [OF j table_index_less [of 1 va], unfolded ix(4)]
    have e: "entry m (pml4 l) (table_index 3 va) = pdpt l OR PAGE_PRESENT OR PAGE_RW"
      "entry m (pdpt l) (table_index 2 va) = pd_of l (unat va div 2 ^ 30) OR PAGE_PRESENT OR PAGE_RW"
      "entry m (pd_of l (unat va div 2 ^ 30)) (table_index 1 va) = leaf (unat va div 2 ^ 30) (table_index 1 va)"
      using be(1) [OF table_index_less, of 3 va] be(2) [OF table_index_less, of 2 va] be(3) [OF table_index_less j] ix(1,2) j by simp_all
    show ?thesis
      using True by (simp only: page_walk_def Let_def fr e dir_entry [OF fr(2)] dir_entry [OF fr(3)] lf
          split_address if_True if_False not_True_eq_False not_False_eq_True)
  next
    case False
    have i: "table_index k va = (unat va div 2 ^ (12 + 9 * k)) mod 512" for k
      by (simp add: table_index_def unsigned_drop_bit_eq drop_bit_nat_def take_bit_nat_eq_self)
    show ?thesis
    proof (cases "table_index 3 va = 0")
      case True
      have "unat va div 2 ^ 39 < 512" using va by (simp add: div_less_iff_less_mult)
      then have "unat va div 2 ^ 39 = 0" using True by (simp add: i)
      then have "unat va < 2 ^ 39" by (simp add: div_eq_0_iff)
      then have "table_index 2 va = unat va div 2 ^ 30" by (simp add: i div_less_iff_less_mult)
      then have "\<not> table_index 2 va < 4" using False by (simp add: div_less_iff_less_mult)
      then have e: "entry m (pml4 l) (table_index 3 va) = pdpt l OR PAGE_PRESENT OR PAGE_RW"
        "entry m (pdpt l) (table_index 2 va) = 0"
        using be(1) [OF table_index_less, of 3 va] be(2) [OF table_index_less, of 2 va] True by simp_all
      have nz: "\<not> bit (0 :: u64) 0" by simp
      show ?thesis using False
        by (simp only: page_walk_def Let_def fr e dir_entry [OF fr(2)] nz
            simp_thms if_True if_False)
    next
      case outside: False
      then have "entry m (pml4 l) (table_index 3 va) = 0" using be(1) [OF table_index_less, of 3 va] by simp
      then show ?thesis using False by (simp add: page_walk_def Let_def fr)
    qed
  qed
qed

text \<open>
  C9.  After \<open>paging_init\<close> the processor translates every address below 4 GiB to itself and
  every 48-bit address from 4 GiB on faults; paging (CR0.PG) and PAE (CR4.PAE) are on, and CR3 holds the
  address of the top-level table.
\<close>

theorem paging_identity:
  assumes ok: "tables_ok l" and va: "unat va < 2 ^ 48"
  shows "page_walk (mem (paging_init l s)) (cr3 (paging_init l s)) va = (if unat va < 2 ^ 32 then Some va else None) \<and>
    cr3 (paging_init l s) = pml4 l \<and> bit (cr0 (paging_init l s)) 31 \<and> bit (cr4 (paging_init l s)) 5"
  using walk_identity [OF ok built_identity_tables [OF ok] va]
  by (simp add: paging_init_def Let_def cpu_write_cr3_def bit_simps)

theorem paging_identity_witness:
  "page_walk (mem (paging_init \<lparr>pml4 = 0x200000, pdpt = 0x201000, pd0 = 0x202000, pd1 = 0x203000,
      pd2 = 0x204000, pd3 = 0x205000\<rparr> boot_machine)) 0x200000 0xFEE00123 = Some 0xFEE00123"
proof -
  let ?l = "\<lparr>pml4 = 0x200000, pdpt = 0x201000, pd0 = 0x202000, pd1 = 0x203000, pd2 = 0x204000, pd3 = 0x205000\<rparr>"
  have "tables_ok ?l" by (simp add: tables_ok_def tables_list_def frame_def)
  from paging_identity [OF this, of "0xFEE00123" boot_machine] show ?thesis by auto
qed

end
