(* ===== verification/KernelMain.thy ===== *)
theory KernelMain
  imports Interrupts Paging
begin

text \<open>
  The kernel in process context: the blocking input functions \<open>kgetch\<close> and \<open>kscan\<close> of \<open>cpu/kprintf.c\<close>, the
  start-up sequence and the shell loop of \<open>kernel/kernel.c\<close>.  What happens while the kernel waits is a list of
  interrupts; a wait that outlasts the list is \<open>None\<close>.
\<close>

section \<open>Waiting for the keyboard\<close>

text \<open>An interrupt is taken only while the interrupt flag is set.\<close>

fun wait_getch ::
  "('a kernel_scheme \<Rightarrow> 'a kernel_scheme option) \<Rightarrow> cpu_registers list \<Rightarrow> 'a kernel_scheme \<Rightarrow>
    (cpu_registers list \<times> 'a kernel_scheme) option" where
  "wait_getch hlt irqs s =
    (if getch_end s then Some (irqs, s)
     else (case irqs of
         [] \<Rightarrow> None
       | r # irqs \<Rightarrow>
           if iflag s then do { (_, s) \<leftarrow> interrupt hlt r s; wait_getch hlt irqs s } else None))"

declare wait_getch.simps [simp del]

definition kgetch ::
  "('a kernel_scheme \<Rightarrow> 'a kernel_scheme option) \<Rightarrow> cpu_registers list \<Rightarrow> 'a kernel_scheme \<Rightarrow>
    (int \<times> cpu_registers list \<times> 'a kernel_scheme) option" where
  "kgetch hlt irqs s = do {
     let s = s\<lparr>getch_end := False, getch_char := 0\<rparr>;
     let s = idt_register_handler 33 Getch_handler s;
     (irqs, s) \<leftarrow> wait_getch hlt irqs s;
     let s = idt_uninstall_handler 33 s;
     Some (sint (getch_char s), irqs, s) }"

text \<open>\<open>kscan\<close> registers its handler anew in every turn of the loop.\<close>

fun wait_enter ::
  "('a kernel_scheme \<Rightarrow> 'a kernel_scheme option) \<Rightarrow> cpu_registers list \<Rightarrow> 'a kernel_scheme \<Rightarrow>
    (cpu_registers list \<times> 'a kernel_scheme) option" where
  "wait_enter hlt irqs s =
    (if enter s then Some (irqs, s)
     else (case irqs of
         [] \<Rightarrow> None
       | r # irqs \<Rightarrow>
           if iflag s then do {
             (_, s) \<leftarrow> interrupt hlt r (idt_register_handler 33 Kscan_handler s);
             wait_enter hlt irqs s }
           else None))"

declare wait_enter.simps [simp del]

definition kscan ::
  "('a kernel_scheme \<Rightarrow> 'a kernel_scheme option) \<Rightarrow> cpu_registers list \<Rightarrow> u64 \<Rightarrow> 'a kernel_scheme \<Rightarrow>
    (cpu_registers list \<times> 'a kernel_scheme) option" where
  "kscan hlt irqs buf s = do {
     s \<leftarrow> kprintf ''kscan: '' [] (s\<lparr>enter := False\<rparr>);
     let s = s\<lparr>kscan_pos := 0\<rparr>;
     m \<leftarrow> strnone (mem s) (kscan_buf s);
     (irqs, s) \<leftarrow> wait_enter hlt irqs (s\<lparr>mem := m\<rparr>);
     let s = idt_uninstall_handler 33 s;
     s \<leftarrow> kprintf ''You typed: %s\<newline>'' [kscan_buf s] s;
     len \<leftarrow> strlen (mem s) (kscan_buf s);
     let m = snd (strncpy (mem s) buf (kscan_buf s) (of_int len));
     len \<leftarrow> strlen m (kscan_buf s);
     Some (irqs, s\<lparr>mem := m(buf + of_int len := 0)\<rparr>) }"

section \<open>The boot information\<close>

definition tag_type :: "memory \<Rightarrow> u64 \<Rightarrow> u32" where
  "tag_type m tag = rd32 m tag"

definition tag_size :: "memory \<Rightarrow> u64 \<Rightarrow> u32" where
  "tag_size m tag = rd32 m (tag + 4)"

definition next_tag :: "memory \<Rightarrow> u64 \<Rightarrow> u64" where
  "next_tag m tag = tag + ucast ((tag_size m tag + 7) AND NOT 7)"

partial_function (option) parse_tags :: "u64 \<Rightarrow> 'a machine_scheme \<Rightarrow> 'a machine_scheme option" where
  "parse_tags tag s =
    (if tag_type (mem s) tag = 0 then Some s
     else do {
       s \<leftarrow> (if tag_type (mem s) tag = 8 then kprintf ''Framebuffer found\<newline>'' [] s else Some s);
       parse_tags (next_tag (mem s) tag) s })"

definition parse_multiboot2 :: "u64 \<Rightarrow> 'a machine_scheme \<Rightarrow> 'a machine_scheme option" where
  "parse_multiboot2 addr s = parse_tags (addr + 8) s"

section \<open>Start-up\<close>

text \<open>Where the linker put the static objects, and the addresses of the interrupt stubs.\<close>

record layout =
  tables :: page_tables
  gdt_addr :: u64
  tss_addr :: u64
  stack_addr :: u64
  idt_addr :: u64
  stubs :: "nat \<Rightarrow> u64"

text \<open>The interrupt masks: everything but the keyboard.\<close>

definition mask_irqs :: "'a machine_scheme \<Rightarrow> 'a machine_scheme" where
  "mask_irqs s =
    (let s = fold (\<lambda>irq s. if irq \<noteq> 1 then pic_set_mask irq s else s) (map of_nat [0 ..< 8]) s
     in fold pic_set_mask (map of_nat [8 ..< 16]) s)"

definition init_tables :: "layout \<Rightarrow> u64 \<Rightarrow> 'a kernel_scheme \<Rightarrow> 'a kernel_scheme option" where
  "init_tables l mboot_info s = do {
     s \<leftarrow> parse_multiboot2 mboot_info s;
     let s = paging_init (tables l) s;
     (g, r) \<leftarrow> gdt_init (gdt_addr l) (gdt s);
     let s = s\<lparr>gdt := g, gdtr := r\<rparr>;
     (m, g, tr) \<leftarrow> tss_init (tss_addr l) (stack_addr l) (mem s) (gdt s);
     Some (s\<lparr>mem := m, gdt := g, task_register := tr\<rparr>) }"

definition init_devices :: "layout \<Rightarrow> 'a kernel_scheme \<Rightarrow> 'a kernel_scheme option" where
  "init_devices l s = do {
     let s = pic_remap 0x20 0x28 s;
     let s = mask_irqs s;
     let (i, r) = idt_init (stubs l) (idt_addr l) (idt s);
     let s = s\<lparr>idt := i, idtr := r\<rparr>;
     let s = apic_init s;
     let s = syscall_init s;
     let s = kclear s;
     s \<leftarrow> heap_init s;
     let s = cpu_enable_interrupts s;
     kprintf ''testing kgetch\<newline>'' [] s }"

definition kernel_init :: "layout \<Rightarrow> u64 \<Rightarrow> 'a kernel_scheme \<Rightarrow> 'a kernel_scheme option" where
  "kernel_init l mboot_info s = do {
     s \<leftarrow> init_tables l mboot_info s;
     init_devices l s }"

partial_function (option) shell ::
  "('a kernel_scheme \<Rightarrow> 'a kernel_scheme option) \<Rightarrow> cpu_registers list \<Rightarrow> 'a kernel_scheme \<Rightarrow>
    (cpu_registers list \<times> 'a kernel_scheme) option" where
  "shell hlt irqs s =
    Option.bind (kprintf ''> '' [] s) (\<lambda>s.
    Option.bind (kgetch hlt irqs s) (\<lambda>(r, irqs, s).
      let c = (word_of_int r :: u8) in
      if c = ch CHR ''q'' then Option.bind (kprintf ''Quitting...\<newline>'' [] s) (\<lambda>s. Some (irqs, s))
      else Option.bind (kprintf ''%c'' [scast c] s) (\<lambda>s. shell hlt irqs s)))"

definition kernel_main ::
  "('a kernel_scheme \<Rightarrow> 'a kernel_scheme option) \<Rightarrow> layout \<Rightarrow> cpu_registers list \<Rightarrow> u32 \<Rightarrow> u64 \<Rightarrow>
    'a kernel_scheme \<Rightarrow> 'a kernel_scheme option" where
  "kernel_main hlt l irqs mgc mboot_info s =
    (if mgc \<noteq> 0x36d76289 then kprintf ''panic: invalid magic number\<newline>kernel ended.'' [] s
     else do {
       s \<leftarrow> kernel_init l mboot_info s;
       (irqs, s) \<leftarrow> shell hlt irqs s;
       Some s })"

end
