(* ===== verification/GetchLaws.thy ===== *)
theory GetchLaws
  imports InterruptLaws KernelMain
begin

text \<open>
  Reading single keys: the state machine that \<open>getch_handler\<close> runs on the stream of scancodes, and
  \<open>kgetch\<close> as the first key that this machine reports.
\<close>

section \<open>The keyboard controller\<close>

text \<open>
  The controller hands out one scancode with every read of port 0x60; \<open>codes n\<close> is the one that the
  read after \<open>n\<close> reads gets.
\<close>

fun kbd_reads :: "io_history \<Rightarrow> nat" where
  "kbd_reads [] = 0"
| "kbd_reads (PortIn IO8 p v # h) = (if p = 0x60 then Suc (kbd_reads h) else kbd_reads h)"
| "kbd_reads (e # h) = kbd_reads h"

definition kbd_ok :: "(io_history \<Rightarrow> io_width \<Rightarrow> u16 \<Rightarrow> u32) \<Rightarrow> (nat \<Rightarrow> u8) \<Rightarrow> bool" where
  "kbd_ok b codes \<longleftrightarrow> (\<forall>h. ucast (b h IO8 0x60) = codes (kbd_reads h))"

lemma kbd_reads_port_writes: "port_writes k \<Longrightarrow> kbd_reads (k @ h) = kbd_reads h"
proof (induction k)
  case (Cons e k)
  then show ?case by (cases e) (auto simp: port_writes_def)
qed simp

lemma quiet_kbd_reads: "quiet s s' \<Longrightarrow> kbd_reads (io s') = kbd_reads (io s)"
  by (auto simp: quiet_def kbd_reads_port_writes)

section \<open>What a scancode means\<close>

datatype key_event = Shift_key bool | Caps_key | Char_key u8 | No_key

definition key_value :: "bool \<Rightarrow> u8 \<Rightarrow> u8 option" where
  "key_value upper k =
    (case map_of getch_cases k of
       Some v \<Rightarrow> Some v
     | None \<Rightarrow> (let c = (if upper then get_acsii_high k else get_acsii_low k) in if c = 0 then None else Some c))"

definition decode_key :: "bool \<Rightarrow> u8 \<Rightarrow> key_event" where
  "decode_key upper code =
    (let k = code AND 0x7F; pressed = \<not> bit code 7 in
     if k = KEY_LSHIFT \<or> k = KEY_RSHIFT then Shift_key pressed
     else if k = KEY_CAPS_LOCK then (if pressed then Caps_key else No_key)
     else if k = KEY_LCTRL \<or> k = KEY_LALT \<or> \<not> pressed then No_key
     else (case key_value upper k of Some v \<Rightarrow> Char_key v | None \<Rightarrow> No_key))"

text \<open>The first character in a stream of scancodes, with the shift and caps lock state it leaves and the
  rest of the stream.\<close>

fun first_key :: "bool \<Rightarrow> bool \<Rightarrow> u8 list \<Rightarrow> (u8 \<times> bool \<times> bool \<times> u8 list) option" where
  "first_key sh cl [] = None"
| "first_key sh cl (c # q) =
    (case decode_key (sh \<or> cl) c of
       Shift_key b \<Rightarrow> first_key b cl q
     | Caps_key \<Rightarrow> first_key sh (\<not> cl) q
     | No_key \<Rightarrow> first_key sh cl q
     | Char_key v \<Rightarrow> Some (v, sh, cl, q))"

section \<open>One keyboard interrupt\<close>

text \<open>What a keyboard interrupt leaves alone while \<open>kgetch\<close> waits.\<close>

definition getch_frame :: "'a kernel_scheme \<Rightarrow> 'a kernel_scheme \<Rightarrow> bool" where
  "getch_frame s s' \<longleftrightarrow> mem s' = mem s \<and> bus s' = bus s \<and> iflag s' = iflag s \<and>
     kernel_heap s' = kernel_heap s \<and> kb s' = kb s \<and> interrupt_handlers s' = interrupt_handlers s"

definition key_effect :: "key_event \<Rightarrow> 'a kernel_scheme \<Rightarrow> 'a kernel_scheme \<Rightarrow> bool" where
  "key_effect e s s' \<longleftrightarrow> kbd_reads (io s') = Suc (kbd_reads (io s)) \<and>
     shift s' = (case e of Shift_key b \<Rightarrow> b | _ \<Rightarrow> shift s) \<and>
     capslock s' = (if e = Caps_key then \<not> capslock s else capslock s) \<and>
     getch_end s' = (getch_end s \<or> (\<exists>v. e = Char_key v)) \<and>
     (\<forall>v. e = Char_key v \<longrightarrow> getch_char s' = v)"

lemma getch_handler_effect:
  assumes "kbd_ok (bus s) codes"
  shows "getch_frame s (getch_handler s) \<and>
    key_effect (decode_key (shift s \<or> capslock s) (codes (kbd_reads (io s)))) s (getch_handler s)"
proof -
  let ?c = "codes (kbd_reads (io s))"
  have c: "ucast (bus s (io s) IO8 0x60) = ?c" using assms by (simp add: kbd_ok_def)
  show ?thesis
    unfolding getch_handler_def inb_def Let_def c
    by (simp add: decode_key_def key_value_def modifier_key_def key_char_def getch_frame_def key_effect_def Let_def
        split: option.splits)
qed

lemma key_effect_quiet:
  "key_effect ev t u \<Longrightarrow> quiet (s\<lparr>iflag := False\<rparr>) t \<Longrightarrow> quiet u w \<Longrightarrow> key_effect ev s (w\<lparr>iflag := b\<rparr>)"
  by (auto simp: quiet_def key_effect_def kbd_reads_port_writes split: key_event.splits)

lemma getch_frame_quiet:
  "getch_frame t u \<Longrightarrow> quiet (s\<lparr>iflag := False\<rparr>) t \<Longrightarrow> quiet u w \<Longrightarrow> getch_frame s (w\<lparr>iflag := iflag s\<rparr>)"
  by (auto simp: quiet_def getch_frame_def)

lemma getch_interrupt:
  assumes "kbd_ok (bus s) codes" and "int_no r = 33" and "interrupt_handlers s 33 = Some Getch_handler"
  obtains s' where "interrupt hlt r s = Some (r, s')" and "getch_frame s s'"
    and "key_effect (decode_key (shift s \<or> capslock s) (codes (kbd_reads (io s)))) s s'"
proof -
  let ?s0 = "s\<lparr>iflag := False\<rparr>"
  obtain t where t: "trace_interrupt 33 r ?s0 = Some t" "quiet ?s0 t" using trace_interrupt_quiet by blast
  have s: "bus t = bus s" "shift t = shift s" "capslock t = capslock s" "kbd_reads (io t) = kbd_reads (io s)"
    "interrupt_handlers t = interrupt_handlers s"
    using t(2) by (auto simp: quiet_def kbd_reads_port_writes)
  have g: "getch_frame t (getch_handler t)"
    "key_effect (decode_key (shift s \<or> capslock s) (codes (kbd_reads (io s)))) t (getch_handler t)"
    using getch_handler_effect [of t codes] assms(1) by (simp_all add: s)
  have "interrupt hlt r s = Some (r, (pic_send_eoi 1 (getch_handler t))\<lparr>iflag := iflag s\<rparr>)"
    using t(1) assms(2,3) s(5) by (simp add: interrupt_def isr_dispatch_def run_handler_def Let_def)
  then show ?thesis
    using that getch_frame_quiet [OF g(1) t(2) quiet_send_eoi] key_effect_quiet [OF g(2) t(2) quiet_send_eoi]
    by blast
qed

section \<open>Waiting for a key\<close>

lemma getch_frame_trans: "getch_frame s t \<Longrightarrow> getch_frame t u \<Longrightarrow> getch_frame s u"
  by (simp add: getch_frame_def)

text \<open>The result of the wait, in terms of the scancodes of the interrupts to come.\<close>

definition waited ::
  "('a kernel_scheme \<Rightarrow> 'a kernel_scheme option) \<Rightarrow> u8 list \<Rightarrow> cpu_registers list \<Rightarrow> 'a kernel_scheme \<Rightarrow> bool" where
  "waited hlt q irqs s \<longleftrightarrow>
    (case first_key (shift s) (capslock s) q of
       None \<Rightarrow> wait_getch hlt irqs s = None
     | Some (v, sh, cl, rest) \<Rightarrow> (\<exists>s'. wait_getch hlt irqs s = Some (drop (length q - length rest) irqs, s') \<and>
         getch_frame s s' \<and> getch_char s' = v \<and> shift s' = sh \<and> capslock s' = cl \<and>
         kbd_reads (io s') = kbd_reads (io s) + (length q - length rest)))"

lemma first_key_rest: "first_key sh cl q = Some (v, sh', cl', rest) \<Longrightarrow> length rest < length q"
  by (induction sh cl q rule: first_key.induct) (auto split: key_event.splits intro: less_SucI)

lemma wait_getch_first_key:
  assumes "kbd_ok (bus s) codes" and "iflag s" and "\<not> getch_end s"
    and "interrupt_handlers s 33 = Some Getch_handler" and "\<forall>r \<in> set irqs. int_no r = 33"
  shows "waited hlt (map codes [kbd_reads (io s) ..< kbd_reads (io s) + length irqs]) irqs s"
  using assms
proof (induction irqs arbitrary: s)
  case Nil
  then show ?case by (simp add: waited_def wait_getch.simps)
next
  case (Cons r irqs)
  let ?n = "kbd_reads (io s)" and ?m = "length irqs"
  let ?q = "map codes [Suc ?n ..< Suc ?n + ?m]"
  let ?ev = "decode_key (shift s \<or> capslock s) (codes ?n)"
  have q: "map codes [?n ..< ?n + length (r # irqs)] = codes ?n # ?q"
    by (simp add: upt_conv_Cons del: upt_Suc)
  have r: "int_no r = 33" using Cons.prems(5) by simp
  obtain t where t: "interrupt hlt r s = Some (r, t)" "getch_frame s t" "key_effect ?ev s t"
    by (rule getch_interrupt [OF Cons.prems(1) r Cons.prems(4), where hlt = hlt])
  have w: "wait_getch hlt (r # irqs) s = wait_getch hlt irqs t"
    using Cons.prems(2,3) t(1) by (subst wait_getch.simps) simp
  have n: "kbd_reads (io t) = Suc ?n" using t(3) by (simp add: key_effect_def)
  show ?case
  proof (cases "\<exists>v. ?ev = Char_key v")
    case True
    then obtain v where v: "?ev = Char_key v" by blast
    then have "getch_end t" "getch_char t = v" "shift t = shift s" "capslock t = capslock s"
      using t(3) by (simp_all add: key_effect_def)
    then show ?thesis using v t(2) n
      unfolding waited_def q w by (simp add: wait_getch.simps)
  next
    case False
    then have e: "\<not> getch_end t" using Cons.prems(3) t(3) by (simp add: key_effect_def)
    have p: "kbd_ok (bus t) codes" "iflag t" "interrupt_handlers t 33 = Some Getch_handler"
      "\<forall>r \<in> set irqs. int_no r = 33"
      using t(2) Cons.prems by (simp_all add: getch_frame_def)
    define qs where "qs = ?q"
    note qs = qs_def
    have ih: "waited hlt qs irqs t"
      using Cons.IH [OF p(1,2) e p(3,4)] unfolding n qs(1) .
    have f: "first_key (shift s) (capslock s) (codes ?n # qs) = first_key (shift t) (capslock t) qs"
      using t(3) False by (simp add: key_effect_def split: key_event.splits)
    show ?thesis
    proof (cases "first_key (shift t) (capslock t) qs")
      case None
      then show ?thesis using ih unfolding waited_def q w qs(1) [symmetric] f by simp
    next
      case (Some res)
      obtain v sh cl rest where res: "res = (v, sh, cl, rest)" by (cases res)
      then obtain s' where s': "wait_getch hlt irqs t = Some (drop (length qs - length rest) irqs, s')"
        "getch_frame t s'" "getch_char s' = v" "shift s' = sh" "capslock s' = cl"
        "kbd_reads (io s') = Suc ?n + (length qs - length rest)"
        using ih Some n by (auto simp: waited_def)
      have "length (codes ?n # qs) - length rest = Suc (length qs - length rest)"
        using first_key_rest [OF Some [unfolded res]] by simp
      then show ?thesis
        using s' getch_frame_trans [OF t(2) s'(2)] unfolding waited_def q w qs(1) [symmetric] f Some res
        by simp
    qed
  qed
qed

lemma kgetch_ok:
  assumes "kbd_ok (bus s) codes" and "iflag s" and "\<forall>r \<in> set irqs. int_no r = 33" and "n = kbd_reads (io s)"
  shows "case first_key (shift s) (capslock s) (map codes [n ..< n + length irqs]) of
      None \<Rightarrow> kgetch hlt irqs s = None
    | Some (v, sh, cl, rest) \<Rightarrow> (\<exists>s'. kgetch hlt irqs s = Some (sint v, drop (length irqs - length rest) irqs, s') \<and>
        shift s' = sh \<and> capslock s' = cl \<and> mem s' = mem s \<and> bus s' = bus s \<and> iflag s' = iflag s \<and> kernel_heap s' = kernel_heap s \<and> kb s' = kb s \<and>
        interrupt_handlers s' = (interrupt_handlers s)(33 := None) \<and>
        kbd_reads (io s') = n + (length irqs - length rest))"
proof -
  let ?s = "idt_register_handler 33 Getch_handler (s\<lparr>getch_end := False, getch_char := 0\<rparr>)"
  have f: "kbd_ok (bus ?s) codes" "iflag ?s" "\<not> getch_end ?s" "interrupt_handlers ?s 33 = Some Getch_handler"
    "shift ?s = shift s" "capslock ?s = capslock s" "io ?s = io s"
    using assms(1,2) by (simp_all add: idt_register_handler_def)
  have "waited hlt (map codes [n ..< n + length irqs]) irqs ?s"
    using wait_getch_first_key [OF f(1-4) assms(3), of hlt] f(7) assms(4) by simp
  then show ?thesis
    unfolding waited_def f kgetch_def Let_def
    by (auto simp: idt_register_handler_def idt_uninstall_handler_def getch_frame_def assms(4)
        split: option.splits)
qed

text \<open>
  C10.  \<open>kgetch\<close> returns the first key of the scancode stream: while it waits, keyboard interrupts bring the
  scancodes \<open>codes n\<close>, \<open>codes (n + 1)\<close>, ...; if these contain a key that stands for a character, it returns that
  character, decided by the shift and caps lock keys seen so far, takes no interrupt beyond it, and leaves
  memory, heap and ring buffer alone and vector 33 without a handler.  If they do not, it does not return.
\<close>

theorem kgetch_first_key:
  assumes "kbd_ok (bus s) codes" and "iflag s" and "\<forall>r \<in> set irqs. int_no r = 33" and "n = kbd_reads (io s)"
  shows "case first_key (shift s) (capslock s) (map codes [n ..< n + length irqs]) of
      None \<Rightarrow> kgetch hlt irqs s = None
    | Some (v, sh, cl, rest) \<Rightarrow> (\<exists>s'. kgetch hlt irqs s = Some (sint v, drop (length irqs - length rest) irqs, s') \<and>
        shift s' = sh \<and> capslock s' = cl \<and> mem s' = mem s \<and> bus s' = bus s \<and> iflag s' = iflag s \<and> kernel_heap s' = kernel_heap s \<and> kb s' = kb s \<and>
        interrupt_handlers s' = (interrupt_handlers s)(33 := None) \<and>
        kbd_reads (io s') = n + (length irqs - length rest))"
  using assms by (rule kgetch_ok)

text \<open>Shift pressed, A, Enter: the first key is an upper case A.\<close>

theorem kgetch_first_key_witness:
  "\<exists>s'. kgetch Some [irq_frame 33 0, irq_frame 33 0, irq_frame 33 0]
      (boot_kernel\<lparr>bus := \<lambda>h w p. ucast ([0x2A, 0x1E, 0x1C] ! (kbd_reads h) :: u8)\<rparr>) =
    Some (65, [irq_frame 33 0], s')"
proof -
  let ?codes = "\<lambda>n. [0x2A, 0x1E, 0x1C] ! n :: u8"
  let ?s = "boot_kernel\<lparr>bus := \<lambda>h w p. ucast (?codes (kbd_reads h))\<rparr>"
  let ?irqs = "[irq_frame 33 0, irq_frame 33 0, irq_frame 33 0]"
  have s: "kbd_ok (bus ?s) ?codes" "iflag ?s" "0 = kbd_reads (io ?s)" "\<not> shift ?s" "\<not> capslock ?s"
    by (simp_all add: kbd_ok_def boot_kernel_def)
  have i: "\<forall>r \<in> set ?irqs. int_no r = 33" by (simp add: irq_frame_def)
  have d: "decode_key False 0x2A = Shift_key True" "decode_key True 0x1E = Char_key 65"
    by code_simp+
  have "first_key False False (map ?codes [0 ..< 0 + length ?irqs]) = Some (65, True, False, [0x1C])"
    by (simp add: upt_rec d)
  then show ?thesis
    using kgetch_first_key [OF s(1,2) i s(3), of Some] s(4,5) by auto
qed

end
