(* ===== verification/StringCopy.thy ===== *)
theory StringCopy
  imports StringEdit PrintfSpec
begin

text \<open>
  More contracts on NUL-terminated strings: bounded copying, clearing, and printing a string with \<open>%s\<close>.
\<close>

section \<open>Bounded copying\<close>

lemma strncpy_copy_cstr:
  assumes "cstr m (src + of_nat k) bs" and "k + length bs < 2 ^ 31"
    and "\<forall>i \<le> k + length bs. \<forall>j < k + length bs. src + of_nat i \<noteq> dest + of_nat j"
  shows "\<exists>m'. strncpy_copy m dest src (of_nat k) (of_nat (k + length bs)) = (m', of_nat (k + length bs)) \<and>
    bytes_at m' (dest + of_nat k) bs \<and> agree_on (- region (dest + of_nat k) (length bs)) m m'"
  using assms
proof (induction bs arbitrary: k m)
  case Nil
  then show ?case by (intro exI [of _ m]) (simp add: strncpy_copy.simps)
next
  case (Cons b bs)
  let ?n = "k + length (b # bs)" and ?d = "dest + of_nat k"
  let ?m = "m(?d := b)"
  have b: "m (src + of_nat k) = b" "b \<noteq> 0" using Cons.prems(1) by simp_all
  have "unat (of_nat k :: u64) = k" "unat (of_nat ?n :: u64) = ?n"
    using Cons.prems(2) by (intro unat_of_nat_small, simp)+
  then have "(of_nat k :: u64) < of_nat ?n" by (simp only: word_less_unat) simp
  then have u: "strncpy_copy m dest src (of_nat k) (of_nat ?n) = strncpy_copy ?m dest src (of_nat (Suc k)) (of_nat (Suc k + length bs))"
    using b by (subst strncpy_copy.simps) (simp add: add.commute)
  have ne: "src + of_nat i \<noteq> ?d" if "i \<le> ?n" for i using Cons.prems(3) that by simp
  have "cstr m (src + of_nat (Suc k)) bs" using Cons.prems(1) by (simp add: ac_simps)
  then have c: "cstr ?m (src + of_nat (Suc k)) bs"
  proof (rule cstr_agree)
    show "agree_on (region (src + of_nat (Suc k)) (Suc (length bs))) m ?m"
      unfolding agree_on_def
    proof
      fix x
      assume "x \<in> region (src + of_nat (Suc k)) (Suc (length bs))"
      moreover have "Suc (length bs) < 2 ^ 64" using Cons.prems(2) by simp
      ultimately obtain i where "i < Suc (length bs)" "x = src + of_nat (Suc k) + of_nat i"
        by (auto simp only: region_iff_offset)
      then have xi: "x = src + of_nat (Suc k + i)" "Suc k + i \<le> ?n" by (simp_all add: add.assoc)
      have "x \<noteq> ?d" unfolding xi(1) by (rule ne [OF xi(2)])
      then show "?m x = m x" by simp
    qed
    show "length bs < 2 ^ 64" using Cons.prems(2) by simp
  qed
  have p: "Suc k + length bs < 2 ^ 31"
    "\<forall>i \<le> Suc k + length bs. \<forall>j < Suc k + length bs. src + of_nat i \<noteq> dest + of_nat j"
    using Cons.prems(2,3) by simp_all
  obtain m' where m': "strncpy_copy ?m dest src (of_nat (Suc k)) (of_nat (Suc k + length bs)) = (m', of_nat (Suc k + length bs))"
    "bytes_at m' (dest + of_nat (Suc k)) bs" "agree_on (- region (dest + of_nat (Suc k)) (length bs)) ?m m'"
    using Cons.IH [OF c p] by blast
  have d: "dest + of_nat (Suc k) = ?d + 1" by (simp add: ac_simps)
  have lx: "length bs < 2 ^ 64 - 1" using Cons.prems(2) by simp
  have "?d \<in> - region (?d + 1) (length bs)" using lx by (simp add: region_def)
  then have "m' ?d = b" using agree_onD [OF m'(3) [unfolded d]] by simp
  then have "bytes_at m' ?d (b # bs)"
    using m'(2) [unfolded d] bytes_at_append [of m' ?d "[b]" bs] by (simp add: bytes_at_def [of m' ?d "[b]"])
  moreover have "agree_on (- region ?d (length (b # bs))) m m'"
    using m'(3) [unfolded d] lx by (auto simp: agree_on_def region_Suc)
  ultimately show ?case using u m'(1) by (intro exI [of _ m']) simp
qed

lemma strncpy_cstr:
  assumes "cstr m src bs" and "length bs < 2 ^ 31"
    and "\<forall>i \<le> length bs. \<forall>j < length bs. src + of_nat i \<noteq> dest + of_nat j"
  obtains m' where "strncpy m dest src (of_nat (length bs)) = (dest, m')" and "bytes_at m' dest bs"
    and "agree_on (- region dest (length bs)) m m'"
proof -
  obtain m' where m': "strncpy_copy m dest src 0 (of_nat (length bs)) = (m', of_nat (length bs))"
    "bytes_at m' dest bs" "agree_on (- region dest (length bs)) m m'"
    using strncpy_copy_cstr [of m src 0 bs dest] assms by auto
  then show ?thesis using that by (simp add: strncpy_def strncpy_pad.simps)
qed

section \<open>Clearing\<close>

text \<open>\<open>strnone\<close> clears the first byte only, which empties the string.\<close>

lemma strnone_cstr:
  assumes "cstr m p bs" and "length bs < 2 ^ 31"
  obtains m' where "strnone m p = Some m'" and "cstr m' p []" and "agree_on (- {p}) m m'"
proof (cases bs)
  case Nil
  have "strnone m p = Some m"
    unfolding strnone_def by (subst strnone_loop.simps) (use strlen_cstr [OF assms] Nil in simp)
  then show ?thesis using that assms(1) Nil by simp
next
  case (Cons b bs')
  let ?m = "m(p := 0)"
  have z: "strlen ?m p = Some 0" using strlen_cstr [of ?m p "[]"] by simp
  have "strnone m p = strnone_loop ?m p 1"
    unfolding strnone_def by (subst strnone_loop.simps) (use strlen_cstr [OF assms] Cons in simp)
  also have "\<dots> = Some ?m" by (subst strnone_loop.simps) (simp add: z)
  finally show ?thesis using that [of ?m] by (simp add: agree_on_def)
qed

section \<open>Printing\<close>

lemma str_len_cstr:
  assumes "cstr m (p + of_nat k) bs" and "k + length bs < 2 ^ 31"
  shows "str_len m p (- 1) (int k) = Some (int (k + length bs))"
  using assms
proof (induction bs arbitrary: k)
  case Nil
  then show ?case by (simp add: str_len.simps)
next
  case (Cons b bs)
  have "str_len m p (- 1) (int (Suc k)) = Some (int (Suc k + length bs))"
    using Cons.prems by (intro Cons.IH) (simp_all add: ac_simps)
  then show ?case using Cons.prems by (subst str_len.simps) (simp add: INT_MAX_def add.commute)
qed

lemma kprintf_string:
  assumes "cstr (mem s) p bs" and "length bs < 2 ^ 31" and "37 \<notin> set (lit f)" and "37 \<notin> set (lit g)"
    and "region p (Suc (length bs)) \<inter> video_window = {}"
  obtains s' where "kprintf (f @ ''%s'' @ g) [p] s = Some s'"
proof -
  let ?s = "kputs (lit f) s" and ?d = "\<lparr>left = False, zero = False, width = 0, precision = - 1\<rparr>"
  have "cstr (mem ?s) p bs"
  proof (rule cstr_agree [OF assms(1)])
    have "mem ?s x = mem s x" if "x \<notin> video_window" for x using that by (rule con_frame_mem [OF con_frame_kputs])
    then show "agree_on (region p (Suc (length bs))) (mem s) (mem ?s)"
      using assms(5) by (auto simp: agree_on_def)
  qed (use assms(2) in simp)
  then have "str_len (mem ?s) p (- 1) 0 = Some (int (length bs))"
    using str_len_cstr [of "mem ?s" p 0 bs] assms(2) by simp
  then have "\<exists>t. put_string ?d p ?s = Some t" by (auto simp: put_string_def Let_def)
  then obtain t where "put_string ?d p ?s = Some t" by blast
  moreover have "lit (f @ ''%s'' @ g) = lit f @ [37, 115] @ lit g" by (simp add: lit_def)
  moreover have "\<forall>b \<in> set (lit f). b \<noteq> 37" "\<forall>b \<in> set (lit g). b \<noteq> 37" using assms(3,4) by auto
  ultimately have "kprintf (f @ ''%s'' @ g) [p] s = Some (kputs (lit g) t)"
    unfolding kprintf_def
    by (simp add: kvprintf_text kvprintf_plain parse_directive_plain is_digit_def convert_def)
  then show ?thesis using that by blast
qed

end
