(* ===== verification/KscanLaws.thy ===== *)
theory KscanLaws
  imports GetchLaws StringCopy
begin

text \<open>
  Line input: the editor that \<open>kscan_handler\<close> implements on the line buffer, and \<open>kscan\<close> as the line that
  this editor makes of a stream of scancodes.
\<close>

section \<open>The editor\<close>

record editor =
  line_text :: "u8 list"
  line_pos :: nat
  ed_shift :: bool
  ed_caps :: bool
  accepted :: bool

definition insert_char :: "u8 \<Rightarrow> editor \<Rightarrow> editor" where
  "insert_char c e = e\<lparr>line_text := take (line_pos e) (line_text e) @ c # drop (line_pos e) (line_text e),
     line_pos := line_pos e + 1\<rparr>"

definition rub_out :: "editor \<Rightarrow> editor" where
  "rub_out e = (if line_pos e = 0 then e
     else e\<lparr>line_text := take (line_pos e - 1) (line_text e) @ drop (line_pos e) (line_text e),
            line_pos := line_pos e - 1\<rparr>)"

definition edit_key :: "u8 \<Rightarrow> editor \<Rightarrow> editor" where
  "edit_key code e =
    (let k = code AND 0x7F; pressed = \<not> bit code 7;
         c = (if ed_shift e \<or> ed_caps e then get_acsii_high k else get_acsii_low k) in
     if k = KEY_LSHIFT \<or> k = KEY_RSHIFT then e\<lparr>ed_shift := pressed\<rparr>
     else if k = KEY_CAPS_LOCK then (if pressed then e\<lparr>ed_caps := \<not> ed_caps e\<rparr> else e)
     else if k = KEY_LCTRL \<or> k = KEY_LALT \<or> \<not> pressed then e
     else if k = KEY_LEFT then e\<lparr>line_pos := line_pos e - 1\<rparr>
     else if k = KEY_RIGHT then e\<lparr>line_pos := min (line_pos e + 1) (length (line_text e))\<rparr>
     else if k = KEY_BACKSPACE then rub_out e
     else if k = KEY_ENTER then e\<lparr>accepted := True, line_pos := 0\<rparr>
     else if c = 0 then e
     else insert_char c e)"

section \<open>Console output reads no scancode\<close>

lemma kbd_reads_append: "\<forall>e \<in> set k. crtc_event e \<Longrightarrow> kbd_reads (k @ h) = kbd_reads h"
proof (induction k)
  case (Cons e k)
  then show ?case by (cases "(e # k @ h)" rule: kbd_reads.cases) (auto simp: REG_SCREEN_DATA_def)
qed simp

lemma con_frame_kbd_reads: "con_frame s s' \<Longrightarrow> kbd_reads (io s') = kbd_reads (io s)"
  by (auto simp: con_frame_def ports_by_def kbd_reads_append)

section \<open>The line buffer\<close>

definition buffer_ok :: "u64 \<Rightarrow> bool" where
  "buffer_ok buf \<longleftrightarrow> unat buf + KSCAN_BUF_SIZE < 2 ^ 64 \<and> region buf KSCAN_BUF_SIZE \<inter> video_window = {}"

lemma backspace_mem:
  assumes c: "cstr m buf xs" and p: "0 < p" "p \<le> length xs" and n: "length xs < 512"
    and b: "unat buf + 512 < 2 ^ 64"
  defines "m' \<equiv> (memmove m (buf + of_nat (p - 1)) (buf + of_nat p) (of_nat (length xs - p + 1)))
      (buf + of_nat (length xs - 1) := 0)"
  shows "cstr m' buf (take (p - 1) xs @ drop p xs)" and "agree_on (- region buf 512) m m'"
proof -
  let ?n = "length xs" and ?k = "length xs - p + 1"
  have u: "unat (buf + of_nat i) = unat buf + i" if "i \<le> 512" for i
    using that b by (subst unat_plus_64) (simp_all add: unat_of_nat_small)
  have k: "unat (of_nat ?k :: u64) = ?k" using n by (intro unat_of_nat_small) simp
  have mm: "memmove m (buf + of_nat (p - 1)) (buf + of_nat p) (of_nat ?k) =
      copied m (buf + of_nat (p - 1)) (buf + of_nat p) ?k"
  proof (subst memmove_eq)
    have "unat (buf + of_nat p) = unat buf + p" "unat (buf + of_nat (p - 1)) = unat buf + (p - 1)"
      using p n by (simp_all only: u)
    then show "unat (buf + of_nat p) + unat (of_nat ?k :: u64) \<le> 2 ^ 64 - 1"
      "unat (buf + of_nat (p - 1)) + unat (of_nat ?k :: u64) \<le> 2 ^ 64 - 1"
      unfolding k using p n b by linarith+
  qed (simp only: k)
  have inside: "copied m (buf + of_nat (p - 1)) (buf + of_nat p) ?k (buf + of_nat i) = m (buf + of_nat (Suc i))"
    if "p - 1 \<le> i" "i < ?n" for i
  proof -
    have e: "buf + of_nat i = buf + of_nat (p - 1) + of_nat (i - (p - 1))"
      "buf + of_nat (Suc i) = buf + of_nat p + of_nat (i - (p - 1))"
      using that p(1) by (simp_all flip: of_nat_add add: add.assoc)
    show ?thesis unfolding e using that p n by (intro copied_inside) simp_all
  qed
  have outside: "copied m (buf + of_nat (p - 1)) (buf + of_nat p) ?k x = m x" if "x \<notin> region (buf + of_nat (p - 1)) ?k" for x
    using that by simp
  have before: "copied m (buf + of_nat (p - 1)) (buf + of_nat p) ?k (buf + of_nat i) = m (buf + of_nat i)" if "i < p - 1" for i
  proof (rule outside)
    have "unat (of_nat i - of_nat (p - 1) :: u64) = 2 ^ 64 + i - (p - 1)"
      using that p n unat_diff_of_nat_neg [of i "p - 1", where 'a = 64] by simp
    then show "buf + of_nat i \<notin> region (buf + of_nat (p - 1)) ?k" using p n by (simp add: region_def)
  qed
  have ne: "buf + of_nat i \<noteq> buf + of_nat (?n - 1)" if "i < ?n - 1" for i
    using that n by (simp add: of_nat_inj_small del: of_nat_diff)
  have len: "length (take (p - 1) xs @ drop p xs) = ?n - 1" using p by simp
  show "cstr m' buf (take (p - 1) xs @ drop p xs)"
    unfolding cstr_iff len
  proof (intro conjI allI impI)
    show "m' (buf + of_nat (?n - 1)) = 0" by (simp add: m'_def)
    fix i
    assume i: "i < ?n - 1"
    let ?j = "if i < p - 1 then i else Suc i"
    have "m' (buf + of_nat i) = m (buf + of_nat ?j)"
      unfolding m'_def mm using ne [OF i] before [of i] inside [of i] i by (simp del: of_nat_Suc of_nat_diff)
    moreover have "(take (p - 1) xs @ drop p xs) ! i = xs ! ?j"
      using i p by (auto simp: nth_append)
    moreover have "Suc i < ?n" using i by linarith
    then have "?j < ?n" by auto
    ultimately show "m' (buf + of_nat i) = (take (p - 1) xs @ drop p xs) ! i" "(take (p - 1) xs @ drop p xs) ! i \<noteq> 0"
      using cstr_nth [OF c] by auto
  qed
  show "agree_on (- region buf 512) m m'"
    unfolding agree_on_def
  proof
    fix x
    assume x: "x \<in> - region buf 512"
    have "x \<notin> region (buf + of_nat (p - 1)) ?k"
    proof
      assume "x \<in> region (buf + of_nat (p - 1)) ?k"
      then obtain j where "j < ?k" "x = buf + of_nat (p - 1) + of_nat j" using n by (auto simp: region_iff_offset)
      then have "x = buf + of_nat (p - 1 + j)" "p - 1 + j < 512" using p n by (simp_all add: add.assoc)
      then show False using x offset_in_region [of "p - 1 + j" 512 buf] by simp
    qed
    moreover have "x \<noteq> buf + of_nat (?n - 1)" using x n offset_in_region [of "?n - 1" 512 buf] by auto
    ultimately show "m' x = m x" unfolding m'_def mm by simp
  qed
qed

text \<open>The state of the input code holds the line that the editor is at.\<close>

definition line_ok :: "'a kernel_scheme \<Rightarrow> editor \<Rightarrow> bool" where
  "line_ok s e \<longleftrightarrow> cstr (mem s) (kscan_buf s) (line_text e) \<and> kscan_pos s = of_nat (line_pos e) \<and>
     line_pos e \<le> length (line_text e) \<and> shift s = ed_shift e \<and> capslock s = ed_caps e \<and> enter s = accepted e"

text \<open>What a keyboard interrupt leaves alone while a line is edited.\<close>

definition kscan_frame :: "'a kernel_scheme \<Rightarrow> 'a kernel_scheme \<Rightarrow> bool" where
  "kscan_frame s s' \<longleftrightarrow> bus s' = bus s \<and> iflag s' = iflag s \<and> kernel_heap s' = kernel_heap s \<and> kb s' = kb s \<and>
     (interrupt_handlers s')(33 := None) = (interrupt_handlers s)(33 := None) \<and> kscan_buf s' = kscan_buf s \<and>
     agree_on (- (region (kscan_buf s) KSCAN_BUF_SIZE \<union> video_window)) (mem s) (mem s')"

lemma kscan_frame_trans: "kscan_frame s t \<Longrightarrow> kscan_frame t u \<Longrightarrow> kscan_frame s u"
  by (auto simp: kscan_frame_def agree_on_def)

text \<open>The fields that printing keeps.\<close>

lemma con_frame_fields:
  assumes "con_frame s t"
  shows "bus t = bus s" "iflag t = iflag s" "kernel_heap t = kernel_heap s" "kb t = kb s"
    "interrupt_handlers t = interrupt_handlers s" "kscan_buf t = kscan_buf s" "kscan_pos t = kscan_pos s"
    "shift t = shift s" "capslock t = capslock s" "ctrl t = ctrl s" "alt t = alt s" "enter t = enter s"
    "kbd_reads (io t) = kbd_reads (io s)"
  using assms con_frame_kbd_reads [OF assms] by (cases s; cases t; simp add: con_frame_def)+

lemma region_subset: "k \<le> n \<Longrightarrow> region a k \<subseteq> region a n"
  by (auto simp: region_def)

lemma con_frame_cstr:
  assumes "con_frame s t" and "cstr (mem s) buf xs" and "length xs < 512" and "buffer_ok buf"
  shows "cstr (mem t) buf xs"
proof (rule cstr_agree [OF assms(2)])
  have "region buf (Suc (length xs)) \<subseteq> region buf 512" using assms(3) by (intro region_subset) simp
  then have "x \<notin> video_window" if "x \<in> region buf (Suc (length xs))" for x
    using that assms(4) by (auto simp: buffer_ok_def KSCAN_BUF_SIZE_def)
  then show "agree_on (region buf (Suc (length xs))) (mem s) (mem t)"
    using con_frame_mem [OF assms(1)] by (simp add: agree_on_def)
qed (use assms(3) in simp)

lemma kscan_frame_con_frame: "con_frame s t \<Longrightarrow> kscan_frame s t"
  using con_frame_mem [of s t] by (auto simp: kscan_frame_def con_frame_fields agree_on_def)

section \<open>One key\<close>

lemma region_apart:
  "buffer_ok buf \<Longrightarrow> x \<in> region buf 512 \<Longrightarrow> x \<notin> video_window"
  by (auto simp: buffer_ok_def KSCAN_BUF_SIZE_def)

text \<open>A change of memory inside the line buffer, followed by output.\<close>

lemma kscan_frame_buffer:
  assumes "agree_on (- region (kscan_buf s) 512) (mem s) m" and "con_frame (s\<lparr>kscan_pos := q, mem := m\<rparr>) t"
  shows "kscan_frame s t"
proof -
  have "mem t x = mem s x" if "x \<notin> region (kscan_buf s) 512" "x \<notin> video_window" for x
    using that con_frame_mem [OF assms(2)] agree_onD [OF assms(1)] by simp
  then show ?thesis
    using con_frame_fields [OF assms(2)] by (simp add: kscan_frame_def agree_on_def KSCAN_BUF_SIZE_def)
qed

lemma kscan_backspace_ok:
  assumes l: "line_ok s e" and b: "buffer_ok (kscan_buf s)" and n: "length (line_text e) < 512" and p: "0 < line_pos e"
  shows "line_ok (kscan_backspace (of_nat (length (line_text e))) s) (rub_out e) \<and>
    kscan_frame s (kscan_backspace (of_nat (length (line_text e))) s) \<and>
    kbd_reads (io (kscan_backspace (of_nat (length (line_text e))) s)) = kbd_reads (io s)"
proof -
  let ?n = "length (line_text e)" and ?p = "line_pos e" and ?buf = "kscan_buf s"
  let ?m = "(memmove (mem s) (?buf + of_nat (?p - 1)) (?buf + of_nat ?p) (of_nat (?n - ?p + 1)))(?buf + of_nat (?n - 1) := 0)"
  let ?s = "s\<lparr>kscan_pos := of_nat (?p - 1), mem := ?m\<rparr>"
  have lo: "cstr (mem s) ?buf (line_text e)" "kscan_pos s = of_nat ?p" "?p \<le> ?n" "shift s = ed_shift e"
    "capslock s = ed_caps e" "enter s = accepted e"
    using l by (simp_all add: line_ok_def)
  have bb: "unat ?buf + 512 < 2 ^ 64" using b by (simp add: buffer_ok_def KSCAN_BUF_SIZE_def)
  have w: "(of_nat ?p - 1 :: u64) = of_nat (?p - 1)" "(of_nat ?n - 1 :: u64) = of_nat (?n - 1)"
    "(of_nat ?n - of_nat ?p + 1 :: u64) = of_nat (?n - ?p + 1)"
    using p lo(3) by simp_all
  obtain pos t0 where g: "get_cursor ?s = (pos, t0)" by (cases "get_cursor ?s")
  note t0 = con_frame_get [OF g]
  let ?sp = "ucast (ucast pos - of_nat ?n * 2 :: u64) :: u16"
  let ?t1 = "set_cursor ?sp t0"
  let ?t2 = "fold (\<lambda>i s. kputchar (mem s (?buf + of_nat i)) 7 s) [0 ..< ?n] ?t1"
  have n': "unat (of_nat ?n :: u64) = ?n" using n by (intro unat_of_nat_small) simp
  have eq: "kscan_backspace (of_nat ?n) s =
      set_cursor (ucast (ucast ?sp + kscan_pos (kputchar (ch CHR '' '') 7 ?t2) * 2))
        (kputchar (ch CHR '' '') 7 ?t2)"
    unfolding kscan_backspace_def Let_def
    by (simp add: g n' lo(2) w del: of_nat_diff of_nat_add of_nat_Suc One_nat_def)
  have t: "con_frame ?s (kscan_backspace (of_nat ?n) s)"
    unfolding eq by (intro con_frame_trans [OF _ con_frame_set_cursor] con_frame_trans [OF _ con_frame_kputchar]
        con_frame_trans [OF _ con_frame_fold] t0) simp
  note bm = backspace_mem [OF lo(1) p lo(3) n bb]
  have "cstr (mem (kscan_backspace (of_nat ?n) s)) ?buf (line_text (rub_out e))"
    by (rule con_frame_cstr [OF t]) (use bm(1) n b p lo(3) in \<open>simp_all add: rub_out_def\<close>)
  then have "line_ok (kscan_backspace (of_nat ?n) s) (rub_out e)"
    using con_frame_fields [OF t] lo p by (simp add: line_ok_def rub_out_def)
  moreover have "kscan_frame s (kscan_backspace (of_nat ?n) s)" by (rule kscan_frame_buffer [OF bm(2) t])
  moreover have "kbd_reads (io (kscan_backspace (of_nat ?n) s)) = kbd_reads (io s)"
    using con_frame_fields(13) [OF t] by simp
  ultimately show ?thesis by blast
qed

lemma kscan_insert_ok:
  assumes l: "line_ok s e" and b: "buffer_ok (kscan_buf s)" and n: "length (line_text e) \<le> 510" and c: "c \<noteq> 0"
  shows "\<exists>s'. kscan_insert c s = Some s' \<and> line_ok s' (insert_char c e) \<and> kscan_frame s s' \<and>
    kbd_reads (io s') = kbd_reads (io s)"
proof -
  let ?n = "length (line_text e)" and ?p = "line_pos e" and ?buf = "kscan_buf s"
  have lo: "cstr (mem s) ?buf (line_text e)" "kscan_pos s = of_nat ?p" "?p \<le> ?n" "shift s = ed_shift e"
    "capslock s = ed_caps e" "enter s = accepted e"
    using l by (simp_all add: line_ok_def)
  have "?n < 2 ^ 31 - 1" "?p < 2 ^ 31" using n lo(3) by simp_all
  then obtain m where m: "strins (mem s) ?buf c (int ?p) = Some m"
    "cstr m ?buf (take ?p (line_text e) @ c # drop ?p (line_text e))"
    "agree_on (- region ?buf (?n + 2)) (mem s) m" "sint (ucast (of_nat ?p :: u64) :: u32) = int ?p"
    using strins_ok [OF lo(1,3) _ c] sint_low by metis
  let ?s = "s\<lparr>kscan_pos := kscan_pos s, mem := m\<rparr>"
  let ?t = "kputchar c 7 (s\<lparr>mem := m\<rparr>)"
  have eq: "kscan_insert c s = Some (?t\<lparr>kscan_pos := kscan_pos ?t + 1\<rparr>)"
    using m(1,4) lo(2) by (simp add: kscan_insert_def Let_def)
  have t: "con_frame ?s ?t" by simp
  have "agree_on (- region ?buf 512) (mem s) m"
    by (rule agree_on_subset [OF m(3)]) (use n region_subset [of "?n + 2" 512 ?buf] in auto)
  then have "kscan_frame s ?t" using t by (rule kscan_frame_buffer)
  then have f: "kscan_frame s (?t\<lparr>kscan_pos := kscan_pos ?t + 1\<rparr>)" by (simp add: kscan_frame_def)
  have "cstr (mem ?t) ?buf (line_text (insert_char c e))"
    by (rule con_frame_cstr [OF t]) (use m(2) n b lo(3) in \<open>simp_all add: insert_char_def\<close>)
  then have "line_ok (?t\<lparr>kscan_pos := kscan_pos ?t + 1\<rparr>) (insert_char c e)"
    using con_frame_fields [OF t] lo by (simp add: line_ok_def insert_char_def add.commute)
  moreover have "kbd_reads (io ?t) = kbd_reads (io s)" using con_frame_fields(13) [OF t] by simp
  ultimately show ?thesis using eq f by auto
qed

lemma kprintf_newline: "kprintf ''\<newline>'' [] s = Some (kputchar 10 7 s)"
  by (simp add: kprintf_def kputc_def)

lemma kscan_handler_ok:
  assumes c: "ucast (bus s (io s) IO8 0x60) = code" and l: "line_ok s e" and b: "buffer_ok (kscan_buf s)"
    and n: "length (line_text e) \<le> 510"
  shows "\<exists>s'. kscan_handler s = Some s' \<and> line_ok s' (edit_key code e) \<and> kscan_frame s s' \<and>
    kbd_reads (io s') = Suc (kbd_reads (io s))"
proof -
  let ?c = code and ?n = "length (line_text e)" and ?p = "line_pos e"
  let ?k = "?c AND 0x7F" and ?s = "s\<lparr>io := PortIn IO8 0x60 (ucast ?c) # io s\<rparr>"
  have l1: "line_ok ?s e" and b1: "buffer_ok (kscan_buf ?s)" using l b by (simp_all add: line_ok_def)
  have lo: "cstr (mem s) (kscan_buf s) (line_text e)" "kscan_pos s = of_nat ?p" "?p \<le> ?n" "shift s = ed_shift e"
    "capslock s = ed_caps e" "enter s = accepted e"
    using l by (simp_all add: line_ok_def)
  have f: "kscan_frame s t" "kbd_reads (io t) = Suc (kbd_reads (io s))"
    if "kscan_frame ?s t" "kbd_reads (io t) = kbd_reads (io ?s)" for t :: "'a kernel_scheme"
    using that by (simp_all add: kscan_frame_def)
  have len: "strlen (mem s) (kscan_buf s) = Some (int ?n)" using strlen_cstr [OF lo(1)] n by simp
  have w: "0 < kscan_pos s \<longleftrightarrow> 0 < ?p" "kscan_pos s < of_nat ?n \<longleftrightarrow> ?p < ?n"
    using lo(3) n by (simp_all add: lo(2) word_less_unat unat_of_nat_small)
  have hm: "kscan_handler s = Some t" if "modifier_key ?k (\<not> bit ?c 7) ?s = Some t" for t
    unfolding kscan_handler_def inb_def Let_def c prod.case using that by (simp add: len)
  have h: "kscan_handler s =
        (if ?k = KEY_LEFT \<and> \<not> bit ?c 7 then Some (if 0 < ?p then ?s\<lparr>kscan_pos := kscan_pos s - 1\<rparr> else ?s)
        else if ?k = KEY_RIGHT \<and> \<not> bit ?c 7 then Some (if ?p < ?n then ?s\<lparr>kscan_pos := kscan_pos s + 1\<rparr> else ?s)
        else if ?k = 0x0E then Some (if \<not> bit ?c 7 \<and> 0 < ?p then kscan_backspace (of_nat ?n) ?s else ?s)
        else if ?k = 0x1C then
          (if \<not> bit ?c 7 then Some ((kputchar 10 7 ?s)\<lparr>enter := True, kscan_pos := 0\<rparr>) else Some ?s)
        else if \<not> bit ?c 7 \<and> key_char ?k ?s \<noteq> 0 then kscan_insert (key_char ?k ?s) ?s
        else Some ?s)" if "modifier_key ?k (\<not> bit ?c 7) ?s = None"
    unfolding kscan_handler_def inb_def Let_def c prod.case using that
    by (simp add: len w kprintf_newline)
  have kc: "key_char ?k ?s = (if ed_shift e \<or> ed_caps e then get_acsii_high ?k else get_acsii_low ?k)"
    using lo(4,5) by (simp add: key_char_def)
  have same: ?thesis if "kscan_handler s = Some (?s\<lparr>kscan_pos := q\<rparr>)"
      "edit_key ?c e = e\<lparr>line_pos := p\<rparr>" "q = of_nat p" "p \<le> ?n" for p q
    using that lo by (simp add: line_ok_def kscan_frame_def)
  show ?thesis
  proof (cases "modifier_key ?k (\<not> bit ?c 7) ?s")
    case t: (Some t)
    consider (shift) "?k = KEY_LSHIFT \<or> ?k = KEY_RSHIFT"
      | (caps) "\<not> (?k = KEY_LSHIFT \<or> ?k = KEY_RSHIFT)" "?k = KEY_CAPS_LOCK"
      | (ctrl) "\<not> (?k = KEY_LSHIFT \<or> ?k = KEY_RSHIFT)" "?k \<noteq> KEY_CAPS_LOCK" "?k = KEY_LCTRL"
      | (alt) "\<not> (?k = KEY_LSHIFT \<or> ?k = KEY_RSHIFT)" "?k \<noteq> KEY_CAPS_LOCK" "?k \<noteq> KEY_LCTRL" "?k = KEY_LALT"
      using t by (simp add: modifier_key_def split: if_splits)
    then have "line_ok t (edit_key ?c e) \<and> kscan_frame s t \<and> kbd_reads (io t) = Suc (kbd_reads (io s))"
    proof cases
      case shift
      then have "t = ?s\<lparr>shift := \<not> bit ?c 7\<rparr>" "edit_key ?c e = e\<lparr>ed_shift := \<not> bit ?c 7\<rparr>"
        using t by (simp_all add: modifier_key_def edit_key_def Let_def)
      then show ?thesis using lo by (simp add: line_ok_def kscan_frame_def)
    next
      case caps
      then have "t = (if \<not> bit ?c 7 then ?s\<lparr>capslock := \<not> capslock s\<rparr> else ?s)"
        "edit_key ?c e = (if \<not> bit ?c 7 then e\<lparr>ed_caps := \<not> ed_caps e\<rparr> else e)"
        using t by (cases "bit ?c 7"; simp add: modifier_key_def edit_key_def Let_def)+
      then show ?thesis using lo by (simp add: line_ok_def kscan_frame_def)
    next
      case ctrl
      then have "t = ?s\<lparr>ctrl := \<not> bit ?c 7\<rparr>" "edit_key ?c e = e"
        using t by (simp_all add: modifier_key_def edit_key_def Let_def)
      then show ?thesis using lo by (simp add: line_ok_def kscan_frame_def)
    next
      case alt
      then have "t = ?s\<lparr>alt := \<not> bit ?c 7\<rparr>" "edit_key ?c e = e"
        using t by (simp_all add: modifier_key_def edit_key_def Let_def)
      then show ?thesis using lo by (simp add: line_ok_def kscan_frame_def)
    qed
    then show ?thesis using hm [OF t] by blast
  next
    case None
    note h = h [OF None]
    have nomod: "?k \<notin> {KEY_LSHIFT, KEY_RSHIFT, KEY_CAPS_LOCK, KEY_LCTRL, KEY_LALT}"
      using None by (simp add: modifier_key_def split: if_splits)
    consider (up) "bit ?c 7" | (left) "\<not> bit ?c 7" "?k = KEY_LEFT" | (right) "\<not> bit ?c 7" "?k = KEY_RIGHT"
      | (rub) "\<not> bit ?c 7" "?k = KEY_BACKSPACE" | (enter) "\<not> bit ?c 7" "?k = KEY_ENTER"
      | (other) "\<not> bit ?c 7" "?k \<notin> {KEY_LEFT, KEY_RIGHT, KEY_BACKSPACE, KEY_ENTER}"
      by blast
    then show ?thesis
    proof cases
      case up
      then have "kscan_handler s = Some ?s" unfolding h by simp
      moreover have "edit_key ?c e = e" using up nomod by (simp add: edit_key_def Let_def)
      ultimately show ?thesis using l1 by (simp add: kscan_frame_def)
    next
      case left
      show ?thesis
        by (rule same [of "kscan_pos s - of_bool (0 < ?p)" "?p - 1"])
          (use left nomod lo in \<open>simp_all add: h edit_key_def Let_def key_defs\<close>)
    next
      case right
      show ?thesis
        by (rule same [of "kscan_pos s + of_bool (?p < ?n)" "min (?p + 1) ?n"])
          (use right nomod lo in \<open>simp_all add: h edit_key_def Let_def key_defs\<close>)
    next
      case rub
      then have h': "kscan_handler s = Some (if 0 < ?p then kscan_backspace (of_nat ?n) ?s else ?s)"
        unfolding h by (simp add: key_defs)
      have e: "edit_key ?c e = rub_out e" using rub nomod by (simp add: edit_key_def Let_def key_defs)
      show ?thesis
      proof (cases "0 < ?p")
        case True
        let ?t = "kscan_backspace (of_nat ?n) ?s"
        have "?n < 512" using n by simp
        note r = kscan_backspace_ok [OF l1 b1 this True]
        have "kscan_handler s = Some ?t" using h' True by simp
        moreover have "line_ok ?t (edit_key ?c e)" using r unfolding e by blast
        moreover have "kscan_frame s ?t" "kbd_reads (io ?t) = Suc (kbd_reads (io s))" using r f [of ?t] by blast+
        ultimately show ?thesis by blast
      next
        case False
        then show ?thesis using l1 h' e by (simp add: rub_out_def kscan_frame_def)
      qed
    next
      case enter
      let ?t = "kputchar 10 7 ?s"
      have t: "con_frame ?s ?t" by simp
      have h': "kscan_handler s = Some (?t\<lparr>enter := True, kscan_pos := 0\<rparr>)"
        unfolding h using enter by (simp add: key_defs)
      have e: "edit_key ?c e = e\<lparr>accepted := True, line_pos := 0\<rparr>"
        using enter nomod by (simp add: edit_key_def Let_def key_defs)
      have "cstr (mem ?t) (kscan_buf s) (line_text e)" using con_frame_cstr [OF t _ _ b] lo(1) n by simp
      then have "line_ok (?t\<lparr>enter := True, kscan_pos := 0\<rparr>) (edit_key ?c e)"
        using con_frame_fields [OF t] lo by (simp add: line_ok_def e)
      moreover have "kscan_frame s (?t\<lparr>enter := True, kscan_pos := 0\<rparr>)"
        using f(1) [OF kscan_frame_con_frame [OF t]] con_frame_fields(13) [OF t] by (simp add: kscan_frame_def)
      ultimately show ?thesis using h' con_frame_fields(13) [OF t] by simp
    next
      case other
      have e: "edit_key ?c e = (if key_char ?k ?s = 0 then e else insert_char (key_char ?k ?s) e)"
        using other nomod by (simp add: edit_key_def Let_def kc)
      have h': "kscan_handler s = (if key_char ?k ?s = 0 then Some ?s else kscan_insert (key_char ?k ?s) ?s)"
        unfolding h using other by (simp add: KEY_BACKSPACE_def KEY_ENTER_def)
      show ?thesis
      proof (cases "key_char ?k ?s = 0")
        case True
        then show ?thesis using l1 h' e by (simp add: kscan_frame_def)
      next
        case False
        obtain t where r: "kscan_insert (key_char ?k ?s) ?s = Some t" "line_ok t (insert_char (key_char ?k ?s) e)"
          "kscan_frame ?s t" "kbd_reads (io t) = kbd_reads (io ?s)"
          using kscan_insert_ok [OF l1 b1 n False] by blast
        have "kscan_handler s = Some t" using h' r(1) False by simp
        moreover have "line_ok t (edit_key ?c e)" using r(2) e False by simp
        ultimately show ?thesis using f [OF r(3,4)] by blast
      qed
    qed
  qed
qed

section \<open>Interrupts while a line is read\<close>

lemma quiet_line_ok: "quiet s t \<Longrightarrow> line_ok t e \<longleftrightarrow> line_ok s e"
  by (auto simp: quiet_def line_ok_def)

lemma quiet_kscan_frame: "quiet s t \<Longrightarrow> kscan_frame s t"
  by (auto simp: quiet_def kscan_frame_def)

lemma kscan_frame_iflag: "kscan_frame (s\<lparr>iflag := b\<rparr>) t \<Longrightarrow> kscan_frame s (t\<lparr>iflag := iflag s\<rparr>)"
  by (simp add: kscan_frame_def)

text \<open>A keyboard interrupt while \<open>kscan\<close> waits; the trace comes before the scancode is read.\<close>

lemma kscan_interrupt_code:
  assumes "int_no r = 33" and "line_ok s e" and "buffer_ok (kscan_buf s)" and "length (line_text e) \<le> 510"
  obtains h s' where "port_writes h" and "interrupt hlt r (idt_register_handler 33 Kscan_handler s) = Some (r, s')"
    and "line_ok s' (edit_key (ucast (bus s (h @ io s) IO8 0x60)) e)" and "kscan_frame s s'"
    and "kbd_reads (io s') = Suc (kbd_reads (io s))"
proof -
  let ?r = "idt_register_handler 33 Kscan_handler s"
  let ?s0 = "?r\<lparr>iflag := False\<rparr>"
  obtain t where t: "trace_interrupt 33 r ?s0 = Some t" "quiet ?s0 t" using trace_interrupt_quiet by blast
  obtain h where h: "t = ?s0\<lparr>io := h @ io s\<rparr>" "port_writes h"
    using t(2) by (auto simp: quiet_def idt_register_handler_def)
  have s0: "kscan_frame s (?s0\<lparr>iflag := iflag s\<rparr>)" "line_ok ?s0 e"
    using assms(2) by (simp_all add: idt_register_handler_def kscan_frame_def line_ok_def)
  have f: "bus t = bus s" "kscan_buf t = kscan_buf s" "interrupt_handlers t 33 = Some Kscan_handler"
    "kbd_reads (io t) = kbd_reads (io s)" "io t = h @ io s"
    using h by (auto simp: idt_register_handler_def kbd_reads_port_writes)
  have lt: "line_ok t e" using quiet_line_ok [OF t(2)] s0(2) by simp
  let ?code = "ucast (bus s (h @ io s) IO8 0x60) :: u8"
  obtain u where u: "kscan_handler t = Some u" "line_ok u (edit_key ?code e)"
    "kscan_frame t u" "kbd_reads (io u) = Suc (kbd_reads (io s))"
    using kscan_handler_ok [of t ?code e] assms(3,4) lt by (auto simp: f(1,2,5) kbd_reads_port_writes [OF h(2)])
  let ?w = "pic_send_eoi 1 u"
  have w: "quiet u ?w" by simp
  let ?s' = "?w\<lparr>iflag := iflag s\<rparr>"
  have "interrupt hlt r ?r = Some (r, ?s')"
    using t(1) u(1) f(3) assms(1)
    by (simp add: interrupt_def isr_dispatch_def run_handler_def Let_def) (simp add: idt_register_handler_def)
  moreover have "line_ok ?w (edit_key ?code e)" using quiet_line_ok [OF w] u(2) by simp
  then have "line_ok ?s' (edit_key ?code e)" by (simp add: line_ok_def)
  moreover have "kscan_frame ?s0 ?w"
    using kscan_frame_trans [OF kscan_frame_trans [OF quiet_kscan_frame [OF t(2)] u(3)] quiet_kscan_frame [OF w]] .
  then have "kscan_frame s ?s'" by (simp add: idt_register_handler_def kscan_frame_def)
  moreover have "kbd_reads (io ?s') = Suc (kbd_reads (io s))" using quiet_kbd_reads [OF w] u(4) by simp
  ultimately show ?thesis using that h(2) by blast
qed

lemma kscan_interrupt:
  assumes "kbd_ok (bus s) codes" and "int_no r = 33" and "line_ok s e" and "buffer_ok (kscan_buf s)"
    and "length (line_text e) \<le> 510"
  obtains s' where "interrupt hlt r (idt_register_handler 33 Kscan_handler s) = Some (r, s')"
    and "line_ok s' (edit_key (codes (kbd_reads (io s))) e)" and "kscan_frame s s'"
    and "kbd_reads (io s') = Suc (kbd_reads (io s))"
  by (rule kscan_interrupt_code [OF assms(2-5), where hlt = hlt])
    (use assms(1) that in \<open>auto simp: kbd_ok_def kbd_reads_port_writes\<close>)

text \<open>The line that a stream of scancodes makes, up to the first accepting key, and the rest of the stream.\<close>

fun edit_line :: "u8 list \<Rightarrow> editor \<Rightarrow> (editor \<times> u8 list) option" where
  "edit_line q e = (if accepted e then Some (e, q) else (case q of [] \<Rightarrow> None | c # q \<Rightarrow> edit_line q (edit_key c e)))"

declare edit_line.simps [simp del]

lemma edit_key_length: "length (line_text (edit_key c e)) \<le> Suc (length (line_text e))"
proof -
  have "length (line_text (insert_char d e)) \<le> Suc (length (line_text e))" for d
    by (simp add: insert_char_def min_def)
  moreover have "length (line_text (rub_out e)) \<le> Suc (length (line_text e))"
    by (auto simp: rub_out_def min_def)
  ultimately show ?thesis by (simp add: edit_key_def Let_def)
qed

lemma edit_line_rest: "edit_line q e = Some (e', rest) \<Longrightarrow> length rest \<le> length q"
proof (induction q arbitrary: e)
  case (Cons c q)
  then show ?case by (subst (asm) edit_line.simps) (auto split: if_splits intro: le_SucI)
qed (auto simp: edit_line.simps split: if_splits)

lemma edit_line_length: "edit_line q e = Some (e', rest) \<Longrightarrow> length (line_text e') \<le> length (line_text e) + length q"
proof (induction q arbitrary: e)
  case (Cons c q)
  then show ?case using edit_key_length [of c e]
    by (subst (asm) edit_line.simps) (fastforce split: if_splits)
qed (auto simp: edit_line.simps split: if_splits)

lemma wait_enter_edit_line:
  assumes "kbd_ok (bus s) codes" and "iflag s" and "\<forall>r \<in> set irqs. int_no r = 33" and "line_ok s e"
    and "buffer_ok (kscan_buf s)" and "length (line_text e) + length irqs \<le> 511"
    and "q = map codes [kbd_reads (io s) ..< kbd_reads (io s) + length irqs]"
  shows "case edit_line q e of None \<Rightarrow> wait_enter hlt irqs s = None
    | Some (e', rest) \<Rightarrow> (\<exists>s'. wait_enter hlt irqs s = Some (drop (length q - length rest) irqs, s') \<and>
        line_ok s' e' \<and> kscan_frame s s' \<and> kbd_reads (io s') = kbd_reads (io s) + (length q - length rest))"
  using assms
proof (induction irqs arbitrary: s e q)
  case Nil
  then have "enter s = accepted e" by (simp add: line_ok_def)
  then show ?case using Nil by (auto simp: edit_line.simps wait_enter.simps kscan_frame_def)
next
  case (Cons r irqs)
  have en: "enter s = accepted e" using Cons.prems(4) by (simp add: line_ok_def)
  show ?case
  proof (cases "accepted e")
    case True
    then show ?thesis using Cons.prems(4) en by (simp add: edit_line.simps wait_enter.simps kscan_frame_def)
  next
    case False
    let ?n = "kbd_reads (io s)"
    let ?e = "edit_key (codes ?n) e"
    define qs where "qs = map codes [Suc ?n ..< Suc ?n + length irqs]"
    have q: "q = codes ?n # qs" using Cons.prems(7) by (simp add: qs_def upt_conv_Cons del: upt_Suc)
    have r: "int_no r = 33" and n: "length (line_text e) \<le> 510" using Cons.prems(3,6) by simp_all
    obtain t where t: "interrupt hlt r (idt_register_handler 33 Kscan_handler s) = Some (r, t)" "line_ok t ?e"
      "kscan_frame s t" "kbd_reads (io t) = Suc ?n"
      by (rule kscan_interrupt [OF Cons.prems(1) r Cons.prems(4,5) n, where hlt = hlt])
    have w: "wait_enter hlt (r # irqs) s = wait_enter hlt irqs t"
      using False en Cons.prems(2) t(1) by (subst wait_enter.simps) simp
    have el: "edit_line q e = edit_line qs ?e" unfolding q using False by (subst edit_line.simps) simp
    have p: "kbd_ok (bus t) codes" "iflag t" "\<forall>r \<in> set irqs. int_no r = 33" "buffer_ok (kscan_buf t)"
      using t(3) Cons.prems(1,2,3,5) by (simp_all add: kscan_frame_def)
    have len: "length (line_text ?e) + length irqs \<le> 511"
      using Cons.prems(6) edit_key_length [of "codes ?n" e] by simp
    note ih = Cons.IH [OF p(1-3) t(2) p(4) len, unfolded t(4), OF qs_def]
    show ?thesis
    proof (cases "edit_line qs ?e")
      case None
      then show ?thesis using ih unfolding el w by simp
    next
      case (Some res)
      obtain e' rest where res: "res = (e', rest)" by (cases res)
      then obtain s' where s': "wait_enter hlt irqs t = Some (drop (length qs - length rest) irqs, s')"
        "line_ok s' e'" "kscan_frame t s'" "kbd_reads (io s') = Suc ?n + (length qs - length rest)"
        using ih Some by auto
      have "length q - length rest = Suc (length qs - length rest)"
        using edit_line_rest [OF Some [unfolded res]] q by simp
      then show ?thesis
        using s' kscan_frame_trans [OF t(3) s'(3)] unfolding el w Some res by simp
    qed
  qed
qed

section \<open>Reading a line\<close>

lemma cstr_frame_window:
  assumes "cstr m p xs" and "length xs < 512" and "agree_on (region p 512) m m'"
  shows "cstr m' p xs"
proof (rule cstr_agree [OF assms(1)])
  show "agree_on (region p (Suc (length xs))) m m'"
    by (rule agree_on_subset [OF assms(3)]) (use assms(2) in \<open>simp add: region_subset\<close>)
qed (use assms(2) in simp)

text \<open>Copying the line out at the end of \<open>kscan\<close>.\<close>

lemma copy_line_out:
  assumes c: "cstr m src xs" and n: "length xs \<le> 510" and d: "region buf 512 \<inter> region src 512 = {}"
  obtains m' where "snd (strncpy m buf src (of_nat (length xs))) = m'" and "strlen m' src = Some (int (length xs))"
    and "cstr (m'(buf + of_nat (length xs) := 0)) buf xs"
    and "agree_on (- region buf (Suc (length xs))) m (m'(buf + of_nat (length xs) := 0))"
proof -
  have ne: "src + of_nat i \<noteq> buf + of_nat j" if "i < 512" "j < 512" for i j
  proof -
    have "src + of_nat i \<in> region src 512" "buf + of_nat j \<in> region buf 512"
      using that by (simp_all add: offset_in_region)
    then show ?thesis using d by auto
  qed
  have l31: "length xs < 2 ^ 31" and l512: "length xs < 512" using n by simp_all
  have sep: "\<forall>i \<le> length xs. \<forall>j < length xs. src + of_nat i \<noteq> buf + of_nat j"
  proof (intro allI impI)
    fix i j
    assume "i \<le> length xs" "j < length xs"
    then show "src + of_nat i \<noteq> buf + of_nat j" using l512 by (intro ne) simp_all
  qed
  obtain m' where m': "strncpy m buf src (of_nat (length xs)) = (buf, m')" "bytes_at m' buf xs"
    "agree_on (- region buf (length xs)) m m'"
    by (rule strncpy_cstr [OF c l31 sep])
  have sub: "region buf (length xs) \<subseteq> region buf 512" using n by (intro region_subset) simp
  have "region src 512 \<subseteq> - region buf (length xs)" using d sub by blast
  then have "agree_on (region src 512) m m'" by (rule agree_on_subset [OF m'(3)])
  then have l: "strlen m' src = Some (int (length xs))"
    by (intro strlen_cstr [OF cstr_frame_window [OF c l512] l31])
  have "bytes_at (m'(buf + of_nat (length xs) := 0)) buf (xs @ [0])"
    by (intro bytes_at_snoc [OF m'(2)]) (use n in simp)
  then have o: "cstr (m'(buf + of_nat (length xs) := 0)) buf xs"
    unfolding cstr_bytes_at using cstr_nonzero [OF c] by simp
  have "buf + of_nat (length xs) \<in> region buf (Suc (length xs))" using n by (intro offset_in_region) simp_all
  moreover have "region buf (length xs) \<subseteq> region buf (Suc (length xs))" by (rule region_subset) simp
  ultimately have fr: "agree_on (- region buf (Suc (length xs))) m (m'(buf + of_nat (length xs) := 0))"
    using m'(3) unfolding agree_on_def by (metis ComplD ComplI fun_upd_apply subsetD)
  show ?thesis by (rule that [OF _ l o fr]) (simp add: m'(1))
qed

definition empty_line :: "bool \<Rightarrow> bool \<Rightarrow> editor" where
  "empty_line sh cl = \<lparr>line_text = [], line_pos = 0, ed_shift = sh, ed_caps = cl, accepted = False\<rparr>"

text \<open>What comes before the loop of \<open>kscan\<close>.\<close>

lemma kscan_start:
  assumes "buffer_ok (kscan_buf s)" and "cstr (mem s) (kscan_buf s) old" and "length old < 512"
  obtains s1 m where "kprintf ''kscan: '' [] (s\<lparr>enter := False\<rparr>) = Some s1"
    and "strnone (mem s1) (kscan_buf s1) = Some m"
    and "line_ok (s1\<lparr>kscan_pos := 0, mem := m\<rparr>) (empty_line (shift s) (capslock s))"
    and "kscan_frame s (s1\<lparr>kscan_pos := 0, mem := m\<rparr>)" and "kbd_reads (io s1) = kbd_reads (io s)"
proof -
  let ?s0 = "s\<lparr>enter := False\<rparr>"
  let ?s1 = "kputs (lit ''kscan: '') ?s0"
  have k: "kprintf ''kscan: '' [] ?s0 = Some ?s1"
    unfolding kprintf_def by (rule kvprintf_plain) simp
  have c: "con_frame ?s0 ?s1" by simp
  note f = con_frame_fields [OF c]
  have "cstr (mem ?s1) (kscan_buf s) old" using con_frame_cstr [OF c _ assms(3,1)] assms(2) by simp
  moreover have "length old < 2 ^ 31" using assms(3) by simp
  ultimately obtain m where m: "strnone (mem ?s1) (kscan_buf s) = Some m" "cstr m (kscan_buf s) []"
    "agree_on (- {kscan_buf s}) (mem ?s1) m"
    by (rule strnone_cstr)
  have "m x = mem s x" if x: "x \<notin> region (kscan_buf s) 512" "x \<notin> video_window" for x
  proof -
    have "x \<noteq> kscan_buf s" using x(1) by (auto simp: region_def)
    then have "m x = mem ?s1 x" using agree_onD [OF m(3)] by (simp del: lit_Cons)
    also have "\<dots> = mem ?s0 x" by (rule con_frame_mem [OF c x(2)])
    finally show ?thesis by simp
  qed
  then have fr: "agree_on (- (region (kscan_buf s) 512 \<union> video_window)) (mem s) m"
    by (auto simp: agree_on_def)
  show ?thesis
  proof (rule that [OF k])
    show "strnone (mem ?s1) (kscan_buf ?s1) = Some m" using m(1) f(6) by simp
    show "line_ok (?s1\<lparr>kscan_pos := 0, mem := m\<rparr>) (empty_line (shift s) (capslock s))"
      using f m(2) by (simp add: line_ok_def empty_line_def)
    show "kscan_frame s (?s1\<lparr>kscan_pos := 0, mem := m\<rparr>)"
      using f fr by (simp add: kscan_frame_def KSCAN_BUF_SIZE_def)
    show "kbd_reads (io ?s1) = kbd_reads (io s)" using f(13) by simp
  qed
qed

text \<open>What comes after it.\<close>

lemma kscan_finish:
  assumes b: "buffer_ok (kscan_buf s)" and l: "line_ok s e" and n: "length (line_text e) \<le> 510"
    and d: "region buf 512 \<inter> region (kscan_buf s) 512 = {}"
  obtains s1 m' where "kprintf ''You typed: %s\<newline>'' [kscan_buf s] s = Some s1"
    and "strlen (mem s1) (kscan_buf s1) = Some (int (length (line_text e)))"
    and "snd (strncpy (mem s1) buf (kscan_buf s1) (of_nat (length (line_text e)))) = m'"
    and "strlen m' (kscan_buf s1) = Some (int (length (line_text e)))"
    and "cstr (m'(buf + of_nat (length (line_text e)) := 0)) buf (line_text e)"
    and "agree_on (- (video_window \<union> region buf (Suc (length (line_text e))))) (mem s)
        (m'(buf + of_nat (length (line_text e)) := 0))"
    and "con_frame s s1"
proof -
  let ?xs = "line_text e" and ?src = "kscan_buf s"
  have c: "cstr (mem s) ?src ?xs" using l by (simp add: line_ok_def)
  have l31: "length ?xs < 2 ^ 31" and l512: "length ?xs < 512" using n by simp_all
  have "region ?src (Suc (length ?xs)) \<subseteq> region ?src 512" using n by (intro region_subset) simp
  then have w: "region ?src (Suc (length ?xs)) \<inter> video_window = {}"
    using b unfolding buffer_ok_def KSCAN_BUF_SIZE_def by blast
  have f: "''You typed: %s\<newline>'' = ''You typed: '' @ ''%s'' @ ''\<newline>''" by simp
  have p: "37 \<notin> set (lit ''You typed: '')" "37 \<notin> set (lit ''\<newline>'')" by simp_all
  obtain s1 where s1: "kprintf ''You typed: %s\<newline>'' [?src] s = Some s1"
    unfolding f by (rule kprintf_string [OF c l31 p w])
  then have cf: "con_frame s s1" by (rule con_frame_kprintf)
  then have src: "kscan_buf s1 = ?src" by (rule con_frame_fields(6))
  have ag: "agree_on (- video_window) (mem s) (mem s1)" using cf by (simp add: con_frame_def)
  have "region ?src 512 \<subseteq> - video_window" using b unfolding buffer_ok_def KSCAN_BUF_SIZE_def by blast
  then have c1: "cstr (mem s1) ?src ?xs" by (intro cstr_frame_window [OF c l512] agree_on_subset [OF ag])
  obtain m' where m': "snd (strncpy (mem s1) buf ?src (of_nat (length ?xs))) = m'"
    "strlen m' ?src = Some (int (length ?xs))" "cstr (m'(buf + of_nat (length ?xs) := 0)) buf ?xs"
    "agree_on (- region buf (Suc (length ?xs))) (mem s1) (m'(buf + of_nat (length ?xs) := 0))"
    by (rule copy_line_out [OF c1 n d])
  have "agree_on (- (video_window \<union> region buf (Suc (length ?xs)))) (mem s) (m'(buf + of_nat (length ?xs) := 0))"
    by (rule agree_on_trans [OF agree_on_subset [OF ag] agree_on_subset [OF m'(4)]]) blast+
  then show ?thesis
    using that [OF s1 _ _ _ m'(3) _ cf] strlen_cstr [OF c1 l31] m'(1,2) unfolding src by blast
qed

text \<open>
  C7.  \<open>kscan\<close> is a line editor: while it waits, keyboard interrupts bring the scancodes \<open>codes n\<close>,
  \<open>codes (n + 1)\<close>, ...; if the editor, fed with them, accepts a line, then \<open>kscan\<close> takes exactly the interrupts up
  to the accepting key, leaves that line as a NUL-terminated string in the caller's buffer and vector 33
  without a handler, and changes no memory but the line buffer, the screen and the caller's buffer.  If the editor never
  accepts, \<open>kscan\<close> does not return.
\<close>

theorem kscan_reads_line:
  assumes kbd: "kbd_ok (bus s) codes" and ifl: "iflag s" and irq: "\<forall>r \<in> set irqs. int_no r = 33"
    and len: "length irqs \<le> 510" and b: "buffer_ok (kscan_buf s)"
    and old: "cstr (mem s) (kscan_buf s) old" "length old < 512"
    and d: "region buf 512 \<inter> region (kscan_buf s) 512 = {}"
    and q: "q = map codes [kbd_reads (io s) ..< kbd_reads (io s) + length irqs]"
  shows "case edit_line q (empty_line (shift s) (capslock s)) of
      None \<Rightarrow> kscan hlt irqs buf s = None
    | Some (e, rest) \<Rightarrow> (\<exists>s'. kscan hlt irqs buf s = Some (drop (length irqs - length rest) irqs, s') \<and>
        cstr (mem s') buf (line_text e) \<and> interrupt_handlers s' = (interrupt_handlers s)(33 := None) \<and>
        kernel_heap s' = kernel_heap s \<and> kb s' = kb s \<and>
        agree_on (- (region (kscan_buf s) 512 \<union> video_window \<union> region buf (Suc (length (line_text e))))) (mem s) (mem s'))"
proof -
  let ?e0 = "empty_line (shift s) (capslock s)"
  obtain s1 m where s1: "kprintf ''kscan: '' [] (s\<lparr>enter := False\<rparr>) = Some s1"
    "strnone (mem s1) (kscan_buf s1) = Some m" "line_ok (s1\<lparr>kscan_pos := 0, mem := m\<rparr>) ?e0"
    "kscan_frame s (s1\<lparr>kscan_pos := 0, mem := m\<rparr>)" "kbd_reads (io s1) = kbd_reads (io s)"
    by (rule kscan_start [OF b old])
  let ?s2 = "s1\<lparr>kscan_pos := 0, mem := m\<rparr>"
  have p: "kbd_ok (bus ?s2) codes" "iflag ?s2" "buffer_ok (kscan_buf ?s2)" "length (line_text ?e0) + length irqs \<le> 511"
    "q = map codes [kbd_reads (io ?s2) ..< kbd_reads (io ?s2) + length irqs]"
    using s1(4,5) kbd ifl b len q by (simp_all add: kscan_frame_def empty_line_def)
  note wait = wait_enter_edit_line [OF p(1,2) irq s1(3) p(3,4,5), of hlt]
  have ql: "length q = length irqs" using q by simp
  show ?thesis
  proof (cases "edit_line q ?e0")
    case None
    then show ?thesis using wait s1 by (simp add: kscan_def Let_def)
  next
    case (Some res)
    obtain e rest where res: "res = (e, rest)" by (cases res)
    then obtain s3 where s3: "wait_enter hlt irqs ?s2 = Some (drop (length irqs - length rest) irqs, s3)"
      "line_ok s3 e" "kscan_frame ?s2 s3"
      using wait Some ql by auto
    have fr: "kscan_frame s s3" by (rule kscan_frame_trans [OF s1(4) s3(3)])
    let ?s4 = "idt_uninstall_handler 33 s3"
    have l4: "line_ok ?s4 e" "buffer_ok (kscan_buf ?s4)" "kscan_buf ?s4 = kscan_buf s"
      using s3(2) fr b by (simp_all add: idt_uninstall_handler_def line_ok_def kscan_frame_def)
    have n: "length (line_text e) \<le> 510"
      using edit_line_length [OF Some [unfolded res]] ql len by (simp add: empty_line_def)
    have d4: "region buf 512 \<inter> region (kscan_buf ?s4) 512 = {}" using d l4(3) by simp
    obtain s5 m' where s5: "kprintf ''You typed: %s\<newline>'' [kscan_buf ?s4] ?s4 = Some s5"
      "strlen (mem s5) (kscan_buf s5) = Some (int (length (line_text e)))"
      "snd (strncpy (mem s5) buf (kscan_buf s5) (of_nat (length (line_text e)))) = m'"
      "strlen m' (kscan_buf s5) = Some (int (length (line_text e)))"
      "cstr (m'(buf + of_nat (length (line_text e)) := 0)) buf (line_text e)"
      "agree_on (- (video_window \<union> region buf (Suc (length (line_text e))))) (mem ?s4)
        (m'(buf + of_nat (length (line_text e)) := 0))" "con_frame ?s4 s5"
      by (rule kscan_finish [OF l4(2,1) n d4])
    let ?s' = "s5\<lparr>mem := m'(buf + of_nat (length (line_text e)) := 0)\<rparr>"
    have r: "kscan hlt irqs buf s = Some (drop (length irqs - length rest) irqs, ?s')"
      using s1(1,2) s3(1) s5(1-4) by (simp add: kscan_def Let_def)
    have "interrupt_handlers s5 = interrupt_handlers ?s4" "kernel_heap s5 = kernel_heap s3" "kb s5 = kb s3"
      using con_frame_fields(3-5) [OF s5(7)] by (simp_all add: idt_uninstall_handler_def)
    then have k: "interrupt_handlers ?s' = (interrupt_handlers s)(33 := None)" "kernel_heap ?s' = kernel_heap s" "kb ?s' = kb s"
      using fr by (simp_all add: kscan_frame_def idt_uninstall_handler_def)
    have a1: "agree_on (- (region (kscan_buf s) 512 \<union> video_window)) (mem s) (mem ?s4)"
      using fr by (simp add: kscan_frame_def idt_uninstall_handler_def KSCAN_BUF_SIZE_def)
    have "agree_on (- (region (kscan_buf s) 512 \<union> video_window \<union> region buf (Suc (length (line_text e))))) (mem s)
        (m'(buf + of_nat (length (line_text e)) := 0))"
      by (rule agree_on_trans [OF agree_on_subset [OF a1] agree_on_subset [OF s5(6)]]) auto
    then show ?thesis unfolding Some res using r k s5(5) by auto
  qed
qed

text \<open>The keys h, i, backspace, enter make the line \<open>h\<close>.\<close>

theorem kscan_reads_line_witness:
  "\<exists>s'. kscan Some (replicate 4 (irq_frame 33 0)) 0x400000
      (boot_kernel\<lparr>mem := \<lambda>_. 0, bus := \<lambda>h w p. ucast ([0x23, 0x17, 0x0E, 0x1C] ! (kbd_reads h) :: u8)\<rparr>) = Some ([], s') \<and>
    cstr (mem s') 0x400000 [104]"
proof -
  let ?codes = "\<lambda>n. [0x23, 0x17, 0x0E, 0x1C] ! n :: u8"
  let ?s = "boot_kernel\<lparr>mem := \<lambda>_. 0, bus := \<lambda>h w p. ucast (?codes (kbd_reads h))\<rparr>"
  let ?irqs = "replicate 4 (irq_frame 33 0)" and ?q = "[0x23, 0x17, 0x0E, 0x1C] :: u8 list"
  have out: "x \<notin> video_window" if "x \<in> region 0x300000 512" for x
    using that by (auto simp: region_def video_window_def VIDEO_ADDRESS_def unat_sub_if_size word_size split: if_splits)
  have apart: "x \<notin> region 0x300000 512" if "x \<in> region 0x400000 512" for x
    using that by (auto simp: region_def unat_sub_if_size word_size split: if_splits)
  have s: "kbd_ok (bus ?s) ?codes" "iflag ?s" "kscan_buf ?s = 0x300000" "kbd_reads (io ?s) = 0"
    "shift ?s = False" "capslock ?s = False" "mem ?s = (\<lambda>_. 0)"
    by (simp_all add: kbd_ok_def boot_kernel_def)
  have b: "buffer_ok (kscan_buf ?s)" using out unfolding s buffer_ok_def KSCAN_BUF_SIZE_def by auto
  have i: "\<forall>r \<in> set ?irqs. int_no r = 33" "length ?irqs \<le> 510" by (simp_all add: irq_frame_def)
  have old: "cstr (mem ?s) (kscan_buf ?s) []" "length ([] :: u8 list) < 512" by (simp_all add: s)
  have d: "region 0x400000 512 \<inter> region (kscan_buf ?s) 512 = {}" using apart unfolding s by blast
  have q: "?q = map ?codes [kbd_reads (io ?s) ..< kbd_reads (io ?s) + length ?irqs]" unfolding s by (simp add: upt_rec)
  have e: "edit_line ?q (empty_line False False) =
      Some (\<lparr>line_text = [104], line_pos = 0, ed_shift = False, ed_caps = False, accepted = True\<rparr>, [])"
    by code_simp
  show ?thesis using kscan_reads_line [OF s(1,2) i b old d q, of Some] unfolding s(5,6) e by auto
qed

end
