(* ===== verification/Pic.thy ===== *)
theory Pic
  imports Debug
begin

text \<open>
  What the interrupt controller code of \<open>cpu/pic.c\<close> does to an 8259A.  The controller is not part
  of the repository: \<open>pic_state\<close> is its documented reaction to the port writes of a history, and
  \<open>pic_ok\<close>, the hypothesis of the theorems, says that the data port reads back the mask.
\<close>

section \<open>The device\<close>

text \<open>
  The number of initialisation words still expected and the interrupt mask, if known.  A command
  with bit 4 set (ICW1) starts the initialisation with three more words on the data port and
  clears the mask; outside the initialisation a byte on the data port is the mask.
\<close>

fun pic_state :: "u16 \<Rightarrow> u16 \<Rightarrow> io_history \<Rightarrow> nat \<times> u8 option" where
  "pic_state cmd dat [] = (0, None)"
| "pic_state cmd dat (PortIn w p v # h) = pic_state cmd dat h"
| "pic_state cmd dat (PortOut IO8 p v # h) =
    (let (n, mask) = pic_state cmd dat h in
     if p = cmd then (if bit v 4 then (3, Some 0) else (n, mask))
     else if p = dat then (if n > 0 then (n - 1, mask) else (0, Some (ucast v)))
     else (n, mask))"
| "pic_state cmd dat (PortOut IO16 p v # h) = (0, None)"
| "pic_state cmd dat (PortOut IO32 p v # h) = (0, None)"

abbreviation "pic1 \<equiv> pic_state PIC1_COMMAND PIC1_DATA"
abbreviation "pic2 \<equiv> pic_state PIC2_COMMAND PIC2_DATA"

definition pic_ok :: "(io_history \<Rightarrow> io_width \<Rightarrow> u16 \<Rightarrow> u32) \<Rightarrow> bool" where
  "pic_ok b \<longleftrightarrow> (\<forall>h v. (pic1 h = (0, Some v) \<longrightarrow> ucast (b h IO8 PIC1_DATA) = v) \<and>
     (pic2 h = (0, Some v) \<longrightarrow> ucast (b h IO8 PIC2_DATA) = v))"

text \<open>A bus with two such controllers and nothing else.\<close>

definition pic_bus :: "io_history \<Rightarrow> io_width \<Rightarrow> u16 \<Rightarrow> u32" where
  "pic_bus h w p =
    (if p = PIC1_DATA then (case pic1 h of (_, Some v) \<Rightarrow> ucast v | _ \<Rightarrow> 0)
     else if p = PIC2_DATA then (case pic2 h of (_, Some v) \<Rightarrow> ucast v | _ \<Rightarrow> 0)
     else 0)"

lemma pic_bus_ok: "pic_ok pic_bus"
  by (auto simp: pic_ok_def pic_bus_def pic_defs)

section \<open>Masking a line\<close>

lemma pic1_read: "pic_ok (bus s) \<Longrightarrow> pic1 (io s) = (0, Some m) \<Longrightarrow>
    inb PIC1_DATA s = (m, s\<lparr>io := PortIn IO8 PIC1_DATA (ucast m) # io s\<rparr>)"
  by (auto simp: inb_def Let_def pic_ok_def)

lemma pic2_read: "pic_ok (bus s) \<Longrightarrow> pic2 (io s) = (0, Some m) \<Longrightarrow>
    inb PIC2_DATA s = (m, s\<lparr>io := PortIn IO8 PIC2_DATA (ucast m) # io s\<rparr>)"
  by (auto simp: inb_def Let_def pic_ok_def)

lemma pic_line: "unat ((irq :: u8) AND 7) = unat irq mod 8"
proof -
  have "irq AND 7 = take_bit 3 irq" by (simp add: take_bit_eq_mask mask_eq_exp_minus_1)
  then show ?thesis by (simp add: unsigned_take_bit_eq take_bit_nat_def)
qed

lemma pic_data_write:
  "pic1 h = (0, m) \<Longrightarrow> pic1 (PortOut IO8 PIC1_DATA v # h) = (0, Some (ucast v))"
  "pic2 (PortOut IO8 PIC1_DATA v # h) = pic2 h"
  "pic2 h = (0, m) \<Longrightarrow> pic2 (PortOut IO8 PIC2_DATA v # h) = (0, Some (ucast v))"
  "pic1 (PortOut IO8 PIC2_DATA v # h) = pic1 h"
  by (simp_all add: pic_defs split: prod.splits)

text \<open>Reading a mask register and writing it back changed.\<close>

definition rmw :: "u16 \<Rightarrow> (u8 \<Rightarrow> u8) \<Rightarrow> 'a machine_scheme \<Rightarrow> 'a machine_scheme" where
  "rmw port f s = (let (v, s) = inb port s in outb port (f v) s)"

lemma pic_set_mask_rmw: "pic_set_mask irq s =
    rmw (if irq < 8 then PIC1_DATA else PIC2_DATA) (\<lambda>v. v OR 2 ^ (unat irq mod 8)) s"
  by (simp add: pic_set_mask_def rmw_def Let_def pic_line push_bit_eq_mult)

lemma pic_clear_mask_rmw: "pic_clear_mask irq s =
    rmw (if irq < 8 then PIC1_DATA else PIC2_DATA) (\<lambda>v. v AND NOT (2 ^ (unat irq mod 8))) s"
  by (simp add: pic_clear_mask_def rmw_def Let_def pic_line push_bit_eq_mult)

lemma rmw_only_io: "rmw p f s = s\<lparr>io := io (rmw p f s)\<rparr>" "bus (rmw p f s) = bus s"
  by (simp_all add: rmw_def inb_def outb_def Let_def)

lemma rmw_pic1:
  assumes "pic_ok (bus s)" and "pic1 (io s) = (0, Some m1)"
  shows "pic1 (io (rmw PIC1_DATA f s)) = (0, Some (f m1))" "pic2 (io (rmw PIC1_DATA f s)) = pic2 (io s)"
  unfolding rmw_def pic1_read [OF assms] prod.case outb_def
  using assms(2) by (simp_all add: pic_data_write del: pic_state.simps(3))

lemma rmw_pic2:
  assumes "pic_ok (bus s)" and "pic2 (io s) = (0, Some m2)"
  shows "pic2 (io (rmw PIC2_DATA f s)) = (0, Some (f m2))" "pic1 (io (rmw PIC2_DATA f s)) = pic1 (io s)"
  unfolding rmw_def pic2_read [OF assms] prod.case outb_def
  using assms(2) by (simp_all add: pic_data_write del: pic_state.simps(3))

text \<open>
  C30.  \<open>pic_set_mask\<close> and \<open>pic_clear_mask\<close> set and clear the mask bit of the given line on the
  controller that serves it, leave all other bits and the other controller's mask alone, and
  touch nothing but the ports.
\<close>

theorem pic_mask_bits:
  assumes "pic_ok (bus s)" and "pic1 (io s) = (0, Some m1)" and "pic2 (io s) = (0, Some m2)"
  shows "pic1 (io (pic_set_mask irq s)) = (0, Some (if irq < 8 then m1 OR 2 ^ (unat irq mod 8) else m1)) \<and>
    pic2 (io (pic_set_mask irq s)) = (0, Some (if irq < 8 then m2 else m2 OR 2 ^ (unat irq mod 8))) \<and>
    pic1 (io (pic_clear_mask irq s)) = (0, Some (if irq < 8 then m1 AND NOT (2 ^ (unat irq mod 8)) else m1)) \<and>
    pic2 (io (pic_clear_mask irq s)) = (0, Some (if irq < 8 then m2 else m2 AND NOT (2 ^ (unat irq mod 8)))) \<and>
    pic_set_mask irq s = s\<lparr>io := io (pic_set_mask irq s)\<rparr> \<and>
    pic_clear_mask irq s = s\<lparr>io := io (pic_clear_mask irq s)\<rparr>"
  unfolding pic_set_mask_rmw pic_clear_mask_rmw
  using assms rmw_pic1 [OF assms(1,2)] rmw_pic2 [OF assms(1,3)]
  by (cases "irq < 8") (auto intro: rmw_only_io(1))

theorem pic_mask_bits_witness:
  "pic1 (io (pic_set_mask 1 (boot_machine\<lparr>io := [PortOut IO8 PIC2_DATA 0xF0, PortOut IO8 PIC1_DATA 0xF0],
     bus := pic_bus\<rparr>))) = (0, Some 0xF2)"
  using pic_mask_bits [of "boot_machine\<lparr>io := [PortOut IO8 PIC2_DATA 0xF0, PortOut IO8 PIC1_DATA 0xF0],
     bus := pic_bus\<rparr>" "0xF0" "0xF0" 1] pic_bus_ok by (simp add: pic_defs)

section \<open>Remapping\<close>

text \<open>The vector of line 0, the word that follows ICW1 in the initialisation (ICW2).\<close>

fun pic_vector :: "u16 \<Rightarrow> u16 \<Rightarrow> io_history \<Rightarrow> u8 option" where
  "pic_vector cmd dat [] = None"
| "pic_vector cmd dat (PortIn w p v # h) = pic_vector cmd dat h"
| "pic_vector cmd dat (PortOut IO8 p v # h) =
    (if p = dat \<and> fst (pic_state cmd dat h) = 3 then Some (ucast v) else pic_vector cmd dat h)"
| "pic_vector cmd dat (PortOut IO16 p v # h) = None"
| "pic_vector cmd dat (PortOut IO32 p v # h) = None"

text \<open>One write at a time, so that a sequence of writes evaluates from the oldest on.\<close>

definition pic_port :: "u16 \<Rightarrow> u16 \<Rightarrow> u16 \<Rightarrow> u32 \<Rightarrow> nat \<times> u8 option \<Rightarrow> nat \<times> u8 option" where
  "pic_port cmd dat p v st = (let (n, mask) = st in
     if p = cmd then (if bit v 4 then (3, Some 0) else (n, mask))
     else if p = dat then (if n > 0 then (n - 1, mask) else (0, Some (ucast v)))
     else (n, mask))"

lemma pic_state_step: "pic_state cmd dat (PortOut IO8 p v # h) = pic_port cmd dat p v (pic_state cmd dat h)"
  by (simp add: pic_port_def)

lemma pic_port_pair: "pic_port cmd dat p v (n, m) =
    (if p = cmd then (if bit v 4 then (3, Some 0) else (n, m))
     else if p = dat then (if n > 0 then (n - 1, m) else (0, Some (ucast v)))
     else (n, m))"
  by (simp add: pic_port_def)

lemma pic_ports_distinct:
  "PIC1_COMMAND \<noteq> PIC1_DATA" "PIC1_COMMAND \<noteq> PIC2_COMMAND" "PIC1_COMMAND \<noteq> PIC2_DATA"
  "PIC1_DATA \<noteq> PIC2_COMMAND" "PIC1_DATA \<noteq> PIC2_DATA" "PIC2_COMMAND \<noteq> PIC2_DATA"
  by (simp_all add: pic_defs)

lemma outb_io: "outb p v (s\<lparr>io := h\<rparr>) = s\<lparr>io := PortOut IO8 p (ucast v) # h\<rparr>"
  by (simp add: outb_def)

lemma icw1_bit: "bit (ucast (ICW1_INIT OR ICW1_ICW4) :: u32) 4"
  by (simp add: pic_defs)

lemma pic_numbers: "(3 :: nat) - 1 = 2" "(2 :: nat) - 1 = 1" "(1 :: nat) - 1 = 0" "(0 :: nat) < 3" "(0 :: nat) < 2"
  "(0 :: nat) < 1" "(2 :: nat) \<noteq> 3" "(1 :: nat) \<noteq> 3" "(0 :: nat) \<noteq> 3"
  by simp_all

lemmas pic_run = pic_state.simps(1,2) pic_vector.simps(1-3) pic_state_step pic_port_pair pic_ports_distinct
  pic_ports_distinct [THEN not_sym] icw1_bit pic_numbers fst_conv if_True if_False simp_thms

lemma pic_remap_ok:
  assumes "pic_ok (bus s)" and "pic1 (io s) = (0, Some m1)" and "pic2 (io s) = (0, Some m2)"
  shows "pic_vector PIC1_COMMAND PIC1_DATA (io (pic_remap offset1 offset2 s)) = Some offset1 \<and>
    pic_vector PIC2_COMMAND PIC2_DATA (io (pic_remap offset1 offset2 s)) = Some offset2 \<and>
    pic1 (io (pic_remap offset1 offset2 s)) = (0, Some m1) \<and> pic2 (io (pic_remap offset1 offset2 s)) = (0, Some m2) \<and>
    pic_remap offset1 offset2 s = s\<lparr>io := io (pic_remap offset1 offset2 s)\<rparr>"
proof -
  let ?s1 = "s\<lparr>io := PortIn IO8 PIC1_DATA (ucast m1) # io s\<rparr>"
  have r1: "inb PIC1_DATA s = (m1, ?s1)" by (rule pic1_read [OF assms(1,2)])
  have r2: "inb PIC2_DATA ?s1 = (m2, s\<lparr>io := PortIn IO8 PIC2_DATA (ucast m2) # PortIn IO8 PIC1_DATA (ucast m1) # io s\<rparr>)"
    using pic2_read [of ?s1 m2] assms by simp
  show ?thesis
    unfolding pic_remap_def Let_def r1 prod.case r2 outb_io
    using assms(2,3) by (simp add: pic_run del: pic_state.simps(3))
qed

text \<open>
  C31.  \<open>pic_remap\<close> takes both controllers through a complete initialisation: afterwards they deliver their
  lines from the vectors \<open>offset1\<close> and \<open>offset2\<close> on, expect no further word, and have the interrupt
  masks they had before; nothing but the ports is touched.
\<close>

theorem pic_remap_vectors:
  assumes "pic_ok (bus s)" and "pic1 (io s) = (0, Some m1)" and "pic2 (io s) = (0, Some m2)"
  shows "pic_vector PIC1_COMMAND PIC1_DATA (io (pic_remap offset1 offset2 s)) = Some offset1 \<and>
    pic_vector PIC2_COMMAND PIC2_DATA (io (pic_remap offset1 offset2 s)) = Some offset2 \<and>
    pic1 (io (pic_remap offset1 offset2 s)) = (0, Some m1) \<and> pic2 (io (pic_remap offset1 offset2 s)) = (0, Some m2) \<and>
    pic_remap offset1 offset2 s = s\<lparr>io := io (pic_remap offset1 offset2 s)\<rparr>"
  using assms by (rule pic_remap_ok)

theorem pic_remap_vectors_witness:
  "pic_vector PIC2_COMMAND PIC2_DATA (io (pic_remap 0x20 0x28
     (boot_machine\<lparr>io := [PortOut IO8 PIC2_DATA 0xF0, PortOut IO8 PIC1_DATA 0xF0], bus := pic_bus\<rparr>))) = Some 0x28"
  using pic_remap_vectors [of "boot_machine\<lparr>io := [PortOut IO8 PIC2_DATA 0xF0, PortOut IO8 PIC1_DATA 0xF0],
     bus := pic_bus\<rparr>" "0xF0" "0xF0" "0x20" "0x28"] pic_bus_ok
  by (simp add: pic_defs)

end
