(* ===== verification/BootLaws.thy ===== *)
theory BootLaws
  imports KscanLaws Pic
begin

text \<open>
  What \<open>kernel_main\<close> establishes: the scan of the boot information, and the state of memory, tables,
  devices and heap in which the shell starts.
\<close>

section \<open>The boot information\<close>

text \<open>The tags from \<open>tag\<close> on end with the \<open>n\<close>-th after it, and none lies in the reach of the console.\<close>

fun tag_chain :: "memory \<Rightarrow> u64 \<Rightarrow> nat \<Rightarrow> bool" where
  "tag_chain m tag 0 \<longleftrightarrow> region tag 8 \<inter> video_window = {} \<and> tag_type m tag = 0"
| "tag_chain m tag (Suc n) \<longleftrightarrow>
     region tag 8 \<inter> video_window = {} \<and> tag_type m tag \<noteq> 0 \<and> tag_chain m (next_tag m tag) n"

fun framebuffer_tags :: "memory \<Rightarrow> u64 \<Rightarrow> nat \<Rightarrow> nat" where
  "framebuffer_tags m tag 0 = 0"
| "framebuffer_tags m tag (Suc n) =
     (if tag_type m tag = 8 then 1 else 0) + framebuffer_tags m (next_tag m tag) n"

lemma tag_agree:
  assumes "agree_on (- video_window) m m'" and "region tag 8 \<inter> video_window = {}"
  shows "tag_type m' tag = tag_type m tag" "next_tag m' tag = next_tag m tag"
proof -
  have "region tag 4 \<subseteq> region tag 8" "region (tag + 4) 4 \<subseteq> region tag 8"
    by (simp add: region_subset, rule region_offset_subset) simp_all
  then have "region tag 4 \<subseteq> - video_window" "region (tag + 4) 4 \<subseteq> - video_window" using assms(2) by blast+
  then have "agree_on (region tag 4) m m'" "agree_on (region (tag + 4) 4) m m'"
    using assms(1) by (auto intro: agree_on_subset)
  then show "tag_type m' tag = tag_type m tag" "next_tag m' tag = next_tag m tag"
    unfolding tag_type_def next_tag_def tag_size_def by (simp_all add: rd32_cong)
qed

lemma tag_chain_agree:
  assumes "agree_on (- video_window) m m'" and "tag_chain m tag n"
  shows "tag_chain m' tag n" "framebuffer_tags m' tag n = framebuffer_tags m tag n"
  using assms(2) tag_agree [OF assms(1)] by (induction n arbitrary: tag) auto

abbreviation found :: "u8 list" where
  "found \<equiv> lit ''Framebuffer found\<newline>''"

lemma parse_tags_chain:
  assumes "tag_chain (mem s) tag n"
  shows "parse_tags tag s = Some ((kputs found ^^ framebuffer_tags (mem s) tag n) s)"
  using assms
proof (induction n arbitrary: tag s)
  case 0
  then show ?case by (subst parse_tags.simps) simp
next
  case (Suc n)
  let ?s = "if tag_type (mem s) tag = 8 then kputs found s else s"
  have pr: "kprintf ''Framebuffer found\<newline>'' [] s = Some (kputs found s)"
    unfolding kprintf_def by (rule kvprintf_plain) simp
  have "con_frame s ?s" by simp
  then have ag: "agree_on (- video_window) (mem s) (mem ?s)" by (simp add: con_frame_def)
  have r: "region tag 8 \<inter> video_window = {}" and t: "tag_type (mem s) tag \<noteq> 0" using Suc.prems by simp_all
  have "parse_tags tag s = parse_tags (next_tag (mem ?s) tag) ?s"
    by (subst parse_tags.simps) (simp add: t pr del: lit_Cons)
  also have "\<dots> = parse_tags (next_tag (mem s) tag) ?s" using tag_agree [OF ag r] by simp
  also have "\<dots> = Some ((kputs found ^^ framebuffer_tags (mem s) (next_tag (mem s) tag) n) ?s)"
  proof -
    have c: "tag_chain (mem s) (next_tag (mem s) tag) n" using Suc.prems by simp
    show ?thesis using Suc.IH [OF tag_chain_agree(1) [OF ag c]] tag_chain_agree(2) [OF ag c] by simp
  qed
  finally show ?case by (simp add: funpow_swap1 del: lit_Cons)
qed

text \<open>A tag that leads to itself.\<close>

lemma parse_tags_stuck:
  assumes "parse_tags tag s = Some s'"
  shows "\<not> (region tag 8 \<inter> video_window = {} \<and> tag_type (mem s) tag \<noteq> 0 \<and> next_tag (mem s) tag = tag)"
proof (rule parse_tags.raw_induct [OF _ assms])
  fix f :: "u64 \<Rightarrow> 'a machine_scheme \<Rightarrow> 'a machine_scheme option" and tag s s'
  assume ih: "\<And>tag s s'. f tag s = Some s' \<Longrightarrow>
      \<not> (region tag 8 \<inter> video_window = {} \<and> tag_type (mem s) tag \<noteq> 0 \<and> next_tag (mem s) tag = tag)"
    and body: "(if tag_type (mem s) tag = 0 then Some s
      else do { s \<leftarrow> (if tag_type (mem s) tag = 8 then kprintf ''Framebuffer found\<newline>'' [] s else Some s);
                f (next_tag (mem s) tag) s }) = Some s'"
  show "\<not> (region tag 8 \<inter> video_window = {} \<and> tag_type (mem s) tag \<noteq> 0 \<and> next_tag (mem s) tag = tag)"
  proof
    assume p: "region tag 8 \<inter> video_window = {} \<and> tag_type (mem s) tag \<noteq> 0 \<and> next_tag (mem s) tag = tag"
    have pr: "kprintf ''Framebuffer found\<newline>'' [] s = Some (kputs found s)"
      unfolding kprintf_def by (rule kvprintf_plain) simp
    let ?s = "if tag_type (mem s) tag = 8 then kputs found s else s"
    have "con_frame s ?s" by simp
    then have ag: "agree_on (- video_window) (mem s) (mem ?s)" by (simp add: con_frame_def)
    note same = tag_agree [OF ag conjunct1 [OF p]]
    have "f (next_tag (mem ?s) tag) ?s = Some s'"
      using body p pr by (simp del: lit_Cons split: if_splits)
    then have "f tag ?s = Some s'" using same(2) p by simp
    then show False using ih p same by metis
  qed
qed

text \<open>
  C22.  On boot information that is terminated by a tag of type 0, \<open>parse_multiboot2\<close> returns and prints its
  message once for every framebuffer tag; if its first tag has another type and the size 0, it does not return.
\<close>

theorem parse_multiboot2_prints:
  "(\<forall>n. tag_chain (mem s) (mboot_info + 8) n \<longrightarrow> parse_multiboot2 mboot_info s =
      Some ((kputs found ^^ framebuffer_tags (mem s) (mboot_info + 8) n) s)) \<and>
   (region (mboot_info + 8) 8 \<inter> video_window = {} \<and> tag_type (mem s) (mboot_info + 8) \<noteq> 0 \<and>
      tag_size (mem s) (mboot_info + 8) = 0 \<longrightarrow> parse_multiboot2 mboot_info s = None)"
proof -
  have "next_tag (mem s) tag = tag" if "tag_size (mem s) tag = 0" for tag
    using that by (simp add: next_tag_def)
  then show ?thesis unfolding parse_multiboot2_def
    using parse_tags_chain parse_tags_stuck by (metis not_None_eq)
qed

section \<open>The interrupt controllers\<close>

text \<open>An event that neither controller at the given ports sees.\<close>

fun other_event :: "u16 \<Rightarrow> u16 \<Rightarrow> io_event \<Rightarrow> bool" where
  "other_event cmd dat (PortIn w p v) \<longleftrightarrow> True"
| "other_event cmd dat (PortOut w p v) \<longleftrightarrow> w = IO8 \<and> p \<noteq> cmd \<and> p \<noteq> dat"

lemma pic_other_events:
  "\<forall>e \<in> set k. other_event cmd dat e \<Longrightarrow>
    pic_state cmd dat (k @ h) = pic_state cmd dat h \<and> pic_vector cmd dat (k @ h) = pic_vector cmd dat h"
proof (induction k)
  case (Cons e k)
  then show ?case by (cases e) auto
qed simp

text \<open>Both controllers initialised, with their vectors and masks.\<close>

definition pics_at :: "u8 \<Rightarrow> u8 \<Rightarrow> u8 \<Rightarrow> u8 \<Rightarrow> 'a machine_scheme \<Rightarrow> bool" where
  "pics_at v1 m1 v2 m2 s \<longleftrightarrow> pic_ok (bus s) \<and>
     pic1 (io s) = (0, Some m1) \<and> pic_vector PIC1_COMMAND PIC1_DATA (io s) = Some v1 \<and>
     pic2 (io s) = (0, Some m2) \<and> pic_vector PIC2_COMMAND PIC2_DATA (io s) = Some v2"

lemma pics_at_ports:
  assumes "pics_at v1 m1 v2 m2 s" and "ports_by P (io s) (io s')" and "bus s' = bus s"
    and "\<And>e. P e \<Longrightarrow> other_event PIC1_COMMAND PIC1_DATA e" and "\<And>e. P e \<Longrightarrow> other_event PIC2_COMMAND PIC2_DATA e"
  shows "pics_at v1 m1 v2 m2 s'"
proof -
  obtain k where k: "io s' = k @ io s" "\<forall>e \<in> set k. P e" using assms(2) by (auto simp: ports_by_def)
  then show ?thesis using assms pic_other_events [of k _ _ "io s"] by (simp add: pics_at_def)
qed

lemma crtc_other: "crtc_event e \<Longrightarrow> other_event PIC1_COMMAND PIC1_DATA e"
  "crtc_event e \<Longrightarrow> other_event PIC2_COMMAND PIC2_DATA e"
  by (cases e; auto simp: pic_defs REG_SCREEN_CTRL_def REG_SCREEN_DATA_def)+

lemma pics_at_rmw:
  assumes "pics_at v1 m1 v2 m2 s"
  shows "pics_at v1 (f m1) v2 m2 (rmw PIC1_DATA f s)" "pics_at v1 m1 v2 (f m2) (rmw PIC2_DATA f s)"
proof -
  have p: "pic_ok (bus s)" "pic1 (io s) = (0, Some m1)" "pic2 (io s) = (0, Some m2)"
    using assms by (simp_all add: pics_at_def)
  have "pic_vector PIC1_COMMAND PIC1_DATA (io (rmw PIC1_DATA f s)) = pic_vector PIC1_COMMAND PIC1_DATA (io s)"
    "pic_vector PIC2_COMMAND PIC2_DATA (io (rmw PIC1_DATA f s)) = pic_vector PIC2_COMMAND PIC2_DATA (io s)"
    unfolding rmw_def pic1_read [OF p(1,2)] prod.case outb_def using p(2) by (simp_all add: pic_ports_distinct)
  then show "pics_at v1 (f m1) v2 m2 (rmw PIC1_DATA f s)"
    using assms rmw_pic1 [OF p(1,2)] rmw_only_io(2) [of PIC1_DATA f s] by (simp add: pics_at_def)
  have "pic_vector PIC1_COMMAND PIC1_DATA (io (rmw PIC2_DATA f s)) = pic_vector PIC1_COMMAND PIC1_DATA (io s)"
    "pic_vector PIC2_COMMAND PIC2_DATA (io (rmw PIC2_DATA f s)) = pic_vector PIC2_COMMAND PIC2_DATA (io s)"
    unfolding rmw_def pic2_read [OF p(1,3)] prod.case outb_def using p(3)
    by (simp_all add: pic_ports_distinct pic_ports_distinct [THEN not_sym])
  then show "pics_at v1 m1 v2 (f m2) (rmw PIC2_DATA f s)"
    using assms rmw_pic2 [OF p(1,3)] rmw_only_io(2) [of PIC2_DATA f s] by (simp add: pics_at_def)
qed

lemma pics_at_set_mask:
  assumes "pics_at v1 m1 v2 m2 s"
  shows "irq < 8 \<Longrightarrow> pics_at v1 (m1 OR 2 ^ (unat irq mod 8)) v2 m2 (pic_set_mask irq s)"
    "\<not> irq < 8 \<Longrightarrow> pics_at v1 m1 v2 (m2 OR 2 ^ (unat irq mod 8)) (pic_set_mask irq s)"
  using pics_at_rmw [OF assms] by (simp_all add: pic_set_mask_rmw)

text \<open>The mask with the lines of a list added to it.\<close>

definition add_lines :: "u8 list \<Rightarrow> u8 \<Rightarrow> u8" where
  "add_lines = fold (\<lambda>irq m. m OR 2 ^ (unat irq mod 8))"

lemma set_masks_pics:
  "pics_at v1 m1 v2 m2 s \<Longrightarrow> \<forall>i \<in> set l. i < 8 \<Longrightarrow> pics_at v1 (add_lines l m1) v2 m2 (fold pic_set_mask l s)"
  "pics_at v1 m1 v2 m2 s \<Longrightarrow> \<forall>i \<in> set l. \<not> i < 8 \<Longrightarrow> pics_at v1 m1 v2 (add_lines l m2) (fold pic_set_mask l s)"
  by (induction l arbitrary: s m1 m2) (auto simp: add_lines_def pics_at_set_mask)

lemma fold_skip: "fold (\<lambda>x s. if P x then f x s else s) xs s = fold f (filter P xs) s"
  by (induction xs arbitrary: s) simp_all

lemma mask_irqs_lists:
  "mask_irqs s = fold pic_set_mask [8, 9, 10, 11, 12, 13, 14, 15] (fold pic_set_mask [0, 2, 3, 4, 5, 6, 7] s)"
  by (simp add: mask_irqs_def fold_skip upt_rec del: fold_simps)

lemma mask_irqs_pics:
  assumes "pics_at v1 m1 v2 m2 s"
  shows "pics_at v1 (m1 OR 0xFD) v2 0xFF (mask_irqs s)"
proof -
  have "pics_at v1 (add_lines [0, 2, 3, 4, 5, 6, 7] m1) v2 (add_lines [8, 9, 10, 11, 12, 13, 14, 15] m2) (mask_irqs s)"
    unfolding mask_irqs_lists by (intro set_masks_pics assms) simp_all
  moreover have "add_lines [0, 2, 3, 4, 5, 6, 7] m1 = m1 OR 0xFD"
    by (simp add: add_lines_def or.assoc)
  moreover have "add_lines [8, 9, 10, 11, 12, 13, 14, 15] m2 = 0xFF"
  proof -
    have "add_lines [8, 9, 10, 11, 12, 13, 14, 15] m2 = m2 OR 0xFF" by (simp add: add_lines_def or.assoc)
    also have "(0xFF :: u8) = - 1" by simp
    finally show ?thesis by simp
  qed
  ultimately show ?thesis by simp
qed

definition io_only :: "'a machine_scheme \<Rightarrow> 'a machine_scheme \<Rightarrow> bool" where
  "io_only s s' \<longleftrightarrow> (\<exists>h. s' = s\<lparr>io := h\<rparr>)"

lemma io_only_trans: "io_only s t \<Longrightarrow> io_only t u \<Longrightarrow> io_only s u"
  by (auto simp: io_only_def)

lemma io_only_fold: "(\<And>x s. io_only s (f x s)) \<Longrightarrow> io_only s (fold f xs s)"
proof (induction xs arbitrary: s)
  case Nil
  show ?case unfolding io_only_def by (rule exI [of _ "io s"]) simp
qed (auto intro: io_only_trans)

lemma mask_irqs_io_only: "io_only s (mask_irqs s)"
proof -
  have "io_only s (pic_set_mask irq s)" for irq and s :: "'a machine_scheme"
    unfolding pic_set_mask_rmw io_only_def using rmw_only_io(1) by blast
  then show ?thesis unfolding mask_irqs_lists by (intro io_only_trans [OF io_only_fold io_only_fold])
qed

section \<open>The timer\<close>

definition apic_base :: "'a machine_scheme \<Rightarrow> u64" where
  "apic_base s = msrs s 0x1B AND 0xFFFFF000"

text \<open>The APIC is enabled and its timer runs periodically with the timer vector.\<close>

definition timer_on :: "memory \<Rightarrow> u64 \<Rightarrow> bool" where
  "timer_on m a \<longleftrightarrow> bit (rd32 m (a + 0x0F0)) 8 \<and> rd32 m (a + 0x3E0) = 3 \<and>
     rd32 m (a + 0x320) = 0x200EF \<and> rd32 m (a + 0x380) = 0x100000"

lemmas apic_consts = APIC_OFFSET_EOI_def APIC_OFFSET_SVR_def APIC_OFFSET_LVT_TIMER_def APIC_OFFSET_TIMER_ICR_def
  APIC_OFFSET_TIMER_DIV_def APIC_TIMER_VECTOR_def

lemma apic_registers_apart:
  fixes a :: u64
  shows "region (a + 0x0F0) 4 \<inter> region (a + 0x3E0) 4 = {}" "region (a + 0x0F0) 4 \<inter> region (a + 0x320) 4 = {}"
    "region (a + 0x0F0) 4 \<inter> region (a + 0x380) 4 = {}" "region (a + 0x320) 4 \<inter> region (a + 0x380) 4 = {}"
    "region (a + 0x320) 4 \<inter> region (a + 0x3E0) 4 = {}" "region (a + 0x380) 4 \<inter> region (a + 0x3E0) 4 = {}"
  by (rule region_offsets_disjoint; simp)+

lemma timer_on_agree: "agree_on (region a 0x400) m m' \<Longrightarrow> timer_on m' a \<longleftrightarrow> timer_on m a"
proof -
  assume a: "agree_on (region a 0x400) m m'"
  have "rd32 m' (a + k) = rd32 m (a + k)" if "unat k + 4 \<le> 0x400" for k
    by (rule rd32_cong [OF agree_on_subset [OF a region_offset_subset]]) (use that in simp_all)
  then show ?thesis by (simp add: timer_on_def)
qed

lemma apic_write_at: "apic_write off v (s\<lparr>apic := a, mem := m\<rparr>) = s\<lparr>apic := a, mem := wr32 m (a + off) v\<rparr>"
  by (simp add: apic_write_def)

lemma apic_map_at: "apic_map s = s\<lparr>apic := apic_base s, mem := mem s\<rparr>"
  by (simp add: apic_map_def apic_base_def cpu_read_msr_value)

lemma apic_state: "mem (s\<lparr>apic := a, mem := m\<rparr>) = m" "apic (s\<lparr>apic := a, mem := m\<rparr>) = a"
  "idt_register_handler v h (s\<lparr>apic := a, mem := m\<rparr>) =
    s\<lparr>apic := a, mem := m, interrupt_handlers := (interrupt_handlers s)(v \<mapsto> h)\<rparr>"
  by (simp_all add: idt_register_handler_def)

lemma apic_init_ok:
  obtains m where "apic_init s = s\<lparr>apic := apic_base s, mem := m,
      interrupt_handlers := (interrupt_handlers s)(0xEF \<mapsto> Apic_handler)\<rparr>"
    and "timer_on m (apic_base s)" and "agree_on (- region (apic_base s) 0x400) (mem s) m"
proof -
  let ?a = "apic_base s"
  let ?m1 = "wr32 (mem s) (?a + 0x0F0) (rd32 (mem s) (?a + 0x0F0) OR 0x100)"
  let ?m = "wr32 (wr32 (wr32 ?m1 (?a + 0x3E0) 3) (?a + 0x320) 0x200EF) (?a + 0x380) 0x100000"
  note apart = apic_registers_apart [of ?a] apic_registers_apart [of ?a, THEN trans [OF Int_commute]]
  have e: "apic_init s = s\<lparr>apic := ?a, mem := ?m, interrupt_handlers := (interrupt_handlers s)(0xEF \<mapsto> Apic_handler)\<rparr>"
    unfolding apic_init_def apic_map_at Let_def apic_state apic_write_at apic_consts by simp
  have b: "bit (0x100 :: u32) 8" by simp
  have "rd32 ?m (?a + 0x0F0) = rd32 (mem s) (?a + 0x0F0) OR 0x100" "rd32 ?m (?a + 0x3E0) = 3"
    "rd32 ?m (?a + 0x320) = 0x200EF" "rd32 ?m (?a + 0x380) = 0x100000"
    using apart by (simp_all add: w32.load_store_apart rd32_wr32)
  then have t: "timer_on ?m ?a" using b by (simp add: timer_on_def bit_or_iff)
  have w: "agree_on (- region ?a 0x400) m' m \<Longrightarrow> agree_on (- region ?a 0x400) m' (wr32 m (?a + k) v)"
    if "unat k + 4 \<le> 0x400" for m m' k v
    by (rule agree_on_trans [OF _ w32.store_within [OF region_offset_subset [where l = "0x400"]]]) (use that in simp_all)
  have "agree_on (- region ?a 0x400) (mem s) ?m"
    by (rule w, simp)+ (rule agree_on_refl)
  then show ?thesis using that e t by blast
qed

section \<open>The last steps\<close>

text \<open>What happens after the tables and devices are set up: output, and the header of the first heap block.\<close>

definition console_event :: "io_event \<Rightarrow> bool" where
  "console_event e \<longleftrightarrow> crtc_event e \<or> (\<exists>v. e = PortOut IO8 0xE9 v)"

abbreviation first_header :: "u64 set" where
  "first_header \<equiv> region (of_nat heap_start) 32"

definition setup_frame :: "'a kernel_scheme \<Rightarrow> 'a kernel_scheme \<Rightarrow> bool" where
  "setup_frame s s' \<longleftrightarrow> bus s' = bus s \<and> cr0 s' = cr0 s \<and> cr3 s' = cr3 s \<and> cr4 s' = cr4 s \<and> msrs s' = msrs s \<and>
     interrupt_handlers s' = interrupt_handlers s \<and> kb s' = kb s \<and> apic s' = apic s \<and>
     shift s' = shift s \<and> capslock s' = capslock s \<and>
     gdt s' = gdt s \<and> gdtr s' = gdtr s \<and> task_register s' = task_register s \<and> idt s' = idt s \<and> idtr s' = idtr s \<and>
     ports_by console_event (io s) (io s') \<and> agree_on (- (video_window \<union> first_header)) (mem s) (mem s')"

lemma setup_frame_trans: "setup_frame s t \<Longrightarrow> setup_frame t u \<Longrightarrow> setup_frame s u"
  using ports_by_trans [of console_event "io s" "io t" "io u"]
    agree_on_trans [of "- (video_window \<union> first_header)" "mem s" "mem t" "mem u"]
  by (simp add: setup_frame_def)

lemma ports_by_mono: "ports_by P h h' \<Longrightarrow> (\<And>e. P e \<Longrightarrow> Q e) \<Longrightarrow> ports_by Q h h'"
  unfolding ports_by_def by blast

lemma con_frame_setup: "con_frame s t \<Longrightarrow> setup_frame s t"
proof -
  assume c: "con_frame s t"
  have "ports_by console_event (io s) (io t)"
    using c by (auto simp: con_frame_def console_event_def intro: ports_by_mono)
  moreover have "agree_on (- (video_window \<union> first_header)) (mem s) (mem t)"
    using c by (auto simp: con_frame_def intro: agree_on_subset)
  ultimately show ?thesis using c by (cases s; cases t) (simp add: con_frame_def setup_frame_def)
qed

lemma ports_by_kbd_reads:
  assumes "ports_by P h h'" and "\<And>v w. \<not> P (PortIn w 0x60 v)"
  shows "kbd_reads h' = kbd_reads h"
proof -
  have "kbd_reads (k @ h) = kbd_reads h" if "\<forall>e \<in> set k. P e" for k
    using that
  proof (induction k)
    case (Cons e k)
    then show ?case using assms(2) by (cases "(e # k @ h)" rule: kbd_reads.cases) auto
  qed simp
  then show ?thesis using assms(1) by (auto simp: ports_by_def)
qed

lemma setup_frame_kbd_reads: "setup_frame s t \<Longrightarrow> kbd_reads (io t) = kbd_reads (io s)"
  by (rule ports_by_kbd_reads [where P = console_event])
    (simp_all add: setup_frame_def console_event_def REG_SCREEN_DATA_def)

lemma sti_frame: "setup_frame s (cpu_enable_interrupts s)" "iflag (cpu_enable_interrupts s)"
  "mem (cpu_enable_interrupts s) = mem s" "kernel_heap (cpu_enable_interrupts s) = kernel_heap s"
  by (simp_all add: cpu_enable_interrupts_def setup_frame_def outb_def console_event_def)

lemma heap_init_setup:
  obtains s' where "heap_init s = Some s'" and "heap_ok s' [(0x100000, False)]" and "setup_frame s s'"
proof -
  obtain s' where s': "heap_init s = Some s'" "heap_ok s' [(0x100000, False)]" "heap_step {heap_start} s s'"
    using heap_init_ok by blast
  obtain m h where "kprintf ''heap initialized: start=0x%llx, end=0x%llx\<newline>''
      [start_address h, end_address h] (s\<lparr>mem := m, kernel_heap := h\<rparr>) = Some s'"
    using s'(1) unfolding heap_init_def Let_def by blast
  then have "ports_by crtc_event (io s) (io s')"
    using con_frame_kprintf by (fastforce simp: con_frame_def)
  then have "ports_by console_event (io s) (io s')" by (rule ports_by_mono) (simp add: console_event_def)
  moreover have "agree_on (- (video_window \<union> first_header)) (mem s) (mem s')"
    using s'(3) by (auto simp: heap_step_def agree_on_def)
  ultimately have "setup_frame s s'"
    using s'(3) by (cases s; cases s') (simp add: heap_step_def setup_frame_def)
  then show ?thesis using that s' by blast
qed

section \<open>The start-up as a whole\<close>

text \<open>The page tables, the TSS, the registers of the APIC at \<open>a\<close>, the screen and the first block header do not overlap.\<close>

definition regions_apart :: "layout \<Rightarrow> u64 \<Rightarrow> bool" where
  "regions_apart l a \<longleftrightarrow>
     (\<forall>t \<in> set (tables_list (tables l)).
        region t 4096 \<inter> (region (tss_addr l) 104 \<union> region a 0x400 \<union> video_window \<union> first_header) = {}) \<and>
     region (tss_addr l) 104 \<inter> (region a 0x400 \<union> video_window \<union> first_header) = {} \<and>
     region a 0x400 \<inter> (video_window \<union> first_header) = {}"

text \<open>The state up to the enabling of the APIC: memory is described by what follows it.\<close>

lemma memory_kept:
  assumes ap: "regions_apart l a" and t: "identity_tables (tables l) m1" and d: "{x. m2 x \<noteq> m1 x} \<subseteq> region (tss_addr l) 104"
    and a: "agree_on (- region a 0x400) m2 m3" and c: "agree_on (- (video_window \<union> first_header)) m3 m4"
  shows "identity_tables (tables l) m4" and "rd64 m4 (tss_addr l + 4) = rd64 m2 (tss_addr l + 4)"
    and "timer_on m4 a \<longleftrightarrow> timer_on m3 a"
proof -
  have "agree_on (- region (tss_addr l) 104) m1 m2" using d by (auto simp: agree_on_def)
  then have "agree_on (region x 4096) m1 m2" "agree_on (region x 4096) m2 m3" "agree_on (region x 4096) m3 m4"
    if "x \<in> set (tables_list (tables l))" for x
    using that ap a c unfolding regions_apart_def by (blast intro: agree_on_subset)+
  then have "\<forall>x \<in> set (tables_list (tables l)). agree_on (region x 4096) m1 m4"
    by (blast intro: agree_on_trans)
  then show "identity_tables (tables l) m4" by (rule identity_tables_agree [OF t])
  have "region (tss_addr l + 4) 8 \<subseteq> region (tss_addr l) 104" by (rule region_offset_subset) simp_all
  then have "agree_on (region (tss_addr l + 4) 8) m2 m3" "agree_on (region (tss_addr l + 4) 8) m3 m4"
    using ap a c unfolding regions_apart_def by (blast intro: agree_on_subset)+
  then show "rd64 m4 (tss_addr l + 4) = rd64 m2 (tss_addr l + 4)"
    by (simp add: rd64_cong)
  have "agree_on (region a 0x400) m3 m4" using ap c unfolding regions_apart_def by (blast intro: agree_on_subset)
  then show "timer_on m4 a \<longleftrightarrow> timer_on m3 a" by (rule timer_on_agree)
qed

lemma pic_other_ports:
  assumes "ports_by P h h'" and "\<And>e. P e \<Longrightarrow> other_event cmd dat e"
  shows "pic_state cmd dat h' = pic_state cmd dat h"
  using assms pic_other_events [of _ cmd dat h] unfolding ports_by_def by blast

lemma console_other: "console_event e \<Longrightarrow> other_event PIC1_COMMAND PIC1_DATA e"
  "console_event e \<Longrightarrow> other_event PIC2_COMMAND PIC2_DATA e"
  using crtc_other by (auto simp: console_event_def pic_defs)

text \<open>The controllers are not the keyboard.\<close>

lemma kbd_reads_outb: "kbd_reads (io (outb p v s)) = kbd_reads (io s)"
  by (simp add: outb_def)

lemma kbd_reads_inb: "p \<noteq> 0x60 \<Longrightarrow> kbd_reads (io (snd (inb p s))) = kbd_reads (io s)"
  by (simp add: inb_def Let_def)

lemma kbd_reads_pic_remap: "kbd_reads (io (pic_remap v1 v2 s)) = kbd_reads (io s)"
  by (simp add: pic_remap_def split_beta kbd_reads_outb kbd_reads_inb PIC1_DATA_def PIC2_DATA_def)

lemma kbd_reads_set_mask: "kbd_reads (io (pic_set_mask irq s)) = kbd_reads (io s)"
  by (simp add: pic_set_mask_def split_beta kbd_reads_outb kbd_reads_inb PIC1_DATA_def PIC2_DATA_def)

lemma kbd_reads_mask_irqs: "kbd_reads (io (mask_irqs s)) = kbd_reads (io s)"
  unfolding mask_irqs_lists by (simp add: kbd_reads_set_mask)

text \<open>From the remapping of the controllers to the system calls.\<close>

lemma device_stage:
  assumes "pic_ok (bus s)" and "pic1 (io s) = (0, Some m1)" and "pic2 (io s) = (0, Some m2)"
  obtains h where "mask_irqs (pic_remap 0x20 0x28 s) = s\<lparr>io := h\<rparr>" and "pics_at 0x20 (m1 OR 0xFD) 0x28 0xFF (s\<lparr>io := h\<rparr>)"
    and "kbd_reads h = kbd_reads (io s)"
proof -
  let ?r = "pic_remap 0x20 0x28 s"
  note r = pic_remap_ok [OF assms, of "0x20" "0x28"]
  have "bus ?r = bus s" using r by (metis machine.select_convs(3) machine.surjective machine.update_convs(2))
  then have "pics_at 0x20 m1 0x28 m2 ?r" using assms r by (simp add: pics_at_def)
  then have m: "pics_at 0x20 (m1 OR 0xFD) 0x28 0xFF (mask_irqs ?r)" by (rule mask_irqs_pics)
  have "io_only s ?r" using r unfolding io_only_def by blast
  then have "io_only s (mask_irqs ?r)" using mask_irqs_io_only io_only_trans by blast
  then obtain h where "mask_irqs ?r = s\<lparr>io := h\<rparr>" unfolding io_only_def by blast
  moreover have "kbd_reads (io (mask_irqs ?r)) = kbd_reads (io s)"
    by (simp only: kbd_reads_mask_irqs kbd_reads_pic_remap)
  ultimately show ?thesis using that m by simp
qed

text \<open>From the console on.\<close>

lemma console_stage:
  obtains t s' where "heap_init (kclear s) = Some t"
    and "kprintf ''testing kgetch\<newline>'' [] (cpu_enable_interrupts t) = Some s'"
    and "heap_ok s' [(0x100000, False)]" and "setup_frame s s'" and "iflag s'"
proof -
  obtain t where t: "heap_init (kclear s) = Some t" "heap_ok t [(0x100000, False)]" "setup_frame (kclear s) t"
    by (rule heap_init_setup)
  let ?u = "cpu_enable_interrupts t" and ?msg = "lit ''testing kgetch\<newline>''"
  have k: "kprintf ''testing kgetch\<newline>'' [] ?u = Some (kputs ?msg ?u)"
    unfolding kprintf_def by (rule kvprintf_plain) simp
  have c: "con_frame ?u (kputs ?msg ?u)" by (rule con_frame_kputs)
  have "heap_ok ?u [(0x100000, False)]" using t(2) by (simp add: heap_ok_def sti_frame)
  then have "heap_ok (kputs ?msg ?u) [(0x100000, False)]" by (rule con_frame_heap_ok [OF c])
  moreover have "setup_frame s (kputs ?msg ?u)"
    by (rule setup_frame_trans [OF con_frame_setup [OF con_frame_kclear] setup_frame_trans [OF t(3)
          setup_frame_trans [OF sti_frame(1) con_frame_setup [OF c]]]])
  moreover have "iflag (kputs ?msg ?u)" using con_frame_fields(2) [OF c] sti_frame(2) by simp
  ultimately show ?thesis using that t(1) k by blast
qed

text \<open>Up to the task register.\<close>

lemma init_tables_ok:
  assumes static: "gdt s = gdt_start" "idt s = idt_start" and tags: "tag_chain (mem s) (mboot_info + 8) n"
    and lay: "tables_ok (tables l)"
  obtains s' m where "init_tables l mboot_info s = Some s'" and "identity_tables (tables l) m"
    and "{x. mem s' x \<noteq> m x} \<subseteq> region (tss_addr l) 104" and "rd64 (mem s') (tss_addr l + 4) = stack_addr l + 8192"
    and "cr3 s' = pml4 (tables l)" and "bit (cr0 s') 31" and "bit (cr4 s') 5"
    and "map access (gdt s') = [0, 0x9A, 0x92, 0xF2, 0xFA, 0x89, 0]" and "tss_base (gdt s' ! 5) (gdt s' ! 6) = tss_addr l"
    and "gdtr s' = \<lparr>dt_size = 55, dt_offset = gdt_addr l\<rparr>" and "task_register s' = 0x28" and "idt s' = idt_start"
    and "bus s' = bus s" and "apic_base s' = apic_base s" and "kb s' = kb s"
    and "interrupt_handlers s' = interrupt_handlers s" and "ports_by crtc_event (io s) (io s')"
    and "shift s' = shift s" and "capslock s' = capslock s"
proof -
  let ?s1 = "(kputs found ^^ framebuffer_tags (mem s) (mboot_info + 8) n) s"
  have p1: "parse_multiboot2 mboot_info s = Some ?s1"
    unfolding parse_multiboot2_def by (rule parse_tags_chain [OF tags])
  have c: "con_frame x ((kputs found ^^ k) x)" for k and x :: "'a kernel_scheme"
    by (induction k) (auto intro: con_frame_trans simp del: lit_Cons)
  obtain s1 where s1: "parse_multiboot2 mboot_info s = Some s1" "con_frame s s1" using p1 c by blast
  have f1: "bus s1 = bus s" "gdt s1 = gdt_start" "idt s1 = idt_start" "kb s1 = kb s" "apic_base s1 = apic_base s"
    "interrupt_handlers s1 = interrupt_handlers s" "ports_by crtc_event (io s) (io s1)"
    "shift s1 = shift s" "capslock s1 = capslock s"
    using s1(2) static by (cases s; cases s1; simp add: con_frame_def apic_base_def)+
  let ?m = "build_tables (tables l) (mem s1)" and ?p = "paging_init (tables l) s1"
  let ?r = "\<lparr>dt_size = 55, dt_offset = gdt_addr l\<rparr> :: table_register"
  obtain g0 m3 g where g: "gdt_init (gdt_addr l) gdt_start = Some (g0, ?r)"
    "tss_init (tss_addr l) (stack_addr l) ?m g0 = Some (m3, g, 0x28)"
    "map access g = [0, 0x9A, 0x92, 0xF2, 0xFA, 0x89, 0]" "tss_base (g ! 5) (g ! 6) = tss_addr l"
    "rd64 m3 (tss_addr l + 4) = stack_addr l + 8192" "{x. m3 x \<noteq> ?m x} \<subseteq> region (tss_addr l) 104"
    using gdt_tss_ok [of "gdt_addr l" "tss_addr l" "stack_addr l" ?m] by (elim exE conjE) (rule that)
  let ?s' = "?p\<lparr>gdt := g0, gdtr := ?r, mem := m3, gdt := g, task_register := 0x28\<rparr>"
  have st: "gdt ?p = gdt_start" "mem (?p\<lparr>gdt := g0, gdtr := ?r\<rparr>) = ?m" "gdt (?p\<lparr>gdt := g0, gdtr := ?r\<rparr>) = g0"
    using f1 by (simp_all add: paging_init_def cpu_write_cr3_def Let_def)
  have "init_tables l mboot_info s = Some ?s'"
    by (simp only: init_tables_def Let_def s1(1) bind.bind_lunit prod.case st g(1,2))
  then show ?thesis
    by (rule that [OF _ built_identity_tables [OF lay]])
      (use g(3-6) f1 in \<open>simp_all add: paging_init_def cpu_write_cr3_def Let_def bit_simps apic_base_def\<close>)
qed

text \<open>From the remapping of the controllers on.\<close>

lemma init_devices_ok:
  assumes pic: "pic_ok (bus s)" "pic1 (io s) = (0, Some m1)" "pic2 (io s) = (0, Some m2)" and idt: "idt s = idt_start"
  obtains s' s9 i where "init_devices l s = Some s'" and "heap_ok s' [(0x100000, False)]" and "iflag s'"
    and "pics_at 0x20 (m1 OR 0xFD) 0x28 0xFF s'" and "setup_frame s9 s'"
    and "kbd_reads (io s') = kbd_reads (io s)" and "timer_on (mem s9) (apic_base s)" and "agree_on (- region (apic_base s) 0x400) (mem s) (mem s9)"
    and "map gate_offset i = map (stubs l) [0 ..< 256]"
    and "s9 = s\<lparr>io := io s9, idt := i, idtr := \<lparr>dt_size = 4095, dt_offset = idt_addr l\<rparr>, apic := apic_base s, mem := mem s9,
      interrupt_handlers := (interrupt_handlers s)(0xEF \<mapsto> Apic_handler, 0x80 \<mapsto> Syscall_handler)\<rparr>"
proof -
  obtain h where h: "mask_irqs (pic_remap 0x20 0x28 s) = s\<lparr>io := h\<rparr>"
    "pics_at 0x20 (m1 OR 0xFD) 0x28 0xFF (s\<lparr>io := h\<rparr>)" "kbd_reads h = kbd_reads (io s)" using pic by (rule device_stage)
  let ?r = "\<lparr>dt_size = 4095, dt_offset = idt_addr l\<rparr> :: table_register"
  obtain i where i: "idt_init (stubs l) (idt_addr l) idt_start = (i, ?r)" "map gate_offset i = map (stubs l) [0 ..< 256]"
    using idt_init_ok [of "stubs l" "idt_addr l"] by (cases "idt_init (stubs l) (idt_addr l) idt_start") simp
  let ?s7 = "s\<lparr>io := h, idt := i, idtr := ?r\<rparr>"
  have s7: "idt (s\<lparr>io := h\<rparr>) = idt_start" "apic_base ?s7 = apic_base s" using idt by (simp_all add: apic_base_def)
  obtain m8 where a: "apic_init ?s7 = ?s7\<lparr>apic := apic_base s, mem := m8,
      interrupt_handlers := (interrupt_handlers ?s7)(0xEF \<mapsto> Apic_handler)\<rparr>"
    "timer_on m8 (apic_base s)" "agree_on (- region (apic_base s) 0x400) (mem ?s7) m8"
    using apic_init_ok [of ?s7] unfolding s7 by blast
  define s9 where "s9 = syscall_init (apic_init ?s7)"
  obtain t s' where e: "heap_init (kclear s9) = Some t"
    "kprintf ''testing kgetch\<newline>'' [] (cpu_enable_interrupts t) = Some s'"
    "heap_ok s' [(0x100000, False)]" "setup_frame s9 s'" "iflag s'" by (rule console_stage)
  have run: "init_devices l s = Some s'"
    by (simp only: init_devices_def Let_def bind.bind_lunit prod.case s7(1) h(1) i(1) s9_def [symmetric] e(1,2))
  have s9: "s9 = s\<lparr>io := io s9, idt := i, idtr := ?r, apic := apic_base s, mem := mem s9,
      interrupt_handlers := (interrupt_handlers s)(0xEF \<mapsto> Apic_handler, 0x80 \<mapsto> Syscall_handler)\<rparr>"
    and f9: "mem s9 = m8" "bus s9 = bus s" "io s9 = h"
    unfolding s9_def a(1) by (simp_all add: syscall_init_def idt_register_handler_def)
  have "pics_at 0x20 (m1 OR 0xFD) 0x28 0xFF s9" using h(2) f9 by (simp add: pics_at_def)
  then have "pics_at 0x20 (m1 OR 0xFD) 0x28 0xFF s'"
    by (rule pics_at_ports [OF _ _ _ console_other]) (use e(4) in \<open>simp_all add: setup_frame_def\<close>)
  moreover have "kbd_reads (io s') = kbd_reads (io s)"
    using setup_frame_kbd_reads [OF e(4)] h(3) f9(3) by simp
  ultimately show ?thesis using that run e(3-5) a(2,3) i(2) s9 f9(1) by simp
qed

lemma kernel_boots_ok:
  assumes static: "gdt s = gdt_start" "idt s = idt_start"
    and pic: "pic_ok (bus s)" "pic1 (io s) = (0, Some m1)" "pic2 (io s) = (0, Some m2)"
    and tags: "tag_chain (mem s) (mboot_info + 8) n"
    and lay: "tables_ok (tables l)" "regions_apart l (apic_base s)"
  shows "\<exists>s'. kernel_init l mboot_info s = Some s' \<and>
    (\<forall>va. unat va < 2 ^ 48 \<longrightarrow> page_walk (mem s') (cr3 s') va = (if unat va < 2 ^ 32 then Some va else None)) \<and>
    bit (cr0 s') 31 \<and> bit (cr4 s') 5 \<and>
    gdtr s' = \<lparr>dt_size = 55, dt_offset = gdt_addr l\<rparr> \<and> map access (gdt s') = [0, 0x9A, 0x92, 0xF2, 0xFA, 0x89, 0] \<and>
    tss_base (gdt s' ! 5) (gdt s' ! 6) = tss_addr l \<and> task_register s' = 0x28 \<and>
    rd64 (mem s') (tss_addr l + 4) = stack_addr l + 8192 \<and>
    idtr s' = \<lparr>dt_size = 4095, dt_offset = idt_addr l\<rparr> \<and> map gate_offset (idt s') = map (stubs l) [0 ..< 256] \<and>
    pics_at 0x20 (m1 OR 0xFD) 0x28 0xFF s' \<and> bus s' = bus s \<and> apic s' = apic_base s \<and> timer_on (mem s') (apic s') \<and>
    interrupt_handlers s' = (interrupt_handlers s)(0xEF \<mapsto> Apic_handler, 0x80 \<mapsto> Syscall_handler) \<and>
    heap_ok s' [(0x100000, False)] \<and> kb s' = kb s \<and> shift s' = shift s \<and> capslock s' = capslock s \<and>
    kbd_reads (io s') = kbd_reads (io s) \<and> iflag s'"
proof -
  obtain t m where t: "init_tables l mboot_info s = Some t" "identity_tables (tables l) m"
    "{x. mem t x \<noteq> m x} \<subseteq> region (tss_addr l) 104" "rd64 (mem t) (tss_addr l + 4) = stack_addr l + 8192"
    "cr3 t = pml4 (tables l)" "bit (cr0 t) 31" "bit (cr4 t) 5"
    "map access (gdt t) = [0, 0x9A, 0x92, 0xF2, 0xFA, 0x89, 0]" "tss_base (gdt t ! 5) (gdt t ! 6) = tss_addr l"
    "gdtr t = \<lparr>dt_size = 55, dt_offset = gdt_addr l\<rparr>" "task_register t = 0x28" "idt t = idt_start"
    "bus t = bus s" "apic_base t = apic_base s" "kb t = kb s" "interrupt_handlers t = interrupt_handlers s"
    "ports_by crtc_event (io s) (io t)" "shift t = shift s" "capslock t = capslock s"
    by (rule init_tables_ok [OF static tags lay(1)])
  have p: "pic_ok (bus t)" "pic1 (io t) = (0, Some m1)" "pic2 (io t) = (0, Some m2)"
    using pic t(13) pic_other_ports [OF t(17) crtc_other(1)] pic_other_ports [OF t(17) crtc_other(2)] by simp_all
  obtain s' s9 i where d: "init_devices l t = Some s'" "heap_ok s' [(0x100000, False)]" "iflag s'"
    "pics_at 0x20 (m1 OR 0xFD) 0x28 0xFF s'" "setup_frame s9 s'" "kbd_reads (io s') = kbd_reads (io t)"
    "timer_on (mem s9) (apic_base t)" "agree_on (- region (apic_base t) 0x400) (mem t) (mem s9)"
    "map gate_offset i = map (stubs l) [0 ..< 256]"
    "s9 = t\<lparr>io := io s9, idt := i, idtr := \<lparr>dt_size = 4095, dt_offset = idt_addr l\<rparr>, apic := apic_base t, mem := mem s9,
      interrupt_handlers := (interrupt_handlers t)(0xEF \<mapsto> Apic_handler, 0x80 \<mapsto> Syscall_handler)\<rparr>"
    by (rule init_devices_ok [OF p t(12)])
  obtain n m8 where s9: "s9 = t\<lparr>io := n, idt := i, idtr := \<lparr>dt_size = 4095, dt_offset = idt_addr l\<rparr>, apic := apic_base s,
      mem := m8, interrupt_handlers := (interrupt_handlers s)(0xEF \<mapsto> Apic_handler, 0x80 \<mapsto> Syscall_handler)\<rparr>"
    using d(10) t(14,16) by metis
  note fr = d(5) [unfolded setup_frame_def s9, simplified]
  have k: "identity_tables (tables l) (mem s')" "rd64 (mem s') (tss_addr l + 4) = stack_addr l + 8192"
    "timer_on (mem s') (apic_base s)"
    using memory_kept [OF lay(2) t(2,3), of m8 "mem s'"] d(7,8) t(4,14) fr unfolding s9 by simp_all
  have kr: "kbd_reads (io t) = kbd_reads (io s)"
    by (rule ports_by_kbd_reads [OF t(17)]) (simp add: REG_SCREEN_DATA_def)
  have "kernel_init l mboot_info s = Some s'" by (simp add: kernel_init_def t(1) d(1))
  then show ?thesis
    using k walk_identity [OF lay(1) k(1)] fr t(5-11,13,15,18,19) d(2-4,6,9) kr by (intro exI [of _ s']) simp
qed

text \<open>
  C4.  The start-up of the kernel: on a machine whose static tables are still zero, whose interrupt controllers answer as an
  8259A does, and whose boot information is terminated, with the kernel's objects placed apart, everything up to the
  shell runs through and leaves the kernel ready: the page tables map the first 4 GiB to themselves;
  the descriptor tables, the TSS and the task register are set; all 256 gates lead to their stubs;
  the controllers deliver from the vectors 0x20 and 0x28 on and let only the keyboard through; the timer runs
  and its handler and that of the system calls are registered; the heap is one free block of 1 MiB; and interrupts are on.
\<close>

theorem kernel_boots:
  assumes static: "gdt s = gdt_start" "idt s = idt_start"
    and pic: "pic_ok (bus s)" "pic1 (io s) = (0, Some m1)" "pic2 (io s) = (0, Some m2)"
    and tags: "tag_chain (mem s) (mboot_info + 8) n"
    and lay: "tables_ok (tables l)" "regions_apart l (apic_base s)"
  shows "\<exists>s'. kernel_init l mboot_info s = Some s' \<and>
    (\<forall>va. unat va < 2 ^ 48 \<longrightarrow> page_walk (mem s') (cr3 s') va = (if unat va < 2 ^ 32 then Some va else None)) \<and>
    bit (cr0 s') 31 \<and> bit (cr4 s') 5 \<and>
    gdtr s' = \<lparr>dt_size = 55, dt_offset = gdt_addr l\<rparr> \<and> map access (gdt s') = [0, 0x9A, 0x92, 0xF2, 0xFA, 0x89, 0] \<and>
    tss_base (gdt s' ! 5) (gdt s' ! 6) = tss_addr l \<and> task_register s' = 0x28 \<and>
    rd64 (mem s') (tss_addr l + 4) = stack_addr l + 8192 \<and>
    idtr s' = \<lparr>dt_size = 4095, dt_offset = idt_addr l\<rparr> \<and> map gate_offset (idt s') = map (stubs l) [0 ..< 256] \<and>
    pics_at 0x20 (m1 OR 0xFD) 0x28 0xFF s' \<and> bus s' = bus s \<and> apic s' = apic_base s \<and> timer_on (mem s') (apic s') \<and>
    interrupt_handlers s' = (interrupt_handlers s)(0xEF \<mapsto> Apic_handler, 0x80 \<mapsto> Syscall_handler) \<and>
    heap_ok s' [(0x100000, False)] \<and> kb s' = kb s \<and> shift s' = shift s \<and> capslock s' = capslock s \<and>
    kbd_reads (io s') = kbd_reads (io s) \<and> iflag s'"
  using assms by (rule kernel_boots_ok)

text \<open>A machine for which the hypotheses hold: the loader has left a framebuffer tag at 0x90008 and the end tag after it.\<close>

definition loaded_kernel :: kernel where
  "loaded_kernel = boot_kernel\<lparr>mem := (\<lambda>_. 0)(0x90008 := 8, 0x9000C := 8), bus := pic_bus,
     io := [PortOut IO8 PIC2_DATA 0xFF, PortOut IO8 PIC1_DATA 0xFF], msrs := (\<lambda>_. 0)(0x1B := 0xFEE00900), iflag := False\<rparr>"

definition example_layout :: layout where
  "example_layout = \<lparr>tables = \<lparr>pml4 = 0x200000, pdpt = 0x201000, pd0 = 0x202000, pd1 = 0x203000, pd2 = 0x204000,
     pd3 = 0x205000\<rparr>, gdt_addr = 0x206000, tss_addr = 0x207000, stack_addr = 0x208000, idt_addr = 0x20A000,
     stubs = (\<lambda>i. 0x100000 + 16 * of_nat i)\<rparr>"

lemma regions_disjoint:
  assumes "unat a + n \<le> unat b \<or> unat b + l \<le> unat a" and "unat a + n < 2 ^ 64" and "unat b + l < 2 ^ 64"
  shows "region a n \<inter> region b l = {}"
  using region_of_nat_disjoint [OF assms] by simp

lemma loaded_kernel_ok:
  "gdt loaded_kernel = gdt_start" "idt loaded_kernel = idt_start" "pic_ok (bus loaded_kernel)"
  "pic1 (io loaded_kernel) = (0, Some 0xFF)" "pic2 (io loaded_kernel) = (0, Some 0xFF)"
  "tag_chain (mem loaded_kernel) (0x90000 + 8) 1" "framebuffer_tags (mem loaded_kernel) (0x90000 + 8) 1 = 1"
  "tables_ok (tables example_layout)" "regions_apart example_layout (apic_base loaded_kernel)"
proof -
  show "gdt loaded_kernel = gdt_start" "idt loaded_kernel = idt_start" "pic_ok (bus loaded_kernel)"
    by (simp_all add: loaded_kernel_def boot_kernel_def pic_bus_ok)
  show "pic1 (io loaded_kernel) = (0, Some 0xFF)" "pic2 (io loaded_kernel) = (0, Some 0xFF)"
    by (simp_all add: loaded_kernel_def pic_defs)
  let ?m = "(\<lambda>_. 0)(0x90008 := 8, 0x9000C := 8) :: memory"
  have m: "mem loaded_kernel = ?m" by (simp add: loaded_kernel_def)
  have tg: "tag_type ?m 0x90008 = 8" "next_tag ?m 0x90008 = 0x90010" "tag_type ?m 0x90010 = 0"
    by (simp_all add: tag_type_def next_tag_def tag_size_def rd32_def)
  have r: "region 0x90008 8 \<inter> video_window = {}" "region 0x90010 8 \<inter> video_window = {}"
    unfolding video_window_def VIDEO_ADDRESS_def by (rule regions_disjoint; simp)+
  show "tag_chain (mem loaded_kernel) (0x90000 + 8) 1" "framebuffer_tags (mem loaded_kernel) (0x90000 + 8) 1 = 1"
    unfolding m using tg r by simp_all
  show "tables_ok (tables example_layout)" by (simp add: tables_ok_def tables_list_def frame_def example_layout_def)
  have b: "apic_base loaded_kernel = 0xFEE00000" by (simp add: apic_base_def loaded_kernel_def)
  show "regions_apart example_layout (apic_base loaded_kernel)"
    unfolding b regions_apart_def video_window_def VIDEO_ADDRESS_def heap_start_def
    by (simp add: example_layout_def tables_list_def Int_Un_distrib regions_disjoint)
qed

theorem parse_multiboot2_prints_witness:
  "parse_multiboot2 0x90000 loaded_kernel = Some (kputs found loaded_kernel)"
  using parse_multiboot2_prints [THEN conjunct1, rule_format, OF loaded_kernel_ok(6)]
  unfolding loaded_kernel_ok(7) by simp

theorem kernel_boots_witness:
  "\<exists>s'. kernel_init example_layout 0x90000 loaded_kernel = Some s' \<and> heap_ok s' [(0x100000, False)] \<and>
    apic s' = 0xFEE00000 \<and> iflag s'"
proof -
  have "apic_base loaded_kernel = 0xFEE00000" by (simp add: apic_base_def loaded_kernel_def)
  then show ?thesis using kernel_boots [OF loaded_kernel_ok(1-6,8,9)] by (elim exE conjE) (intro exI conjI; simp)
qed

end
