(* ===== verification/ShellLaws.thy ===== *)
theory ShellLaws
  imports KscanLaws
begin

text \<open>
  The loop at the end of \<open>kernel_main\<close>: which keys it takes and when it ends.
\<close>

text \<open>What follows the first \<open>q\<close> in a stream of scancodes.\<close>

function after_q :: "bool \<Rightarrow> bool \<Rightarrow> u8 list \<Rightarrow> u8 list option" where
  "after_q sh cl q =
    (case first_key sh cl q of
       None \<Rightarrow> None
     | Some (v, sh, cl, rest) \<Rightarrow>
         if v = ch CHR ''q'' then Some rest
         else after_q sh cl rest)"
  by pat_completeness auto
termination
  by (relation "measure (\<lambda>(sh, cl, q). length q)") (auto dest: first_key_rest)

declare after_q.simps [simp del]

lemma first_key_drop: "first_key sh cl q = Some (v, sh', cl', rest) \<Longrightarrow> rest = drop (length q - length rest) q"
proof (induction sh cl q rule: first_key.induct)
  case (2 sh cl c q)
  have "length rest \<le> length q" using first_key_rest [OF 2(4)] by simp
  then show ?case using 2 by (auto simp: Suc_diff_le split: key_event.splits)
qed simp

lemma after_q_rest: "after_q sh cl q = Some rest \<Longrightarrow> length rest < length q"
proof (induction "length q" arbitrary: sh cl q rest rule: less_induct)
  case less
  obtain v sh' cl' r where f: "first_key sh cl q = Some (v, sh', cl', r)"
    using less.prems by (subst (asm) after_q.simps) (auto split: option.splits)
  have r: "length r < length q" by (rule first_key_rest [OF f])
  show ?case
  proof (cases "v = ch CHR ''q''")
    case True
    then show ?thesis using less.prems f r by (simp add: after_q.simps [of sh cl q])
  next
    case False
    then have "after_q sh' cl' r = Some rest"
      using less.prems f by (auto simp: after_q.simps [of sh cl q])
    from less.hyps [OF r this] r show ?thesis by simp
  qed
qed

text \<open>What the shell leaves alone.\<close>

definition shell_frame :: "'a kernel_scheme \<Rightarrow> 'a kernel_scheme \<Rightarrow> bool" where
  "shell_frame s s' \<longleftrightarrow> bus s' = bus s \<and> iflag s' = iflag s \<and> kernel_heap s' = kernel_heap s \<and> kb s' = kb s \<and>
     (interrupt_handlers s')(33 := None) = (interrupt_handlers s)(33 := None) \<and>
     agree_on (- video_window) (mem s) (mem s')"

lemma shell_frame_trans: "shell_frame s t \<Longrightarrow> shell_frame t u \<Longrightarrow> shell_frame s u"
  using agree_on_trans [of "- video_window" "mem s" "mem t" "mem u"] by (simp add: shell_frame_def)

lemma con_frame_shell: "con_frame s t \<Longrightarrow> shell_frame s t"
proof -
  assume c: "con_frame s t"
  have "agree_on (- video_window) (mem s) (mem t)" using con_frame_mem [OF c] by (simp add: agree_on_def)
  then show ?thesis using con_frame_fields [OF c] by (simp add: shell_frame_def)
qed

lemma shell_prompt:
  obtains t where "kprintf ''> '' [] s = Some t" and "con_frame s t"
proof -
  have "kprintf ''> '' [] s = Some (kputs (lit ''> '') s)" unfolding kprintf_def by (rule kvprintf_plain) simp
  then show ?thesis using that con_frame_kputs by blast
qed

lemma shell_farewell:
  obtains t where "kprintf ''Quitting...\<newline>'' [] s = Some t" and "con_frame s t"
proof -
  have "kprintf ''Quitting...\<newline>'' [] s = Some (kputs (lit ''Quitting...\<newline>'') s)"
    unfolding kprintf_def by (rule kvprintf_plain) simp
  then show ?thesis using that con_frame_kputs by blast
qed

text \<open>One turn of the loop.\<close>

lemma shell_turn:
  assumes "kbd_ok (bus s) codes" and "iflag s" and "\<forall>r \<in> set irqs. int_no r = 33"
    and q: "q = map codes [kbd_reads (io s) ..< kbd_reads (io s) + length irqs]"
  shows "case first_key (shift s) (capslock s) q of
      None \<Rightarrow> shell hlt irqs s = None
    | Some (v, sh, cl, rest) \<Rightarrow> \<exists>u. shell_frame s u \<and> shift u = sh \<and> capslock u = cl \<and>
        kbd_reads (io u) = kbd_reads (io s) + (length irqs - length rest) \<and>
        shell hlt irqs s = (if v = ch CHR ''q'' then Some (drop (length irqs - length rest) irqs, u)
          else shell hlt (drop (length irqs - length rest) irqs) u)"
proof -
  let ?n = "kbd_reads (io s)" and ?m = "length irqs"
  obtain t where t: "kprintf ''> '' [] s = Some t" "con_frame s t" by (rule shell_prompt)
  note ft = con_frame_fields [OF t(2)]
  have pt: "kbd_ok (bus t) codes" "iflag t" "?n = kbd_reads (io t)" using assms(1,2) ft by simp_all
  note k = kgetch_ok [OF pt(1,2) assms(3) pt(3), of hlt, folded q, unfolded ft(8,9)]
  have eq: "shell hlt irqs s = Option.bind (kgetch hlt irqs t) (\<lambda>(r, irqs, s).
      let c = (word_of_int r :: u8) in
      if c = ch CHR ''q'' then Option.bind (kprintf ''Quitting...\<newline>'' [] s) (\<lambda>s. Some (irqs, s))
      else Option.bind (kprintf ''%c'' [scast c] s) (\<lambda>s. shell hlt irqs s))"
    by (subst shell.simps) (simp add: t(1))
  show ?thesis
  proof (cases "first_key (shift s) (capslock s) q")
    case None
    then show ?thesis using k eq by simp
  next
    case (Some res)
    obtain v sh cl rest where res: "res = (v, sh, cl, rest)" by (cases res)
    obtain u where u: "kgetch hlt irqs t = Some (sint v, drop (?m - length rest) irqs, u)" "shift u = sh" "capslock u = cl"
      "mem u = mem t" "bus u = bus t" "iflag u = iflag t" "kernel_heap u = kernel_heap t" "kb u = kb t"
      "interrupt_handlers u = (interrupt_handlers t)(33 := None)" "kbd_reads (io u) = ?n + (?m - length rest)"
      using k Some res by auto
    have fu: "shell_frame s u"
      by (rule shell_frame_trans [OF con_frame_shell [OF t(2)]]) (use u in \<open>simp add: shell_frame_def\<close>)
    obtain w where w: "kprintf ''Quitting...\<newline>'' [] u = Some w" "con_frame u w" by (rule shell_farewell)
    have c: "con_frame u (kputc v u)" by simp
    let ?x = "if v = ch CHR ''q'' then w else kputc v u"
    have cx: "con_frame u ?x" using w(2) c by simp
    have "shell hlt irqs s = (if v = ch CHR ''q'' then Some (drop (?m - length rest) irqs, ?x)
        else shell hlt (drop (?m - length rest) irqs) ?x)"
      using eq u(1) w(1) by (simp add: Let_def kprintf_char)
    moreover have "shell_frame s ?x" by (rule shell_frame_trans [OF fu con_frame_shell [OF cx]])
    moreover note con_frame_fields(8,9,13) [OF cx]
    ultimately show ?thesis unfolding Some res using u(2,3,10)
      by (simp only: option.case prod.case) (rule exI [of _ ?x], simp only: simp_thms)
  qed
qed

definition shell_result ::
  "('a kernel_scheme \<Rightarrow> 'a kernel_scheme option) \<Rightarrow> u8 list \<Rightarrow> cpu_registers list \<Rightarrow> 'a kernel_scheme \<Rightarrow> bool" where
  "shell_result hlt q irqs s \<longleftrightarrow>
    (case after_q (shift s) (capslock s) q of
       None \<Rightarrow> shell hlt irqs s = None
     | Some rest \<Rightarrow> \<exists>s'. shell hlt irqs s = Some (drop (length irqs - length rest) irqs, s') \<and> shell_frame s s')"

lemma shell_steps:
  assumes "kbd_ok (bus s) codes" and "iflag s" and "\<forall>r \<in> set irqs. int_no r = 33"
    and "q = map codes [kbd_reads (io s) ..< kbd_reads (io s) + length irqs]"
  shows "shell_result hlt q irqs s"
  using assms
proof (induction "length irqs" arbitrary: irqs s q rule: less_induct)
  case less
  note turn = shell_turn [OF less.prems, of hlt]
  show ?case
  proof (cases "first_key (shift s) (capslock s) q")
    case None
    then show ?thesis using turn by (simp add: shell_result_def after_q.simps)
  next
    case (Some res)
    obtain v sh cl rest where res: "res = (v, sh, cl, rest)" by (cases res)
    note f = Some [unfolded res]
    let ?irqs = "drop (length irqs - length rest) irqs"
    obtain u where u: "shell_frame s u" "shift u = sh" "capslock u = cl"
      "kbd_reads (io u) = kbd_reads (io s) + (length irqs - length rest)"
      "shell hlt irqs s = (if v = ch CHR ''q'' then Some (?irqs, u) else shell hlt ?irqs u)"
      using turn f by auto
    have m: "length q = length irqs" using less.prems(4) by simp
    have len: "length rest < length irqs" using first_key_rest [OF f] m by simp
    then have i: "length ?irqs = length rest" by simp
    have "rest = drop (length irqs - length rest) q" using first_key_drop [OF f] m by simp
    then have r: "rest = map codes [kbd_reads (io u) ..< kbd_reads (io u) + length ?irqs]"
      unfolding i u(4) using len less.prems(4) by (simp add: drop_map)
    have pu: "kbd_ok (bus u) codes" "iflag u" "\<forall>r \<in> set ?irqs. int_no r = 33"
      using less.prems(1-3) u(1) by (auto simp: shell_frame_def dest: in_set_dropD)
    have ih: "shell_result hlt rest ?irqs u"
      by (rule less.hyps [OF _ pu r]) (use i len in simp)
    show ?thesis
    proof (cases "v = ch CHR ''q''")
      case True
      then show ?thesis using u f by (simp add: shell_result_def after_q.simps)
    next
      case False
      have si: "after_q (shift s) (capslock s) q = after_q sh cl rest"
        using f False by (simp add: after_q.simps)
      show ?thesis
      proof (cases "after_q sh cl rest")
        case None
        then show ?thesis using ih u si False by (simp add: shell_result_def)
      next
        case (Some rest')
        then obtain s' where s': "shell hlt ?irqs u = Some (drop (length ?irqs - length rest') ?irqs, s')" "shell_frame u s'"
          using ih u(2,3) by (auto simp: shell_result_def)
        have "length rest' < length rest" using after_q_rest Some by blast
        then have "drop (length ?irqs - length rest') ?irqs = drop (length irqs - length rest') irqs" using len by simp
        then show ?thesis using s' si Some u(5) False shell_frame_trans [OF u(1) s'(2)] by (simp add: shell_result_def)
      qed
    qed
  qed
qed

text \<open>
  The shell ends exactly when \<open>q\<close> is typed: while it waits for keys, keyboard interrupts bring the scancodes
  \<open>codes n\<close>, \<open>codes (n + 1)\<close>, ...; if one of them is a \<open>q\<close> under the shift and caps lock state of that
  moment, the shell returns with the interrupts after it untaken and has changed no memory but the screen, neither the heap
  nor the ring buffer, and no handler but that of vector 33; if none is, it does not return.
\<close>

theorem shell_ends_at_q:
  assumes "kbd_ok (bus s) codes" and "iflag s" and "\<forall>r \<in> set irqs. int_no r = 33" and "n = kbd_reads (io s)"
  shows "case after_q (shift s) (capslock s) (map codes [n ..< n + length irqs]) of
      None \<Rightarrow> shell hlt irqs s = None
    | Some rest \<Rightarrow> \<exists>s'. shell hlt irqs s = Some (drop (length irqs - length rest) irqs, s') \<and>
        agree_on (- video_window) (mem s) (mem s') \<and> kernel_heap s' = kernel_heap s \<and> kb s' = kb s \<and> iflag s' \<and>
        (interrupt_handlers s')(33 := None) = (interrupt_handlers s)(33 := None)"
  using shell_steps [OF assms(1-3) refl, of hlt] assms(2)
  unfolding shell_result_def assms(4) by (auto simp: shell_frame_def split: option.splits)

text \<open>The keys a, q and one more.\<close>

theorem shell_ends_at_q_witness:
  "\<exists>s'. shell Some [irq_frame 33 0, irq_frame 33 0, irq_frame 33 0]
      (boot_kernel\<lparr>bus := \<lambda>h w p. ucast ([0x1E, 0x10, 0x1C] ! (kbd_reads h) :: u8)\<rparr>) = Some ([irq_frame 33 0], s')"
proof -
  let ?codes = "\<lambda>n. [0x1E, 0x10, 0x1C] ! n :: u8"
  let ?s = "boot_kernel\<lparr>bus := \<lambda>h w p. ucast (?codes (kbd_reads h))\<rparr>"
  let ?irqs = "[irq_frame 33 0, irq_frame 33 0, irq_frame 33 0]"
  have s: "kbd_ok (bus ?s) ?codes" "iflag ?s" "0 = kbd_reads (io ?s)" "\<not> shift ?s" "\<not> capslock ?s"
    by (simp_all add: kbd_ok_def boot_kernel_def)
  have i: "\<forall>r \<in> set ?irqs. int_no r = 33" by (simp add: irq_frame_def)
  have d: "decode_key False 0x1E = Char_key 97" "decode_key False 0x10 = Char_key 113" by code_simp+
  have "after_q False False (map ?codes [0 ..< 0 + length ?irqs]) = Some [0x1C]"
    by (simp add: upt_rec after_q.simps d)
  then show ?thesis using shell_ends_at_q [OF s(1,2) i s(3), of Some] s(4,5) by auto
qed

end
