(* ===== verification/KernelInvariant.thy ===== *)
theory KernelInvariant
  imports KscanLaws
begin

text \<open>
  What no operation of the running kernel changes by its own assignments: the configuration that the start-up leaves (control
  registers, descriptor tables, interrupt handlers but that of the keyboard) and the shape of the ring buffer.  Where the
  operations store through pointers is the subject of \<open>KernelSafety\<close>.
\<close>

section \<open>The invariant\<close>

text \<open>The handler of vector 33 is left out: the input functions change it.\<close>

definition configured :: "'a kernel_scheme \<Rightarrow> 'a kernel_scheme \<Rightarrow> bool" where
  "configured s s' \<longleftrightarrow> cr0 s' = cr0 s \<and> cr3 s' = cr3 s \<and> cr4 s' = cr4 s \<and> msrs s' = msrs s \<and> apic s' = apic s \<and>
     gdt s' = gdt s \<and> gdtr s' = gdtr s \<and> task_register s' = task_register s \<and> idt s' = idt s \<and> idtr s' = idtr s \<and>
     (interrupt_handlers s')(33 := None) = (interrupt_handlers s)(33 := None)"

definition keeps :: "'a kernel_scheme \<Rightarrow> 'a kernel_scheme \<Rightarrow> bool" where
  "keeps s s' \<longleftrightarrow> configured s s' \<and> (kb_ok (kb s) \<longrightarrow> kb_ok (kb s'))"

definition hlt_keeps :: "('a kernel_scheme \<Rightarrow> 'a kernel_scheme option) \<Rightarrow> bool" where
  "hlt_keeps hlt \<longleftrightarrow> (\<forall>s s'. hlt s = Some s' \<longrightarrow> keeps s s')"

lemma keeps_refl [simp]: "keeps s s"
  by (simp add: keeps_def configured_def)

lemma keeps_trans: "keeps s t \<Longrightarrow> keeps t u \<Longrightarrow> keeps s u"
  by (simp add: keeps_def configured_def)

lemma con_frame_keeps: "con_frame s t \<Longrightarrow> keeps s t"
  by (cases s; cases t) (simp add: con_frame_def keeps_def configured_def)

lemma quiet_keeps: "quiet s t \<Longrightarrow> keeps s t"
  by (auto simp: quiet_def keeps_def configured_def)

section \<open>Handlers\<close>

lemma keeps_getch_handler: "keeps s (getch_handler s)"
  by (simp add: getch_handler_def modifier_key_def inb_def Let_def keeps_def configured_def split: option.splits)

lemma keeps_kscan_backspace: "keeps s (kscan_backspace len s)"
proof -
  let ?m = "memmove (mem s) (kscan_buf s + (kscan_pos s - 1)) (kscan_buf s + kscan_pos s) (len - kscan_pos s + 1)"
  let ?s = "s\<lparr>kscan_pos := kscan_pos s - 1, mem := ?m(kscan_buf s + (len - 1) := 0)\<rparr>"
  obtain p t where g: "get_cursor ?s = (p, t)" by (cases "get_cursor ?s")
  have "keeps s ?s" by (simp add: keeps_def configured_def)
  moreover have "con_frame ?s (kscan_backspace len s)"
    unfolding kscan_backspace_def Let_def using con_frame_get [OF g]
    by (auto simp: g intro!: con_frame_trans [OF _ con_frame_set_cursor] con_frame_trans [OF _ con_frame_kputchar]
        con_frame_trans [OF _ con_frame_fold])
  ultimately show ?thesis using con_frame_keeps keeps_trans by blast
qed

lemma keeps_kscan_insert: "kscan_insert c s = Some s' \<Longrightarrow> keeps s s'"
proof -
  assume "kscan_insert c s = Some s'"
  then obtain m where s': "s' = (kputchar c 7 (s\<lparr>mem := m\<rparr>))\<lparr>kscan_pos := kscan_pos (kputchar c 7 (s\<lparr>mem := m\<rparr>)) + 1\<rparr>"
    by (auto simp: kscan_insert_def Let_def split: bind_splits)
  have "keeps s (s\<lparr>mem := m\<rparr>)" by (simp add: keeps_def configured_def)
  moreover have "keeps (s\<lparr>mem := m\<rparr>) (kputchar c 7 (s\<lparr>mem := m\<rparr>))" by (intro con_frame_keeps) simp
  moreover have "keeps t (t\<lparr>kscan_pos := p\<rparr>)" for t :: "'a kernel_scheme" and p by (simp add: keeps_def configured_def)
  ultimately show ?thesis unfolding s' using keeps_trans by blast
qed

lemma keeps_updates:
  "keeps s (s\<lparr>shift := b\<rparr>)" "keeps s (s\<lparr>capslock := b\<rparr>)" "keeps s (s\<lparr>ctrl := b\<rparr>)" "keeps s (s\<lparr>alt := b\<rparr>)"
  "keeps s (s\<lparr>kscan_pos := p\<rparr>)" "keeps s (s\<lparr>mem := m\<rparr>)" "keeps s (s\<lparr>enter := b, kscan_pos := p\<rparr>)"
  "keeps s (s\<lparr>iflag := b\<rparr>)" "keeps s (s\<lparr>io := h\<rparr>)" "keeps s (s\<lparr>blink_counter := k\<rparr>)" "keeps s (s\<lparr>enter := b\<rparr>)"
  "keeps s (s\<lparr>getch_end := b, getch_char := c\<rparr>)" "keeps s (s\<lparr>mem := m, kernel_heap := hp\<rparr>)"
  "keeps s (s\<lparr>kernel_heap := hp\<rparr>)" "keeps s (idt_register_handler 33 h33 s)" "keeps s (idt_uninstall_handler 33 s)"
  by (simp_all add: keeps_def configured_def idt_register_handler_def idt_uninstall_handler_def)

lemma keeps_kscan_handler:
  assumes "kscan_handler s = Some s'"
  shows "keeps s s'"
proof -
  obtain code t where g: "inb 0x60 s = (code, t)" by (cases "inb 0x60 s")
  then have t: "keeps s t" by (auto simp: inb_def Let_def keeps_updates)
  have "keeps t s'"
    using assms g
    by (auto simp: kscan_handler_def modifier_key_def Let_def keeps_updates keeps_kscan_backspace
        split: bind_splits if_splits option.splits dest!: keeps_kscan_insert con_frame_kprintf con_frame_keeps
        intro: keeps_trans [OF _ keeps_updates(7)])
  with t show ?thesis by (rule keeps_trans)
qed

lemma keeps_apic_handler: "keeps s (apic_handler s)"
proof -
  obtain p t where g: "get_cursor (s\<lparr>blink_counter := 0\<rparr>) = (p, t)" by (cases "get_cursor (s\<lparr>blink_counter := 0\<rparr>)")
  have "keeps s (set_cursor p t)"
    using keeps_trans [OF keeps_updates(10) con_frame_keeps [OF con_frame_trans [OF con_frame_get [OF g] con_frame_set_cursor]]] .
  moreover have "keeps t (apic_write r v t)" for r v and t :: "'a kernel_scheme" by (simp add: apic_write_def keeps_updates)
  ultimately show ?thesis
    unfolding apic_handler_def Let_def using g by (auto intro: keeps_trans [OF keeps_updates(10)] keeps_trans [of s "set_cursor p t"])
qed

section \<open>System calls\<close>

lemma kb_ok_pop: "kb_ok k \<Longrightarrow> keyboard_buffer_pop k = (r, k') \<Longrightarrow> kb_ok k'"
  using kbq.pop_split [of k] by auto

lemma keeps_next_char:
  assumes "next_char hlt s = Some (c, s')" and "hlt_keeps hlt"
  shows "keeps s s'"
proof -
  have "hlt_keeps hlt \<longrightarrow> keeps s (snd y)" if "next_char hlt s = Some y" for y
  proof (rule next_char.raw_induct [OF _ that], rule impI)
    fix f hlt s y
    assume IH: "\<And>hlt (s :: 'a kernel_scheme) y. f hlt s = Some y \<Longrightarrow> hlt_keeps hlt \<longrightarrow> keeps s (snd y)"
      and step: "(case keyboard_buffer_pop (kb s) of
         (None, k) \<Rightarrow> hlt (s\<lparr>kb := k\<rparr>) \<bind> f hlt
       | (Some c, k) \<Rightarrow> Some (c, s\<lparr>kb := k\<rparr>)) = Some y" and h: "hlt_keeps hlt"
    obtain r k where p: "keyboard_buffer_pop (kb s) = (r, k)" by (cases "keyboard_buffer_pop (kb s)")
    have k: "keeps s (s\<lparr>kb := k\<rparr>)" using kb_ok_pop [OF _ p] by (simp add: keeps_def configured_def)
    show "keeps s (snd y)"
    proof (cases r)
      case None
      then obtain t where t: "hlt (s\<lparr>kb := k\<rparr>) = Some t" "f hlt t = Some y"
        using step p by (auto simp: bind_eq_Some_conv)
      then have "keeps (s\<lparr>kb := k\<rparr>) t" using h by (simp add: hlt_keeps_def)
      moreover have "keeps t (snd y)" using IH [OF t(2)] h by simp
      ultimately show ?thesis using k keeps_trans by blast
    next
      case (Some c)
      then show ?thesis using step p k by auto
    qed
  qed
  then show ?thesis using assms by fastforce
qed

lemma keeps_read_chars: "read_chars hlt buf i n s = Some s' \<Longrightarrow> hlt_keeps hlt \<Longrightarrow> keeps s s'"
proof (induction n arbitrary: i s)
  case (Suc n)
  obtain c t where t: "next_char hlt s = Some (c, t)"
    "read_chars hlt buf (i + 1) n (t\<lparr>mem := (mem t)(buf + i := c)\<rparr>) = Some s'"
    using Suc.prems(1) by (auto split: bind_splits)
  show ?case
    by (rule keeps_trans [OF keeps_next_char [OF t(1) Suc.prems(2)] keeps_trans [OF keeps_updates(6) Suc.IH [OF t(2) Suc.prems(2)]]])
qed simp

lemma keeps_write_chars: "write_chars buf i n s = Some s' \<Longrightarrow> keeps s s'"
proof (induction n arbitrary: i s)
  case (Suc n)
  then obtain t where "kprintf ''%c'' [scast (mem s (buf + i))] s = Some t" "write_chars buf (i + 1) n t = Some s'"
    by (auto split: bind_splits)
  then show ?case using Suc.IH con_frame_kprintf con_frame_keeps keeps_trans by blast
qed simp

lemma keeps_syscall_handler:
  "syscall_handler hlt regs s = Some (regs', s') \<Longrightarrow> hlt_keeps hlt \<Longrightarrow> keeps s s'"
  by (auto simp: syscall_handler_def sys_read_def sys_write_def sys_exit_def Let_def
      split: if_splits bind_splits dest: keeps_read_chars keeps_write_chars)

section \<open>Interrupts\<close>

lemma keeps_run_handler:
  assumes "run_handler hlt h regs s = Some (regs', s')" and "hlt_keeps hlt"
  shows "keeps s s'"
  using assms keeps_getch_handler keeps_apic_handler
  by (auto simp: run_handler_def split: handler.splits bind_splits dest: keeps_kscan_handler keeps_syscall_handler)

lemma keeps_isr_dispatch:
  assumes "isr_dispatch hlt regs s = Some (regs', s')" and "hlt_keeps hlt"
  shows "keeps s s'"
proof -
  let ?v = "ucast (int_no regs) :: u8"
  obtain t where t: "trace_interrupt ?v regs s = Some t" "quiet s t" using trace_interrupt_quiet by blast
  obtain r u where u: "(case interrupt_handlers t ?v of None \<Rightarrow> Some (regs, t) | Some h \<Rightarrow> run_handler hlt h regs t) = Some (r, u)"
    and s': "s' = (if 32 \<le> ?v \<and> ?v \<le> 47 then pic_send_eoi (?v - 32) u else u)"
    using assms(1) t(1) by (auto simp: isr_dispatch_def Let_def split: bind_splits)
  have "keeps t u" using u keeps_run_handler [OF _ assms(2)] by (auto split: option.splits)
  moreover have "keeps u s'" unfolding s' by (simp add: quiet_keeps)
  ultimately show ?thesis using quiet_keeps [OF t(2)] keeps_trans by blast
qed

lemma keeps_interrupt:
  assumes "interrupt hlt regs s = Some (regs', s')" and "hlt_keeps hlt"
  shows "keeps s s'"
proof -
  obtain t where t: "isr_dispatch hlt regs (s\<lparr>iflag := False\<rparr>) = Some (regs', t)" "s' = t\<lparr>iflag := iflag s\<rparr>"
    using assms(1) by (auto simp: interrupt_def split: bind_splits)
  show ?thesis unfolding t(2)
    by (rule keeps_trans [OF keeps_updates(8) keeps_trans [OF keeps_isr_dispatch [OF t(1) assms(2)] keeps_updates(8)]])
qed

section \<open>Process context\<close>

lemma keeps_wait_getch: "wait_getch hlt irqs s = Some (rest, s') \<Longrightarrow> hlt_keeps hlt \<Longrightarrow> keeps s s'"
proof (induction irqs arbitrary: s)
  case (Cons r irqs)
  show ?case
  proof (cases "getch_end s")
    case False
    then obtain x t where t: "interrupt hlt r s = Some (x, t)" "wait_getch hlt irqs t = Some (rest, s')"
      using Cons.prems(1) by (subst (asm) wait_getch.simps) (auto split: if_splits bind_splits)
    show ?thesis
      by (rule keeps_trans [OF keeps_interrupt [OF t(1) Cons.prems(2)] Cons.IH [OF t(2) Cons.prems(2)]])
  qed (use Cons.prems(1) in \<open>simp add: wait_getch.simps\<close>)
qed (simp add: wait_getch.simps split: if_splits)

lemma keeps_wait_enter: "wait_enter hlt irqs s = Some (rest, s') \<Longrightarrow> hlt_keeps hlt \<Longrightarrow> keeps s s'"
proof (induction irqs arbitrary: s)
  case (Cons r irqs)
  show ?case
  proof (cases "enter s")
    case False
    then obtain x t where t: "interrupt hlt r (idt_register_handler 33 Kscan_handler s) = Some (x, t)"
      "wait_enter hlt irqs t = Some (rest, s')"
      using Cons.prems(1) by (subst (asm) wait_enter.simps) (auto split: if_splits bind_splits)
    show ?thesis
      by (rule keeps_trans [OF keeps_updates(15) keeps_trans [OF keeps_interrupt [OF t(1) Cons.prems(2)]
            Cons.IH [OF t(2) Cons.prems(2)]]])
  qed (use Cons.prems(1) in \<open>simp add: wait_enter.simps\<close>)
qed (simp add: wait_enter.simps split: if_splits)

lemma keeps_kgetch:
  assumes "kgetch hlt irqs s = Some (c, rest, s')" and "hlt_keeps hlt"
  shows "keeps s s'"
proof -
  let ?s = "s\<lparr>getch_end := False, getch_char := 0\<rparr>"
  obtain t where t: "wait_getch hlt irqs (idt_register_handler 33 Getch_handler ?s) = Some (rest, t)"
    "s' = idt_uninstall_handler 33 t"
    using assms(1) by (auto simp: kgetch_def Let_def split: bind_splits)
  show ?thesis unfolding t(2)
    by (rule keeps_trans [OF keeps_updates(12) keeps_trans [OF keeps_updates(15) keeps_trans [OF
          keeps_wait_getch [OF t(1) assms(2)] keeps_updates(16)]]])
qed

lemma keeps_kscan:
  assumes "kscan hlt irqs buf s = Some (rest, s')" and "hlt_keeps hlt"
  shows "keeps s s'"
proof -
  obtain t m u w m' where t: "kprintf ''kscan: '' [] (s\<lparr>enter := False\<rparr>) = Some t"
    "wait_enter hlt irqs (t\<lparr>kscan_pos := 0, mem := m\<rparr>) = Some (rest, u)"
    "kprintf ''You typed: %s\<newline>'' [kscan_buf (idt_uninstall_handler 33 u)] (idt_uninstall_handler 33 u) = Some w"
    "s' = w\<lparr>mem := m'\<rparr>"
    using assms(1) by (auto simp: kscan_def Let_def split: bind_splits)
  have "keeps s t" by (rule keeps_trans [OF keeps_updates(11) con_frame_keeps [OF con_frame_kprintf [OF t(1)]]])
  moreover have "keeps t (t\<lparr>kscan_pos := 0, mem := m\<rparr>)" by (simp add: keeps_def configured_def)
  moreover have "keeps (t\<lparr>kscan_pos := 0, mem := m\<rparr>) u" by (rule keeps_wait_enter [OF t(2) assms(2)])
  moreover have "keeps u w" by (rule keeps_trans [OF keeps_updates(16) con_frame_keeps [OF con_frame_kprintf [OF t(3)]]])
  moreover have "keeps w s'" unfolding t(4) by (rule keeps_updates)
  ultimately show ?thesis using keeps_trans by blast
qed

lemma keeps_kprintf: "kprintf fmt args s = Some s' \<Longrightarrow> keeps s s'"
  by (rule con_frame_keeps [OF con_frame_kprintf])

lemma keeps_expand: "heap_expand_heap n s = Some s' \<Longrightarrow> keeps s s'"
  by (auto simp: heap_expand_heap_def Let_def split: if_splits bind_splits
      dest!: keeps_kprintf intro: keeps_trans [OF keeps_updates(13)])

lemma keeps_split: "keeps s (snd (heap_split_block b n s))"
  by (simp add: heap_split_block_def Let_def keeps_updates)

lemma keeps_kmalloc:
  assumes "kmalloc n s = Some (p, s')"
  shows "keeps s s'"
proof -
  have last: "keeps t s'" if "(case heap_split_block b n t of (block, u) \<Rightarrow>
      Some (block + SIZEOF_BLOCK, u\<lparr>kernel_heap := (kernel_heap u)\<lparr>used_blocks := used_blocks (kernel_heap u) + 1\<rparr>\<rparr>)) =
      Some (p, s')" for b t
    using that keeps_split [of t b n]
    by (cases "heap_split_block b n t") (auto intro: keeps_trans [OF _ keeps_updates(14)])
  show ?thesis
    using assms
    by (auto simp: kmalloc_def Let_def split: if_splits bind_splits
        dest!: last keeps_kprintf keeps_expand intro: keeps_trans)
qed

lemma keeps_kmfree: "kmfree p s = Some s' \<Longrightarrow> keeps s s'"
  by (auto simp: kmfree_def heap_merge_adjacent_blocks_def Let_def keeps_def configured_def
      split: if_splits prod.splits dest!: keeps_kprintf)

end
