(* ===== verification/KernelSafety.thy ===== *)
theory KernelSafety
  imports KernelInvariant
begin

text \<open>
  Where the running kernel writes, and that its own tables are safe from it.  The model keeps the static objects of the C code
  (\<open>idt\<close>, \<open>gdt\<close>, \<open>interrupt_handlers\<close>, the ring buffer) in fields of the record, which is true to the program as long as
  no store through a pointer reaches the bytes at which the linker has placed them.  Here \<open>K\<close> is any set of addresses with such
  static objects.  For every operation the addresses it may write are determined; operations that store
  through a pointer of their caller are steps of the kernel only with a pointer that is clear of \<open>K\<close>, and then \<open>K\<close> is
  never written, in any order of interrupts, system calls and calls of the process context.
\<close>

section \<open>Where an operation writes\<close>

text \<open>The bytes of the APIC's EOI register, and all memory that devices listen to.\<close>

definition eoi_register :: "'a kernel_scheme \<Rightarrow> u64 set" where
  "eoi_register s = region (apic s + APIC_OFFSET_EOI) 4"

definition device_memory :: "'a kernel_scheme \<Rightarrow> u64 set" where
  "device_memory s = video_window \<union> eoi_register s"

text \<open>From \<open>s\<close> to \<open>s'\<close> nothing but \<open>A\<close> is written, and neither the configuration nor the heap descriptor changes.\<close>

definition touches :: "u64 set \<Rightarrow> 'a kernel_scheme \<Rightarrow> 'a kernel_scheme \<Rightarrow> bool" where
  "touches A s s' \<longleftrightarrow> keeps s s' \<and> kernel_heap s' = kernel_heap s \<and> kscan_buf s' = kscan_buf s \<and>
     agree_on (- A) (mem s) (mem s')"

lemma touches_refl [simp]: "touches A s s"
  by (simp add: touches_def)

lemma touches_trans: "touches A s t \<Longrightarrow> touches A t u \<Longrightarrow> touches A s u"
  unfolding touches_def using keeps_trans agree_on_trans by metis

lemma touches_mono: "touches A s t \<Longrightarrow> A \<subseteq> B \<Longrightarrow> touches B s t"
  unfolding touches_def by (auto intro: agree_on_subset)

lemma touches_apic: "touches A s t \<Longrightarrow> apic t = apic s"
  by (simp add: touches_def keeps_def configured_def)

lemma touches_device: "touches A s t \<Longrightarrow> device_memory t = device_memory s"
  using touches_apic [of A s t] by (simp add: device_memory_def eoi_register_def)

lemma con_frame_touches:
  assumes "con_frame s t"
  shows "touches video_window s t"
  using con_frame_keeps [OF assms] con_frame_fields(3,6) [OF assms] assms by (simp add: touches_def con_frame_def)

lemma touches_kprintf: "kprintf fmt args s = Some t \<Longrightarrow> touches video_window s t"
  by (rule con_frame_touches [OF con_frame_kprintf])

lemma quiet_touches:
  assumes "quiet s t"
  shows "touches A s t \<and> interrupt_handlers t = interrupt_handlers s"
proof -
  obtain h where "t = s\<lparr>io := h @ io s\<rparr>" using assms by (auto simp: quiet_def)
  then show ?thesis using quiet_keeps [OF assms] by (simp add: touches_def)
qed

lemma touches_iflag:
  "touches A (s\<lparr>iflag := b\<rparr>) t \<Longrightarrow> touches A s (t\<lparr>iflag := c\<rparr>)"
  by (simp add: touches_def keeps_def configured_def)

section \<open>Interrupts\<close>

lemma interrupt_via:
  assumes "interrupt hlt r s = Some (r', s')"
  obtains t u w where "quiet (s\<lparr>iflag := False\<rparr>) t"
    and "(case interrupt_handlers s (ucast (int_no r)) of None \<Rightarrow> Some (r, t) | Some h \<Rightarrow> run_handler hlt h r t) = Some (r', u)"
    and "quiet u w" and "s' = w\<lparr>iflag := iflag s\<rparr>"
proof -
  let ?v = "ucast (int_no r) :: u8" and ?s0 = "s\<lparr>iflag := False\<rparr>"
  obtain t where t: "trace_interrupt ?v r ?s0 = Some t" "quiet ?s0 t" using trace_interrupt_quiet by blast
  then have h: "interrupt_handlers t = interrupt_handlers s" by (auto simp: quiet_def)
  obtain u where u: "(case interrupt_handlers s ?v of None \<Rightarrow> Some (r, t) | Some h \<Rightarrow> run_handler hlt h r t) = Some (r', u)"
    "s' = (if 32 \<le> ?v \<and> ?v \<le> 47 then pic_send_eoi (?v - 32) u else u)\<lparr>iflag := iflag s\<rparr>"
    using assms t(1) h by (auto simp: interrupt_def isr_dispatch_def Let_def split: bind_splits)
  show thesis by (rule that [OF t(2) u(1) _ u(2)]) simp
qed

lemma touches_getch_handler:
  "touches A s (getch_handler s) \<and> interrupt_handlers (getch_handler s) = interrupt_handlers s"
proof -
  have "mem (getch_handler s) = mem s" "kernel_heap (getch_handler s) = kernel_heap s"
    "kscan_buf (getch_handler s) = kscan_buf s" "interrupt_handlers (getch_handler s) = interrupt_handlers s"
    by (simp_all add: getch_handler_def modifier_key_def inb_def Let_def split: option.splits)
  then show ?thesis using keeps_getch_handler [of s] by (simp add: touches_def)
qed

lemma touches_apic_write:
  "touches (eoi_register s) s (apic_write APIC_OFFSET_EOI v s)"
  using keeps_updates(6) [of s] by (auto simp: touches_def apic_write_def eoi_register_def agree_on_def wr32_frame)

lemma touches_apic_handler:
  "touches (device_memory s) s (apic_handler s) \<and> interrupt_handlers (apic_handler s) = interrupt_handlers s"
proof -
  define t where "t = s\<lparr>blink_counter := blink_counter s + 1\<rparr>"
  define u where "u = (if blink_counter t \<ge> BLINK_INTERVAL then
      let t = t\<lparr>blink_counter := 0\<rparr>; (p, t) = get_cursor t in set_cursor p t else t)"
  have eq: "apic_handler s = apic_write APIC_OFFSET_EOI 0 u" by (simp add: apic_handler_def t_def u_def Let_def)
  obtain p v where g: "get_cursor (t\<lparr>blink_counter := 0\<rparr>) = (p, v)" by (cases "get_cursor (t\<lparr>blink_counter := 0\<rparr>)")
  note f = con_frame_trans [OF con_frame_get [OF g] con_frame_set_cursor, of p]
  have "touches video_window t (set_cursor p v)"
    using con_frame_touches [OF f] by (simp add: touches_def keeps_def configured_def)
  then have "touches video_window t u" by (simp add: u_def g)
  moreover have "touches video_window s t" by (simp add: t_def touches_def keeps_updates)
  ultimately have su: "touches video_window s u" using touches_trans by blast
  have a: "eoi_register u = eoi_register s" using touches_apic [OF su] by (simp add: eoi_register_def)
  have "touches (device_memory s) s u" by (rule touches_mono [OF su]) (simp add: device_memory_def)
  moreover have "touches (device_memory s) u (apic_handler s)"
    unfolding eq by (rule touches_mono [OF touches_apic_write]) (simp add: device_memory_def a)
  moreover have "interrupt_handlers u = interrupt_handlers s"
    using con_frame_fields(5) [OF f] by (simp add: u_def g, simp add: t_def)
  ultimately show ?thesis using touches_trans by (fastforce simp: eq apic_write_def)
qed

text \<open>The handlers that the start-up registers.  A call of \<open>kgetch\<close> or \<open>kscan\<close> adds one for vector 33 while it waits.\<close>

definition boot_handlers :: "u8 \<Rightarrow> handler option" where
  "boot_handlers = [0xEF \<mapsto> Apic_handler, 0x80 \<mapsto> Syscall_handler]"

text \<open>
  An interrupt from outside: any vector but that of the system calls.  The stub of a vector pushes its number.
\<close>

definition external :: "cpu_registers \<Rightarrow> bool" where
  "external r \<longleftrightarrow> int_no r < 256 \<and> int_no r \<noteq> 0x80"

lemma vector_eq: "int_no r < 256 \<Longrightarrow> k < 256 \<Longrightarrow> (ucast (int_no r) :: u8) = of_nat k \<longleftrightarrow> int_no r = of_nat k"
proof -
  assume a: "int_no r < 256" "k < 256"
  have "unat (int_no r) < 256" using a(1) by (simp add: word_less_unat)
  then have "unat (ucast (int_no r) :: u8) = unat (int_no r)" by (simp add: unsigned_ucast_eq take_bit_nat_eq_self)
  then show ?thesis using a(2) by (simp add: word_unat_eq_iff unat_of_nat_small)
qed

lemma external_vector:
  assumes "external r"
  shows "(ucast (int_no r) :: u8) \<noteq> 0x80" and "(ucast (int_no r) :: u8) = 33 \<longleftrightarrow> int_no r = 33"
  using assms vector_eq [of r 128] vector_eq [of r 33] by (simp_all add: external_def)

text \<open>The state of the line editor.\<close>

definition same_line :: "'a kernel_scheme \<Rightarrow> 'a kernel_scheme \<Rightarrow> bool" where
  "same_line s t \<longleftrightarrow> kscan_pos t = kscan_pos s \<and> shift t = shift s \<and> capslock t = capslock s \<and> enter t = enter s"

lemma same_line_apic_handler: "same_line s (apic_handler s)"
proof -
  let ?t = "s\<lparr>blink_counter := 0\<rparr>"
  obtain p v where g: "get_cursor ?t = (p, v)" by (cases "get_cursor ?t")
  note f = con_frame_fields [OF con_frame_trans [OF con_frame_get [OF g] con_frame_set_cursor, of p]]
  show ?thesis using f(7-9,12) by (simp add: same_line_def apic_handler_def apic_write_def Let_def g)
qed

text \<open>Interrupts that no line input handles.\<close>

lemma interrupt_touches:
  assumes "interrupt hlt r s = Some (r', s')"
    and "interrupt_handlers s (ucast (int_no r)) \<in> {None, Some Getch_handler, Some Apic_handler}"
  shows "touches (device_memory s) s s'" and "interrupt_handlers s' = interrupt_handlers s"
    and "interrupt_handlers s (ucast (int_no r)) \<noteq> Some Getch_handler \<Longrightarrow> same_line s s'"
proof -
  obtain t u w where v: "quiet (s\<lparr>iflag := False\<rparr>) t"
    "(case interrupt_handlers s (ucast (int_no r)) of None \<Rightarrow> Some (r, t) | Some h \<Rightarrow> run_handler hlt h r t) = Some (r', u)"
    "quiet u w" "s' = w\<lparr>iflag := iflag s\<rparr>"
    by (rule interrupt_via [OF assms(1)])
  let ?A = "device_memory s"
  have t: "touches ?A (s\<lparr>iflag := False\<rparr>) t" "interrupt_handlers t = interrupt_handlers s" "device_memory t = ?A"
    "same_line s t"
    using quiet_touches [OF v(1)] v(1) by (auto simp: quiet_def device_memory_def eoi_register_def same_line_def)
  have c: "u = t \<or> (interrupt_handlers s (ucast (int_no r)) = Some Getch_handler \<and> u = getch_handler t) \<or> u = apic_handler t"
    using assms(2) v(2) by (auto simp: run_handler_def)
  then have u: "touches ?A t u" "interrupt_handlers u = interrupt_handlers s"
    using touches_getch_handler [of ?A t] touches_apic_handler [of t] t(2,3) by auto
  have w: "touches ?A (s\<lparr>iflag := False\<rparr>) w" "interrupt_handlers w = interrupt_handlers s"
    using touches_trans [OF touches_trans [OF t(1) u(1)]] quiet_touches [OF v(3)] u(2) by auto
  show "touches ?A s s'" unfolding v(4) by (rule touches_iflag [OF w(1)])
  show "interrupt_handlers s' = interrupt_handlers s" using w(2) by (simp add: v(4))
  assume "interrupt_handlers s (ucast (int_no r)) \<noteq> Some Getch_handler"
  then have "same_line t u" using c same_line_apic_handler [of t] by (auto simp: same_line_def)
  moreover have "same_line u w" using v(3) by (auto simp: quiet_def same_line_def)
  ultimately show "same_line s s'" using t(4) by (simp add: same_line_def v(4))
qed

lemma external_handler:
  assumes "external r" and "(interrupt_handlers s)(33 := None) = boot_handlers"
  shows "interrupt_handlers s (ucast (int_no r)) \<in> {None, Some Apic_handler} \<or> int_no r = 33"
proof (cases "int_no r = 33")
  case False
  then have "(ucast (int_no r) :: u8) \<noteq> 33" using external_vector(2) [OF assms(1)] by simp
  then have "interrupt_handlers s (ucast (int_no r)) = boot_handlers (ucast (int_no r))"
    using fun_cong [OF assms(2), of "ucast (int_no r)"] by simp
  then show ?thesis using external_vector(1) [OF assms(1)] by (auto simp: boot_handlers_def)
qed simp

section \<open>Waiting for a key\<close>

lemma touches_register: "touches A s (idt_register_handler 33 h s)" "touches A s (idt_uninstall_handler 33 s)"
  using keeps_updates(15,16) [of s]
  by (simp_all add: touches_def) (simp_all add: idt_register_handler_def idt_uninstall_handler_def)

lemma touches_wait_getch:
  "wait_getch hlt irqs s = Some (rest, s') \<Longrightarrow> list_all external irqs \<Longrightarrow>
    interrupt_handlers s = boot_handlers(33 \<mapsto> Getch_handler) \<Longrightarrow>
    touches (device_memory s) s s' \<and> interrupt_handlers s' = interrupt_handlers s"
proof (induction irqs arbitrary: s)
  case (Cons r irqs)
  show ?case
  proof (cases "getch_end s")
    case False
    then obtain x t where t: "interrupt hlt r s = Some (x, t)" "wait_getch hlt irqs t = Some (rest, s')"
      using Cons.prems(1) by (subst (asm) wait_getch.simps) (auto split: if_splits bind_splits)
    have "interrupt_handlers s 33 = Some Getch_handler" "(interrupt_handlers s)(33 := None) = boot_handlers"
      using Cons.prems(3) by (auto simp: boot_handlers_def)
    then have h: "interrupt_handlers s (ucast (int_no r)) \<in> {None, Some Getch_handler, Some Apic_handler}"
      using external_handler [of r s] Cons.prems(2) by auto
    note i = interrupt_touches(1,2) [OF t(1) h]
    have "touches (device_memory t) t s'" "interrupt_handlers s' = interrupt_handlers t"
      using Cons.IH [OF t(2)] Cons.prems(2,3) i(2) by auto
    then show ?thesis using touches_trans [OF i(1)] touches_device [OF i(1)] i(2) by simp
  qed (use Cons.prems(1) in \<open>simp add: wait_getch.simps\<close>)
qed (simp add: wait_getch.simps split: if_splits)

lemma touches_kgetch:
  assumes "kgetch hlt irqs s = Some (c, rest, s')" and "list_all external irqs" and "interrupt_handlers s = boot_handlers"
  shows "touches (device_memory s) s s'" and "interrupt_handlers s' = boot_handlers"
proof -
  let ?s = "s\<lparr>getch_end := False, getch_char := 0\<rparr>"
  obtain t where t: "wait_getch hlt irqs (idt_register_handler 33 Getch_handler ?s) = Some (rest, t)"
    "s' = idt_uninstall_handler 33 t"
    using assms(1) by (auto simp: kgetch_def Let_def split: bind_splits)
  let ?r = "idt_register_handler 33 Getch_handler ?s"
  have h: "interrupt_handlers ?r = boot_handlers(33 \<mapsto> Getch_handler)" using assms(3) by (simp add: idt_register_handler_def)
  have "touches (device_memory s) s ?s" using keeps_updates(12) [of s] by (simp add: touches_def)
  then have r: "touches (device_memory s) s ?r" using touches_register(1) touches_trans by blast
  then have "touches (device_memory s) ?r t" "interrupt_handlers t = boot_handlers(33 \<mapsto> Getch_handler)"
    using touches_wait_getch [OF t(1) assms(2) h] touches_device [OF r] h by simp_all
  moreover have "boot_handlers(33 := None) = boot_handlers" by (auto simp: boot_handlers_def)
  ultimately show "touches (device_memory s) s s'" "interrupt_handlers s' = boot_handlers"
    unfolding t(2) using touches_trans [OF r] touches_register(2) touches_trans
    by (blast, simp add: idt_uninstall_handler_def)
qed

section \<open>Reading a line\<close>

abbreviation line_buffer :: "'a kernel_scheme \<Rightarrow> u64 set" where
  "line_buffer s \<equiv> region (kscan_buf s) 512"

lemma same_line_ok:
  assumes "line_ok s e" and "same_line s t" and "touches A s t" and "A \<inter> line_buffer s = {}" and "length (line_text e) < 512"
  shows "line_ok t e"
proof -
  have "agree_on (line_buffer s) (mem s) (mem t)" "kscan_buf t = kscan_buf s"
    using assms(3,4) by (auto simp: touches_def intro: agree_on_subset)
  then show ?thesis
    using assms(1,2) cstr_frame_window [OF _ assms(5), of "mem s" "kscan_buf s" "mem t"]
    by (simp add: line_ok_def same_line_def)
qed

text \<open>One turn of the loop that waits for the end of the line.\<close>

lemma line_interrupt:
  assumes i: "interrupt hlt r (idt_register_handler 33 Kscan_handler s) = Some (x, t)" and x: "external r"
    and l: "line_ok s e" "length (line_text e) < 510" and b: "buffer_ok (kscan_buf s)"
    and d: "device_memory s \<inter> line_buffer s = {}" and h: "(interrupt_handlers s)(33 := None) = boot_handlers"
    and k: "hlt_keeps hlt"
  shows "touches (device_memory s \<union> line_buffer s) s t"
    and "\<exists>e'. line_ok t e' \<and> length (line_text e') \<le> Suc (length (line_text e))"
proof -
  let ?r = "idt_register_handler 33 Kscan_handler s" and ?A = "device_memory s \<union> line_buffer s"
  have "touches ?A s t \<and> (\<exists>e'. line_ok t e' \<and> length (line_text e') \<le> Suc (length (line_text e)))"
  proof (cases "int_no r = 33")
    case True
    obtain p t' where t': "interrupt hlt r ?r = Some (r, t')"
      "line_ok t' (edit_key (ucast (bus s (p @ io s) IO8 0x60)) e)" "kscan_frame s t'"
      by (rule kscan_interrupt_code [OF True l(1) b, where hlt = hlt]) (use l(2) in auto)
    have t: "t' = t" using i t'(1) by simp
    have "keeps s t" by (rule keeps_trans [OF keeps_updates(15) keeps_interrupt [OF i k]])
    then have "touches ?A s t"
      using t'(3) unfolding t by (auto simp: touches_def kscan_frame_def KSCAN_BUF_SIZE_def device_memory_def
          intro: agree_on_subset)
    then show ?thesis using t'(2) edit_key_length unfolding t by blast
  next
    case False
    have hr: "(interrupt_handlers ?r)(33 := None) = boot_handlers" using h by (simp add: idt_register_handler_def)
    then have q: "interrupt_handlers ?r (ucast (int_no r)) \<in> {None, Some Apic_handler}"
      using external_handler [OF x] False by blast
    then have "interrupt_handlers ?r (ucast (int_no r)) \<in> {None, Some Getch_handler, Some Apic_handler}"
      "interrupt_handlers ?r (ucast (int_no r)) \<noteq> Some Getch_handler" by auto
    note it = interrupt_touches [OF i this(1)] this(2)
    have r: "touches (device_memory s) s ?r" "device_memory ?r = device_memory s" "same_line s ?r"
      using touches_register(1) by (simp_all add: device_memory_def eoi_register_def idt_register_handler_def same_line_def)
    have st: "touches (device_memory s) s t" using touches_trans [OF r(1)] it(1) r(2) by simp
    have "same_line s t" using it(3,4) r(3) by (simp add: same_line_def)
    then have "line_ok t e" using l(2) d by (intro same_line_ok [OF l(1) _ st]) simp_all
    then show ?thesis using touches_mono [OF st] by (auto intro: exI [of _ e])
  qed
  then show "touches ?A s t" "\<exists>e'. line_ok t e' \<and> length (line_text e') \<le> Suc (length (line_text e))" by blast+
qed

lemma touches_handlers:
  "touches A s t \<Longrightarrow> (interrupt_handlers s)(33 := None) = boot_handlers \<Longrightarrow> (interrupt_handlers t)(33 := None) = boot_handlers"
  by (simp add: touches_def keeps_def configured_def)

lemma touches_wait_enter:
  "wait_enter hlt irqs s = Some (rest, s') \<Longrightarrow> list_all external irqs \<Longrightarrow> line_ok s e \<Longrightarrow>
    length (line_text e) + length irqs \<le> 510 \<Longrightarrow> buffer_ok (kscan_buf s) \<Longrightarrow> device_memory s \<inter> line_buffer s = {} \<Longrightarrow>
    (interrupt_handlers s)(33 := None) = boot_handlers \<Longrightarrow> hlt_keeps hlt \<Longrightarrow>
    touches (device_memory s \<union> line_buffer s) s s' \<and> (\<exists>e'. line_ok s' e' \<and> length (line_text e') \<le> 510)"
proof (induction irqs arbitrary: s e)
  case (Cons r irqs)
  show ?case
  proof (cases "enter s")
    case False
    then obtain x t where t: "interrupt hlt r (idt_register_handler 33 Kscan_handler s) = Some (x, t)"
      "wait_enter hlt irqs t = Some (rest, s')"
      using Cons.prems(1) by (subst (asm) wait_enter.simps) (auto split: if_splits bind_splits)
    have n: "external r" "list_all external irqs" "length (line_text e) < 510" using Cons.prems(2,4) by simp_all
    note li = line_interrupt [OF t(1) n(1) Cons.prems(3) n(3) Cons.prems(5-8)]
    obtain e' where e': "line_ok t e'" "length (line_text e') \<le> Suc (length (line_text e))" using li(2) by blast
    have d: "device_memory t = device_memory s" "kscan_buf t = kscan_buf s"
      using touches_device [OF li(1)] li(1) by (simp_all add: touches_def)
    have len: "length (line_text e') + length irqs \<le> 510" using e'(2) Cons.prems(4) by simp
    have "touches (device_memory s \<union> line_buffer s) t s' \<and> (\<exists>e'. line_ok s' e' \<and> length (line_text e') \<le> 510)"
      using Cons.IH [OF t(2) n(2) e'(1) len _ _ touches_handlers [OF li(1) Cons.prems(7)] Cons.prems(8)] Cons.prems(5,6)
      by (simp add: d)
    then show ?thesis using touches_trans [OF li(1)] by blast
  next
    case True
    then have "s' = s" using Cons.prems(1) by (simp add: wait_enter.simps)
    then show ?thesis using Cons.prems(3,4) by auto
  qed
next
  case Nil
  then have "s' = s" by (simp add: wait_enter.simps split: if_splits)
  then show ?case using Nil.prems(3,4) by auto
qed

text \<open>What the line buffer must hold before and holds after every call.\<close>

definition line_string :: "'a kernel_scheme \<Rightarrow> bool" where
  "line_string s \<longleftrightarrow> (\<exists>xs. cstr (mem s) (kscan_buf s) xs \<and> length xs < 512)"

lemma line_string_touches:
  assumes "line_string s" and "touches A s t" and "A \<inter> line_buffer s = {}"
  shows "line_string t"
proof -
  have "agree_on (line_buffer s) (mem s) (mem t)" "kscan_buf t = kscan_buf s"
    using assms(2,3) by (auto simp: touches_def intro: agree_on_subset)
  then show ?thesis using assms(1) cstr_frame_window unfolding line_string_def by metis
qed

lemma touches_kscan:
  assumes k: "kscan hlt irqs buf s = Some (rest, s')" and x: "list_all external irqs" and n: "length irqs \<le> 510"
    and h: "interrupt_handlers s = boot_handlers" and b: "buffer_ok (kscan_buf s)" and l: "line_string s"
    and d: "device_memory s \<inter> line_buffer s = {}" and u: "region buf 512 \<inter> line_buffer s = {}" and hk: "hlt_keeps hlt"
  shows "touches (device_memory s \<union> line_buffer s \<union> region buf 512) s s'" and "interrupt_handlers s' = boot_handlers"
    and "line_string s'"
proof -
  let ?A = "device_memory s \<union> line_buffer s" and ?e0 = "empty_line (shift s) (capslock s)"
  obtain old where old: "cstr (mem s) (kscan_buf s) old" "length old < 512" using l by (auto simp: line_string_def)
  obtain s1 m where s1: "kprintf ''kscan: '' [] (s\<lparr>enter := False\<rparr>) = Some s1"
    "strnone (mem s1) (kscan_buf s1) = Some m" "line_ok (s1\<lparr>kscan_pos := 0, mem := m\<rparr>) ?e0"
    "kscan_frame s (s1\<lparr>kscan_pos := 0, mem := m\<rparr>)"
    by (rule kscan_start [OF b old])
  let ?s2 = "s1\<lparr>kscan_pos := 0, mem := m\<rparr>"
  obtain s3 where s3: "wait_enter hlt irqs ?s2 = Some (rest, s3)"
    using k s1(1,2) by (auto simp: kscan_def Let_def split: bind_splits)
  have "keeps s s1" by (rule keeps_trans [OF keeps_updates(11) keeps_kprintf [OF s1(1)]])
  then have "keeps s ?s2" by (rule keeps_trans) (simp add: keeps_def configured_def)
  then have t2: "touches ?A s ?s2"
    using s1(4) by (auto simp: touches_def kscan_frame_def KSCAN_BUF_SIZE_def device_memory_def intro: agree_on_subset)
  have d2: "device_memory ?s2 = device_memory s" "kscan_buf ?s2 = kscan_buf s"
    using touches_device [OF t2] t2 by (simp_all add: touches_def)
  have h2: "(interrupt_handlers ?s2)(33 := None) = boot_handlers"
    by (rule touches_handlers [OF t2]) (simp add: h boot_handlers_def fun_eq_iff)
  have w: "touches ?A ?s2 s3 \<and> (\<exists>e'. line_ok s3 e' \<and> length (line_text e') \<le> 510)"
    using touches_wait_enter [OF s3 x s1(3) _ _ _ h2 hk] b d n unfolding d2 by (simp add: empty_line_def)
  then obtain e where e: "line_ok s3 e" "length (line_text e) \<le> 510" by blast
  let ?s4 = "idt_uninstall_handler 33 s3"
  have t4: "touches ?A s ?s4" using touches_trans [OF touches_trans [OF t2] touches_register(2)] w by blast
  have e4: "line_ok ?s4 e" "kscan_buf ?s4 = kscan_buf s"
    using e(1) t4 by (simp_all add: idt_uninstall_handler_def line_ok_def touches_def)
  have u4: "region buf 512 \<inter> region (kscan_buf ?s4) 512 = {}" "buffer_ok (kscan_buf ?s4)" using u b e4(2) by simp_all
  let ?n = "length (line_text e)"
  obtain s5 m' where s5: "kprintf ''You typed: %s\<newline>'' [kscan_buf ?s4] ?s4 = Some s5"
    "strlen (mem s5) (kscan_buf s5) = Some (int ?n)" "snd (strncpy (mem s5) buf (kscan_buf s5) (of_nat ?n)) = m'"
    "strlen m' (kscan_buf s5) = Some (int ?n)"
    "agree_on (- (video_window \<union> region buf (Suc ?n))) (mem ?s4) (m'(buf + of_nat ?n := 0))" "con_frame ?s4 s5"
    by (rule kscan_finish [OF u4(2) e4(1) e(2) u4(1)])
  have s': "s' = s5\<lparr>mem := m'(buf + of_nat ?n := 0)\<rparr>"
    using k s1(1,2) s3 s5(1-4) by (simp add: kscan_def Let_def)
  have "region buf (Suc ?n) \<subseteq> region buf 512" using e(2) by (intro region_subset) simp
  then have m5: "agree_on (- (video_window \<union> region buf 512)) (mem ?s4) (mem s')"
    unfolding s' by (auto intro: agree_on_subset [OF s5(5)])
  have "keeps ?s4 s'" unfolding s' by (rule keeps_trans [OF con_frame_keeps [OF s5(6)] keeps_updates(6)])
  then have t5: "touches (video_window \<union> region buf 512) ?s4 s'"
    using m5 con_frame_fields(3,6) [OF s5(6)] by (simp add: touches_def s')
  show "touches (?A \<union> region buf 512) s s'"
    by (rule touches_trans [OF touches_mono [OF t4] touches_mono [OF t5]]) (auto simp: device_memory_def)
  have "interrupt_handlers s' = (interrupt_handlers s3)(33 := None)"
    using con_frame_fields(5) [OF s5(6)] by (simp add: s' idt_uninstall_handler_def)
  then show "interrupt_handlers s' = boot_handlers" using touches_handlers [OF _ h2] w by auto
  have "line_string ?s4" using e4(1) e(2) by (auto simp: line_string_def line_ok_def)
  then show "line_string s'"
    by (rule line_string_touches [OF _ t5]) (use u d e4(2) in \<open>auto simp: device_memory_def\<close>)
qed

section \<open>System calls\<close>

text \<open>
  What the interrupts that end a halt may do.  It is what interrupts from outside do while no input function waits, as the
  last part of the theorem shows.
\<close>

definition hlt_idle :: "('a kernel_scheme \<Rightarrow> 'a kernel_scheme option) \<Rightarrow> bool" where
  "hlt_idle hlt \<longleftrightarrow> hlt_keeps hlt \<and> (\<forall>s s'. interrupt_handlers s = boot_handlers \<longrightarrow> hlt s = Some s' \<longrightarrow>
     touches (device_memory s) s s' \<and> interrupt_handlers s' = boot_handlers)"

lemma touches_next_char:
  assumes "next_char hlt s = Some (c, s')" and "hlt_idle hlt" and "interrupt_handlers s = boot_handlers"
  shows "touches (device_memory s) s s'" and "interrupt_handlers s' = boot_handlers"
proof -
  have "hlt_idle hlt \<longrightarrow> interrupt_handlers s = boot_handlers \<longrightarrow>
      touches (device_memory s) s (snd y) \<and> interrupt_handlers (snd y) = boot_handlers" if "next_char hlt s = Some y" for y
  proof (rule next_char.raw_induct [OF _ that], intro impI)
    fix f hlt s y
    assume IH: "\<And>hlt (s :: 'a kernel_scheme) y. f hlt s = Some y \<Longrightarrow> hlt_idle hlt \<longrightarrow> interrupt_handlers s = boot_handlers \<longrightarrow>
        touches (device_memory s) s (snd y) \<and> interrupt_handlers (snd y) = boot_handlers"
      and step: "(case keyboard_buffer_pop (kb s) of
         (None, k) \<Rightarrow> hlt (s\<lparr>kb := k\<rparr>) \<bind> f hlt
       | (Some c, k) \<Rightarrow> Some (c, s\<lparr>kb := k\<rparr>)) = Some y" and h: "hlt_idle hlt" "interrupt_handlers s = boot_handlers"
    obtain r k where p: "keyboard_buffer_pop (kb s) = (r, k)" by (cases "keyboard_buffer_pop (kb s)")
    let ?s = "s\<lparr>kb := k\<rparr>"
    have k: "touches (device_memory s) s ?s" "device_memory ?s = device_memory s" "interrupt_handlers ?s = boot_handlers"
      using kb_ok_pop [OF _ p] h(2)
      by (simp_all add: touches_def keeps_def configured_def device_memory_def eoi_register_def)
    show "touches (device_memory s) s (snd y) \<and> interrupt_handlers (snd y) = boot_handlers"
    proof (cases r)
      case None
      then obtain t where t: "hlt ?s = Some t" "f hlt t = Some y" using step p by (auto simp: bind_eq_Some_conv)
      then have ht: "touches (device_memory s) ?s t" "interrupt_handlers t = boot_handlers"
        using h(1) k(2,3) unfolding hlt_idle_def by metis+
      have st: "touches (device_memory s) s t" by (rule touches_trans [OF k(1) ht(1)])
      have "touches (device_memory t) t (snd y)" "interrupt_handlers (snd y) = boot_handlers"
        using IH [OF t(2)] h(1) ht(2) by blast+
      then show ?thesis using touches_trans [OF st] touches_device [OF st] by simp
    next
      case (Some c)
      then show ?thesis using step p k by auto
    qed
  qed
  then show "touches (device_memory s) s s'" "interrupt_handlers s' = boot_handlers" using assms by fastforce+
qed

lemma touches_read_chars:
  "read_chars hlt buf (of_nat i) n s = Some s' \<Longrightarrow> i + n \<le> N \<Longrightarrow> N < 2 ^ 64 \<Longrightarrow> hlt_idle hlt \<Longrightarrow>
    interrupt_handlers s = boot_handlers \<Longrightarrow>
    touches (device_memory s \<union> region buf N) s s' \<and> interrupt_handlers s' = boot_handlers"
proof (induction n arbitrary: i s)
  case (Suc n)
  obtain c t where t: "next_char hlt s = Some (c, t)"
    "read_chars hlt buf (of_nat i + 1) n (t\<lparr>mem := (mem t)(buf + of_nat i := c)\<rparr>) = Some s'"
    using Suc.prems(1) by (auto split: bind_splits)
  let ?u = "t\<lparr>mem := (mem t)(buf + of_nat i := c)\<rparr>" and ?A = "device_memory s \<union> region buf N"
  note nc = touches_next_char [OF t(1) Suc.prems(4,5)]
  have "buf + of_nat i \<in> region buf N" using Suc.prems(2,3) by (intro offset_in_region) simp_all
  then have "agree_on (- ?A) (mem t) (mem ?u)" by (auto simp: agree_on_def)
  then have "touches ?A t ?u" using keeps_updates(6) [of t] by (simp add: touches_def)
  then have su: "touches ?A s ?u" using touches_trans [OF touches_mono [OF nc(1)]] by blast
  have "read_chars hlt buf (of_nat (Suc i)) n ?u = Some s'" using t(2) by (simp add: add.commute)
  then have "touches (device_memory ?u \<union> region buf N) ?u s' \<and> interrupt_handlers s' = boot_handlers"
    using Suc.prems(2-4) nc(2) by (intro Suc.IH [of "Suc i"]) simp_all
  then show ?case using touches_trans [OF su] touches_device [OF su] by simp
qed simp

lemma touches_write_chars:
  "write_chars buf i n s = Some s' \<Longrightarrow> touches video_window s s' \<and> interrupt_handlers s' = interrupt_handlers s"
proof (induction n arbitrary: i s)
  case (Suc n)
  then obtain t where t: "kprintf ''%c'' [scast (mem s (buf + i))] s = Some t" "write_chars buf (i + 1) n t = Some s'"
    by (auto split: bind_splits)
  have "touches video_window s t" "interrupt_handlers t = interrupt_handlers s"
    using touches_kprintf [OF t(1)] con_frame_fields(5) [OF con_frame_kprintf [OF t(1)]] by simp_all
  then show ?case using Suc.IH [OF t(2)] touches_trans by metis
qed simp

text \<open>The memory that a system call may be made to write: the buffer of \<open>read\<close>.\<close>

definition call_buffer :: "cpu_registers \<Rightarrow> u64 set" where
  "call_buffer r = (if rax r = 0 \<and> rdi r = 0 then region (rsi r) (unat (rdx r)) else {})"

lemma touches_syscall_handler:
  assumes "syscall_handler hlt r s = Some (r', s')" and "hlt_idle hlt" and "interrupt_handlers s = boot_handlers"
  shows "touches (device_memory s \<union> call_buffer r) s s' \<and> interrupt_handlers s' = boot_handlers"
proof -
  consider (from_kbd) "rax r = 0" "rdi r = 0" "read_chars hlt (rsi r) 0 (unat (rdx r)) s = Some s'"
    | (to_console) "write_chars (rsi r) 0 (unat (rdx r)) s = Some s'" | (none) "s' = s"
    using assms(1) by (auto simp: syscall_handler_def sys_read_def sys_write_def sys_exit_def Let_def
        split: if_splits bind_splits)
  then show ?thesis
  proof cases
    case from_kbd
    have "unat (rdx r) < 2 ^ 64" by simp
    then show ?thesis using from_kbd touches_read_chars [of hlt "rsi r" 0 "unat (rdx r)" s s' "unat (rdx r)"] assms(2,3)
      by (simp add: call_buffer_def)
  next
    case to_console
    then have w: "touches video_window s s'" "interrupt_handlers s' = boot_handlers"
      using touches_write_chars [OF to_console] assms(3) by simp_all
    have "touches (device_memory s \<union> call_buffer r) s s'" by (rule touches_mono [OF w(1)]) (auto simp: device_memory_def)
    then show ?thesis using w(2) by blast
  qed (use assms(3) in simp)
qed

lemma touches_system_call:
  assumes "interrupt hlt r s = Some (r', s')" and "int_no r = 0x80" and "hlt_idle hlt" and "interrupt_handlers s = boot_handlers"
  shows "touches (device_memory s \<union> call_buffer r) s s'" and "interrupt_handlers s' = boot_handlers"
proof -
  let ?A = "device_memory s \<union> call_buffer r"
  have "interrupt_handlers s 0x80 = Some Syscall_handler" using assms(4) by (simp add: boot_handlers_def)
  then obtain t where t: "debug_only (s\<lparr>iflag := False\<rparr>) t" "interrupt hlt r s =
      Option.bind (syscall_handler hlt r t) (\<lambda>(regs, s'). Some (regs, s'\<lparr>iflag := iflag s\<rparr>))"
    by (rule interrupt_syscall [OF _ assms(2), where hlt = hlt])
  obtain u where u: "syscall_handler hlt r t = Some (r', u)" "s' = u\<lparr>iflag := iflag s\<rparr>"
    using assms(1) t(2) by (auto split: bind_splits)
  have q: "touches ?A (s\<lparr>iflag := False\<rparr>) t" "interrupt_handlers t = boot_handlers"
    using quiet_touches [OF debug_only_quiet [OF t(1)]] assms(4) by simp_all
  then have d: "device_memory t = device_memory s" using t(1) by (auto simp: debug_only_def device_memory_def eoi_register_def)
  have "touches ?A t u" "interrupt_handlers u = boot_handlers"
    using touches_syscall_handler [OF u(1) assms(3) q(2)] d by simp_all
  then show "touches ?A s s'" "interrupt_handlers s' = boot_handlers"
    using touches_iflag [OF touches_trans [OF q(1)]] unfolding u(2) by auto
qed

section \<open>The heap\<close>

definition heap_area :: "u64 set" where
  "heap_area = region (of_nat heap_start) heap_limit"

definition heap_headers :: "blk list \<Rightarrow> u64 set" where
  "heap_headers bs = (\<Union>q \<in> addrs heap_start bs. region (of_nat q) 32)"

lemma heap_headers_area:
  assumes "heap_ok s bs"
  shows "heap_headers bs \<subseteq> heap_area"
proof
  fix x
  assume "x \<in> heap_headers bs"
  then obtain q where q: "q \<in> addrs heap_start bs" "x \<in> region (of_nat q) 32" by (auto simp: heap_headers_def)
  have "heap_start \<le> q" "q + 40 \<le> heap_start + heap_limit"
    using addrs_range [OF q(1) heap_okD(2) [OF assms]] heap_okD(3) [OF assms] by simp_all
  then show "x \<in> heap_area"
    using q(2) mem_region_of_nat [of q 32 x] mem_region_of_nat [of heap_start heap_limit x]
    by (simp add: heap_area_def heap_bounds)
qed

lemma heap_area_video: "heap_area \<inter> video_window = {}"
  using region_of_nat_disjoint [of heap_start heap_limit "0xb8000" 65537]
  by (simp add: heap_area_def video_window_def VIDEO_ADDRESS_def heap_bounds)

lemma heap_ok_touches:
  assumes "heap_ok s bs" and "touches A s t" and "A \<inter> heap_headers bs = {}"
  shows "heap_ok t bs"
proof -
  have "load_block (mem t) (of_nat q) = load_block (mem s) (of_nat q)" if "q \<in> addrs heap_start bs" for q
  proof (rule load_block_cong)
    have "region (of_nat q) 32 \<subseteq> heap_headers bs" using that by (auto simp: heap_headers_def)
    then show "agree_on (region (of_nat q) 32) (mem s) (mem t)"
      using assms(2,3) by (auto simp: touches_def intro: agree_on_subset)
  qed
  then have "chain (mem t) 0 heap_start bs 0 = chain (mem s) 0 heap_start bs 0" by (rule chain_cong)
  then show ?thesis using assms(1,2) by (simp add: heap_ok_def touches_def)
qed

section \<open>The kernel's own objects\<close>

text \<open>The bytes from which the processor reads the descriptor tables, where \<open>gdtr\<close> and \<open>idtr\<close> say they are.\<close>

definition processor_tables :: "'a kernel_scheme \<Rightarrow> u64 set" where
  "processor_tables s = region (dt_offset (gdtr s)) (unat (dt_size (gdtr s)) + 1) \<union>
     region (dt_offset (idtr s)) (unat (dt_size (idtr s)) + 1)"

text \<open>
  How the linker and the devices place things: \<open>K\<close>, the static objects, among them the tables that the processor reads, the line
  buffer of \<open>kscan\<close>, the heap area, the screen and the EOI register are apart.
\<close>

definition placed :: "u64 set \<Rightarrow> 'a kernel_scheme \<Rightarrow> bool" where
  "placed K s \<longleftrightarrow> processor_tables s \<subseteq> K \<and> K \<inter> (device_memory s \<union> line_buffer s \<union> heap_area) = {} \<and> buffer_ok (kscan_buf s) \<and>
     line_buffer s \<inter> (eoi_register s \<union> heap_area) = {} \<and> eoi_register s \<inter> heap_area = {}"

definition kernel_ok :: "u64 set \<Rightarrow> 'a kernel_scheme \<Rightarrow> bool" where
  "kernel_ok K s \<longleftrightarrow> placed K s \<and> interrupt_handlers s = boot_handlers \<and> kb_ok (kb s) \<and> (\<exists>bs. heap_ok s bs) \<and> line_string s"

text \<open>The configuration, with all handlers, and the bytes of \<open>K\<close>, are the same.\<close>

definition intact :: "u64 set \<Rightarrow> 'a kernel_scheme \<Rightarrow> 'a kernel_scheme \<Rightarrow> bool" where
  "intact K s s' \<longleftrightarrow> configured s s' \<and> interrupt_handlers s' = interrupt_handlers s \<and> agree_on K (mem s) (mem s')"

lemma intact_trans: "intact K s t \<Longrightarrow> intact K t u \<Longrightarrow> intact K s u"
  by (auto simp: intact_def configured_def agree_on_def)

lemma placed_device: "placed K s \<Longrightarrow> device_memory s \<inter> line_buffer s = {}"
  using region_apart [of "kscan_buf s"] by (auto simp: placed_def device_memory_def)

lemma placed_headers: "placed K s \<Longrightarrow> heap_ok s bs \<Longrightarrow> (device_memory s \<union> line_buffer s) \<inter> heap_headers bs = {}"
  using heap_headers_area [of s bs] heap_area_video by (auto simp: placed_def device_memory_def)

text \<open>Memory that may be handed to the kernel as a buffer: not its own objects, not the line buffer, not a header of the heap.\<close>

definition clear_of :: "u64 set \<Rightarrow> 'a kernel_scheme \<Rightarrow> u64 set \<Rightarrow> bool" where
  "clear_of K s P \<longleftrightarrow> P \<inter> (K \<union> line_buffer s) = {} \<and> (\<forall>bs. heap_ok s bs \<longrightarrow> P \<inter> heap_headers bs = {})"

lemma clear_ofI: "P \<inter> K = {} \<Longrightarrow> P \<inter> line_buffer s = {} \<Longrightarrow> P \<inter> heap_area = {} \<Longrightarrow> clear_of K s P"
  using heap_headers_area [of s] unfolding clear_of_def by blast

lemma clear_of_empty [simp]: "clear_of K s {}"
  by (simp add: clear_of_def)

lemma touches_kernel_ok:
  assumes ok: "kernel_ok K s" and t: "touches (device_memory s \<union> line_buffer s \<union> P) s t"
    and h: "interrupt_handlers t = boot_handlers" and l: "line_string t" and c: "clear_of K s P"
  shows "kernel_ok K t \<and> intact K s t"
proof -
  let ?A = "device_memory s \<union> line_buffer s \<union> P"
  obtain bs where bs: "heap_ok s bs" using ok by (auto simp: kernel_ok_def)
  have p: "placed K s" using ok by (simp add: kernel_ok_def)
  have "?A \<inter> heap_headers bs = {}" using placed_headers [OF p bs] c bs unfolding clear_of_def by blast
  then have hp: "heap_ok t bs" by (rule heap_ok_touches [OF bs t])
  have "device_memory t = device_memory s" "kscan_buf t = kscan_buf s" "apic t = apic s"
    using touches_device [OF t] touches_apic [OF t] t by (simp_all add: touches_def)
  moreover have "processor_tables t = processor_tables s"
    using t by (simp add: processor_tables_def touches_def keeps_def configured_def)
  ultimately have "placed K t" using p by (simp add: placed_def eoi_register_def)
  moreover have "K \<subseteq> - ?A" using p c by (auto simp: placed_def clear_of_def)
  then have "agree_on K (mem s) (mem t)" using t by (auto simp: touches_def intro: agree_on_subset)
  ultimately show ?thesis using ok hp h l t by (auto simp: kernel_ok_def intact_def touches_def keeps_def)
qed

lemma touches_apart_kernel_ok:
  assumes ok: "kernel_ok K s" and t: "touches (device_memory s \<union> P) s t"
    and h: "interrupt_handlers t = boot_handlers" and c: "clear_of K s P"
  shows "kernel_ok K t \<and> intact K s t"
proof (rule touches_kernel_ok [OF ok _ h _ c])
  show "touches (device_memory s \<union> line_buffer s \<union> P) s t" by (rule touches_mono [OF t]) blast
  show "line_string t"
    by (rule line_string_touches [OF _ t])
      (use ok placed_device [of K s] c in \<open>auto simp: kernel_ok_def clear_of_def\<close>)
qed

lemma heap_step_kernel_ok:
  assumes ok: "kernel_ok K s" and st: "heap_step (addrs heap_start bs) s t" and u: "heap_ok u bs"
    and bs': "heap_ok t bs'" and k: "keeps s t"
  shows "kernel_ok K t \<and> intact K s t"
proof -
  have p: "placed K s" using ok by (simp add: kernel_ok_def)
  have m: "agree_on (- (video_window \<union> heap_area)) (mem s) (mem t)"
    unfolding agree_on_def
  proof
    fix x
    assume x: "x \<in> - (video_window \<union> heap_area)"
    then have "\<forall>q \<in> addrs heap_start bs. x \<notin> region (of_nat q) 32"
      using heap_headers_area [OF u] by (auto simp: heap_headers_def)
    then show "mem t x = mem s x" using st x by (simp add: heap_step_def)
  qed
  have f: "interrupt_handlers t = interrupt_handlers s" "kscan_buf t = kscan_buf s" "apic t = apic s" "kb t = kb s"
    "processor_tables t = processor_tables s"
    using st by (cases s; cases t; simp add: heap_step_def processor_tables_def)+
  have "agree_on (line_buffer s) (mem s) (mem t)"
    by (rule agree_on_subset [OF m]) (use p region_apart [of "kscan_buf s"] in \<open>auto simp: placed_def\<close>)
  then have "line_string t"
    using ok cstr_frame_window [of "mem s" "kscan_buf s" _ "mem t"] f(2) unfolding kernel_ok_def line_string_def by metis
  moreover have "agree_on K (mem s) (mem t)"
    by (rule agree_on_subset [OF m]) (use p in \<open>auto simp: placed_def device_memory_def\<close>)
  moreover have "placed K t" using p f(2,3,5) by (simp add: placed_def device_memory_def eoi_register_def)
  ultimately show ?thesis using ok bs' k f by (auto simp: kernel_ok_def intact_def keeps_def)
qed

lemma kmalloc_kernel_ok:
  assumes "kmalloc n s = Some (p, t)" and "unat n < 2 ^ 63" and "kernel_ok K s"
  shows "kernel_ok K t \<and> intact K s t"
proof -
  obtain bs where bs: "heap_ok s bs" using assms(3) by (auto simp: kernel_ok_def)
  obtain r bs' where a: "amalloc (unat n) bs = (r, bs')" by fastforce
  have "heap_ok t bs'" "heap_step (addrs heap_start bs') s t"
    using kmalloc_ok [OF bs assms(2) a] assms(1) by (auto split: option.splits)
  then show ?thesis using heap_step_kernel_ok [OF assms(3)] keeps_kmalloc [OF assms(1)] by blast
qed

text \<open>A pointer that \<open>kmalloc\<close> may have returned: NULL or the payload of a block, in use or not.\<close>

definition heap_pointer :: "'a kernel_scheme \<Rightarrow> u64 \<Rightarrow> bool" where
  "heap_pointer s p \<longleftrightarrow> p = 0 \<or> (\<exists>bs. \<exists>i < length bs. heap_ok s bs \<and> p = of_nat (baddr heap_start bs i + 32))"

lemma kmfree_kernel_ok:
  assumes "kmfree p s = Some t" and "heap_pointer s p" and "kernel_ok K s"
  shows "kernel_ok K t \<and> intact K s t"
proof -
  note fin = heap_step_kernel_ok [OF assms(3) _ _ _ keeps_kmfree [OF assms(1)]]
  obtain bs where bs: "heap_ok s bs" using assms(3) by (auto simp: kernel_ok_def)
  have refused: ?thesis if r: "p = 0 \<or> used (load_block (mem s) (p - SIZEOF_BLOCK)) = 0"
  proof -
    obtain u where u: "kmfree p s = Some u" "heap_ok u bs" "heap_step {} s u" using kmfree_refuses [OF bs, of p] r by blast
    then have t: "heap_ok t bs" "heap_step {} s t" using assms(1) by simp_all
    show ?thesis by (rule fin [OF heap_step_mono [OF t(2)] bs t(1)]) simp
  qed
  show ?thesis
  proof (cases "p = 0")
    case False
    then have "\<exists>bs' i. i < length bs' \<and> heap_ok s bs' \<and> p = of_nat (baddr heap_start bs' i + 32)"
      using assms(2) unfolding heap_pointer_def by blast
    then obtain bs' i where b: "i < length bs'" "heap_ok s bs'" "p = of_nat (baddr heap_start bs' i + 32)"
      by (elim exE conjE)
    show ?thesis
    proof (cases "snd (bs' ! i)")
      case True
      obtain u where u: "kmfree p s = Some u" "heap_ok u (afree i bs')" "heap_step (addrs heap_start bs') s u"
        using kmfree_ok [OF b(2,1) True] unfolding b(3) by metis
      then show ?thesis using fin [OF _ b(2)] assms(1) by simp
    next
      case False
      have "used (load_block (mem s) (p - SIZEOF_BLOCK)) = 0"
        unfolding b(3) payload_word(1) block_header [OF b(2,1)] using False by (simp add: header_def)
      then show ?thesis by (intro refused disjI2)
    qed
  qed (use refused in blast)
qed

section \<open>The running kernel\<close>

text \<open>
  One step: an interrupt from outside; a system call; or a call that the process context makes, during which the
  input functions take interrupts from outside of their own.  The guards are the conditions on pointers: the buffer of a
  system call or of \<open>kscan\<close> is clear of the kernel's objects, and what is released is a heap pointer.  (Nothing in the C code
  checks them: \<open>sys_read\<close> stores wherever the program's pointer says.)  A call of \<open>kscan\<close> is for at most 510 interrupts,
  because the handler does not check the line buffer's length.
\<close>

inductive kernel_step ::
  "u64 set \<Rightarrow> ('a kernel_scheme \<Rightarrow> 'a kernel_scheme option) \<Rightarrow> 'a kernel_scheme \<Rightarrow> 'a kernel_scheme \<Rightarrow> bool"
  for K :: "u64 set" and hlt :: "'a kernel_scheme \<Rightarrow> 'a kernel_scheme option" where
  take_interrupt: "interrupt hlt r s = Some (r', s') \<Longrightarrow> external r \<Longrightarrow> kernel_step K hlt s s'"
| system_call: "interrupt hlt r s = Some (r', s') \<Longrightarrow> int_no r = 0x80 \<Longrightarrow> clear_of K s (call_buffer r) \<Longrightarrow>
    kernel_step K hlt s s'"
| read_key: "kgetch hlt irqs s = Some (c, rest, s') \<Longrightarrow> list_all external irqs \<Longrightarrow> kernel_step K hlt s s'"
| read_line: "kscan hlt irqs buf s = Some (rest, s') \<Longrightarrow> list_all external irqs \<Longrightarrow> length irqs \<le> 510 \<Longrightarrow>
    clear_of K s (region buf 512) \<Longrightarrow> kernel_step K hlt s s'"
| print_text: "kprintf fmt args s = Some s' \<Longrightarrow> kernel_step K hlt s s'"
| allocate: "kmalloc n s = Some (p, s') \<Longrightarrow> unat n < 2 ^ 63 \<Longrightarrow> kernel_step K hlt s s'"
| release: "kmfree p s = Some s' \<Longrightarrow> heap_pointer s p \<Longrightarrow> kernel_step K hlt s s'"
| store_char: "kernel_step K hlt s (s\<lparr>kb := keyboard_buffer_push c (kb s)\<rparr>)"

lemma kernel_step_ok:
  "kernel_step K hlt s s' \<Longrightarrow> kernel_ok K s \<Longrightarrow> hlt_idle hlt \<Longrightarrow> kernel_ok K s' \<and> intact K s s'"
proof (induction rule: kernel_step.induct)
  case (take_interrupt r s r' s')
  have h: "interrupt_handlers s = boot_handlers" using take_interrupt.prems(1) by (simp add: kernel_ok_def)
  have "interrupt_handlers s (ucast (int_no r)) \<in> {None, Some Getch_handler, Some Apic_handler}"
    using h external_vector(1) [OF take_interrupt.hyps(2)] by (simp add: boot_handlers_def)
  note i = interrupt_touches(1,2) [OF take_interrupt.hyps(1) this]
  show ?case using touches_apart_kernel_ok [OF take_interrupt.prems(1) _ _ clear_of_empty] i h by simp
next
  case (system_call r s r' s')
  have h: "interrupt_handlers s = boot_handlers" using system_call.prems(1) by (simp add: kernel_ok_def)
  note t = touches_system_call [OF system_call.hyps(1,2) system_call.prems(2) h]
  show ?case by (rule touches_apart_kernel_ok [OF system_call.prems(1) t system_call.hyps(3)])
next
  case (read_key irqs s c rest s')
  have h: "interrupt_handlers s = boot_handlers" using read_key.prems(1) by (simp add: kernel_ok_def)
  show ?case
    using touches_apart_kernel_ok [OF read_key.prems(1) _ _ clear_of_empty] touches_kgetch [OF read_key.hyps h] by simp
next
  case (read_line irqs buf s rest s')
  have k: "placed K s" "interrupt_handlers s = boot_handlers" "line_string s" "hlt_keeps hlt" "buffer_ok (kscan_buf s)"
    using read_line.prems by (simp_all add: kernel_ok_def hlt_idle_def placed_def)
  have u: "region buf 512 \<inter> line_buffer s = {}" using read_line.hyps(4) by (auto simp: clear_of_def)
  note t = touches_kscan [OF read_line.hyps(1-3) k(2,5,3) placed_device [OF k(1)] u k(4)]
  show ?case by (rule touches_kernel_ok [OF read_line.prems(1) t read_line.hyps(4)])
next
  case (print_text fmt args s s')
  have "touches (device_memory s) s s'"
    by (rule touches_mono [OF touches_kprintf [OF print_text.hyps]]) (simp add: device_memory_def)
  moreover have "interrupt_handlers s' = boot_handlers"
    using con_frame_fields(5) [OF con_frame_kprintf [OF print_text.hyps]] print_text.prems(1) by (simp add: kernel_ok_def)
  ultimately show ?case using touches_apart_kernel_ok [OF print_text.prems(1) _ _ clear_of_empty] by simp
next
  case (allocate n s p s')
  then show ?case by (intro kmalloc_kernel_ok)
next
  case (release p s s')
  then show ?case by (intro kmfree_kernel_ok)
next
  case (store_char s c)
  let ?s = "s\<lparr>kb := keyboard_buffer_push c (kb s)\<rparr>"
  have "touches (device_memory s \<union> {}) s ?s"
    using kbq.push_ok [of "kb s" c] by (simp add: touches_def keeps_def configured_def)
  then show ?case
    by (rule touches_apart_kernel_ok [OF store_char.prems(1) _ _ clear_of_empty])
      (use store_char.prems(1) in \<open>simp add: kernel_ok_def\<close>)
qed

lemma kernel_run_ok:
  "(kernel_step K hlt)\<^sup>*\<^sup>* s s' \<Longrightarrow> kernel_ok K s \<Longrightarrow> hlt_idle hlt \<Longrightarrow> kernel_ok K s' \<and> intact K s s'"
proof (induction rule: rtranclp_induct)
  case base
  then show ?case by (simp add: intact_def configured_def)
next
  case (step t u)
  then show ?case using kernel_step_ok [OF step.hyps(2)] intact_trans by blast
qed

lemma interrupt_idle:
  assumes "external r" and "hlt_idle hlt"
  shows "hlt_idle (\<lambda>s. map_option snd (interrupt hlt r s))"
proof -
  have k: "hlt_keeps hlt" using assms(2) by (simp add: hlt_idle_def)
  have "touches (device_memory s) s t \<and> interrupt_handlers t = boot_handlers"
    if h: "interrupt_handlers s = boot_handlers" and i: "interrupt hlt r s = Some (r', t)" for s t :: "'a kernel_scheme" and r'
  proof -
    have "interrupt_handlers s (ucast (int_no r)) \<in> {None, Some Getch_handler, Some Apic_handler}"
      using h external_vector(1) [OF assms(1)] by (simp add: boot_handlers_def)
    from interrupt_touches(1,2) [OF i this] show ?thesis using h by simp
  qed
  moreover have "hlt_keeps (\<lambda>s. map_option snd (interrupt hlt r s))"
    unfolding hlt_keeps_def by (auto dest: keeps_interrupt [OF _ k])
  ultimately show ?thesis by (auto simp: hlt_idle_def)
qed

text \<open>
  C6.  The kernel's tables are safe.  Let \<open>K\<close> be the addresses of the static objects, among them the descriptor tables at the
  addresses in \<open>gdtr\<close> and \<open>idtr\<close>, with the screen, the EOI register, the
  line buffer and the heap area elsewhere.  From a state after the start-up (the handlers of the timer and of the system
  calls registered, the ring buffer and the heap well formed) the kernel takes any number of steps in any order: interrupts from outside,
  system calls, key and line input, output, allocation, release, storing characters; the buffers that callers pass are clear of \<open>K\<close>, the line
  buffer and the heap's headers.  Then no byte of \<open>K\<close> has been written; the control registers, the MSRs, the descriptor tables and their
  registers, the task register, the APIC address and all handlers are what they were; and the ring buffer, the heap and
  the line buffer are well formed again.  The interrupts that end a halt may be any from outside.
\<close>

theorem configuration_invariant:
  assumes "(kernel_step K hlt)\<^sup>*\<^sup>* s s'" and "kernel_ok K s" and "hlt_idle hlt"
  shows "agree_on K (mem s) (mem s') \<and> configured s s' \<and> interrupt_handlers s' = interrupt_handlers s \<and>
    kb_ok (kb s') \<and> (\<exists>bs. heap_ok s' bs) \<and> line_string s' \<and>
    (\<forall>r. external r \<longrightarrow> hlt_idle (\<lambda>s. map_option snd (interrupt hlt r s)))"
  using kernel_run_ok [OF assms] interrupt_idle [OF _ assms(3)] unfolding kernel_ok_def intact_def by blast

text \<open>
  A kernel after its start-up, the static objects between 1 and 3 MiB, the line buffer behind them, the APIC at its usual
  address, the descriptor tables where the example of the start-up has them, and one character typed.  A program reads it into a buffer at 4 MiB.
\<close>

definition running_kernel :: kernel where
  "running_kernel = boot_kernel\<lparr>interrupt_handlers := boot_handlers, apic := 0xFEE00000,
     gdtr := \<lparr>dt_size = 55, dt_offset = 0x206000\<rparr>, idtr := \<lparr>dt_size = 4095, dt_offset = 0x20A000\<rparr>,
     kb := keyboard_buffer_push 65 keyboard_start\<rparr>"

lemma boot_heap_line: "mem boot_heap 0x300000 = 0"
proof -
  let ?s = "machine.extend boot_machine (heap_machine.fields \<lparr>start_address = 0, end_address = 0, max_address = 0,
    first_block = 0, total_blocks = 0, used_blocks = 0\<rparr>) :: heap_machine"
  obtain s' where s': "heap_init ?s = Some s'" "heap_step {heap_start} ?s s'" using heap_init_ok [of ?s] by blast
  have "mem ?s = (\<lambda>_. 0)" by (simp add: machine.defs heap_machine.defs boot_machine_def)
  moreover have "(0x300000 :: u64) \<notin> region (of_nat heap_start) 32"
    using mem_region_of_nat [of heap_start 32 "0x300000"] by (simp add: heap_start_def)
  moreover have "(0x300000 :: u64) \<notin> video_window"
    using mem_region_of_nat [of "0xb8000" 65537 "0x300000"] by (simp add: video_window_def VIDEO_ADDRESS_def)
  ultimately have "mem s' 0x300000 = 0" using s'(2) by (simp add: heap_step_def)
  then show ?thesis using s'(1) by (simp add: boot_heap_def)
qed

lemma running_kernel_ok: "kernel_ok (region 0x100000 0x200000) running_kernel"
proof -
  note rd = region_of_nat_disjoint
  have e: "eoi_register running_kernel = region 0xFEE000B0 4" by (simp add: eoi_register_def running_kernel_def APIC_OFFSET_EOI_def)
  have b: "kscan_buf running_kernel = 0x300000" by (simp add: running_kernel_def boot_kernel_def)
  have v: "video_window = region 0xb8000 65537" by (simp add: video_window_def VIDEO_ADDRESS_def)
  have "region 0x100000 0x200000 \<inter> region 0xb8000 65537 = {}" "region 0x100000 0x200000 \<inter> region 0xFEE000B0 4 = {}"
    "region 0x100000 0x200000 \<inter> region 0x300000 512 = {}" "region 0x100000 0x200000 \<inter> heap_area = {}"
    "region 0x300000 512 \<inter> region 0xb8000 65537 = {}" "region 0x300000 512 \<inter> region 0xFEE000B0 4 = {}"
    "region 0x300000 512 \<inter> heap_area = {}" "region 0xFEE000B0 4 \<inter> heap_area = {}"
    using rd [of "0x100000" "0x200000" "0xb8000" 65537] rd [of "0x100000" "0x200000" "0xFEE000B0" 4]
      rd [of "0x100000" "0x200000" "0x300000" 512] rd [of "0x100000" "0x200000" heap_start heap_limit]
      rd [of "0x300000" 512 "0xb8000" 65537] rd [of "0x300000" 512 "0xFEE000B0" 4]
      rd [of "0x300000" 512 heap_start heap_limit] rd [of "0xFEE000B0" 4 heap_start heap_limit]
    by (simp_all add: heap_area_def heap_bounds)
  moreover have "region 0x206000 56 \<subseteq> region 0x100000 0x200000" "region 0x20A000 4096 \<subseteq> region 0x100000 0x200000"
    using region_offset_subset [of "0x106000" 56 "0x200000" "0x100000"]
      region_offset_subset [of "0x10A000" 4096 "0x200000" "0x100000"] by simp_all
  then have "processor_tables running_kernel \<subseteq> region 0x100000 0x200000"
    by (simp add: processor_tables_def running_kernel_def)
  ultimately have "placed (region 0x100000 0x200000) running_kernel"
    by (simp add: placed_def device_memory_def e b v buffer_ok_def KSCAN_BUF_SIZE_def Int_Un_distrib)
  moreover have "kb_ok (kb running_kernel)" using kb_push_ok [OF keyboard_start_ok(1)] by (simp add: running_kernel_def)
  moreover have "heap_ok running_kernel [(0x100000, False)]"
    using boot_heap_ok(1) by (simp add: heap_ok_def running_kernel_def boot_kernel_def)
  moreover have "line_string running_kernel"
    unfolding line_string_def b using boot_heap_line
    by (intro exI [of _ "[]"]) (simp add: running_kernel_def boot_kernel_def)
  ultimately show ?thesis by (auto simp: kernel_ok_def running_kernel_def)
qed

theorem configuration_invariant_witness:
  "\<exists>s'. kernel_step (region 0x100000 0x200000) Some running_kernel s' \<and> mem s' 0x400000 = 65 \<and>
    agree_on (region 0x100000 0x200000) (mem running_kernel) (mem s') \<and> interrupt_handlers s' = boot_handlers"
proof -
  let ?s = running_kernel and ?K = "region 0x100000 0x200000" and ?r = "(irq_frame 0x80 0)\<lparr>rsi := 0x400000, rdx := 1\<rparr>"
  have h: "interrupt_handlers ?s = boot_handlers" by (simp add: running_kernel_def)
  then have "interrupt_handlers ?s 0x80 = Some Syscall_handler" by (simp add: boot_handlers_def)
  then obtain t where t: "debug_only (?s\<lparr>iflag := False\<rparr>) t" "interrupt Some ?r ?s =
      Option.bind (syscall_handler Some ?r t) (\<lambda>(regs, s'). Some (regs, s'\<lparr>iflag := iflag ?s\<rparr>))"
    by (rule interrupt_syscall [where regs = ?r and hlt = Some]) (simp add: irq_frame_def)
  have "kb t = kb ?s" using t(1) by (auto simp: debug_only_def)
  then have k: "kb_ok (kb t)" "kb_contents (kb t) = [65] @ []"
    using kb_push_ok [OF keyboard_start_ok(1)] kb_push_contents [OF keyboard_start_ok(1)] keyboard_start_ok(2)
    by (simp_all add: running_kernel_def list_push_def)
  obtain m k' where rc: "read_chars Some 0x400000 0 1 t = Some (t\<lparr>mem := m, kb := k'\<rparr>)" "bytes_at m 0x400000 [65]"
    using read_chars_available [OF k, of 0 Some "0x400000"] by auto
  then have "sys_read Some 0 0x400000 1 t = Some (1, t\<lparr>mem := m, kb := k'\<rparr>)" by (simp add: sys_read_def)
  then obtain s' r' where s': "interrupt Some ?r ?s = Some (r', s')" "mem s' = m"
    using t(2) by (simp add: syscall_handler_def irq_frame_def)
  have "region 0x400000 1 \<inter> region 0x100000 0x200000 = {}" "region 0x400000 1 \<inter> region 0x300000 512 = {}"
    "region 0x400000 1 \<inter> heap_area = {}"
    using region_of_nat_disjoint [of "0x400000" 1 "0x100000" "0x200000"] region_of_nat_disjoint [of "0x400000" 1 "0x300000" 512]
      region_of_nat_disjoint [of "0x400000" 1 heap_start heap_limit] by (simp_all add: heap_area_def heap_bounds)
  moreover have "call_buffer ?r = region 0x400000 1" "kscan_buf ?s = 0x300000"
    by (simp_all add: call_buffer_def irq_frame_def running_kernel_def boot_kernel_def)
  ultimately have c: "clear_of ?K ?s (call_buffer ?r)" by (simp only: clear_ofI)
  have st: "kernel_step ?K Some ?s s'" by (rule system_call [OF s'(1) _ c]) (simp add: irq_frame_def)
  then have run: "(kernel_step ?K Some)\<^sup>*\<^sup>* ?s s'" by (rule r_into_rtranclp)
  have "hlt_idle Some" by (simp add: hlt_idle_def hlt_keeps_def)
  from configuration_invariant [OF run running_kernel_ok this]
  show ?thesis using st s'(2) rc(2) h by (auto simp: bytes_at_def)
qed

end
