(* ===== verification/Doubles.thy ===== *)
theory Doubles
  imports Prelude "HOL-Library.Log_Nat"
begin

text \<open>
  Floating point, as far as \<open>ftos\<close> of \<open>drivers/output/vga.c\<close> needs it: rounding to nearest, ties to even, with gradual
  underflow.  C lets the compiler evaluate \<open>double\<close> in a wider format, and this build (\<open>-mno-sse\<close>) uses the x87 unit, so
  the format of evaluation is an argument.  Every finite number of a format is a whole multiple of the smallest positive
  one, 2 to the power \<open>- tiny f\<close>, so the absolute value of a number is the natural number of these units.  Overflow to
  infinity is not part of this theory: \<open>ftos\<close> only divides by 10, subtracts, and multiplies a number below 1 by 10.
\<close>

datatype fp_format = Binary64 | X87_extended

text \<open>The bits of the significand behind the first one, and the exponent of the unit.\<close>

fun fbits :: "fp_format \<Rightarrow> nat" where
  "fbits Binary64 = 52"
| "fbits X87_extended = 63"

fun tiny :: "fp_format \<Rightarrow> nat" where
  "tiny Binary64 = 1074"
| "tiny X87_extended = 16445"

definition one :: "fp_format \<Rightarrow> nat" where "one f = 2 ^ tiny f"

lemma fbits_ge: "52 \<le> fbits f"
  by (cases f) simp_all

lemma tiny_ge: "1074 \<le> tiny f"
  by (cases f) simp_all

text \<open>
  Sign and absolute value of the \<open>double\<close> with the given 64 bits, or \<open>None\<close> for the infinities and the NaNs.  Every
  \<open>double\<close> is a number of both formats.
\<close>

definition double_of_bits :: "fp_format \<Rightarrow> u64 \<Rightarrow> (bool \<times> nat) option" where
  "double_of_bits f w =
    (let exponent = unat (drop_bit 52 w AND 0x7FF); fraction = unat (take_bit 52 w);
         units = (if exponent = 0 then fraction else (2 ^ 52 + fraction) * 2 ^ (exponent - 1)) in
     if exponent = 0x7FF then None else Some (bit w 63, units * 2 ^ (tiny f - 1074)))"

definition is_fp :: "fp_format \<Rightarrow> nat \<Rightarrow> bool" where
  "is_fp f k \<longleftrightarrow> (\<exists>m e. m < 2 ^ (fbits f + 1) \<and> k = m * 2 ^ e)"

text \<open>The whole number nearest to \<open>p / q\<close>, the even one of two, and the number nearest to \<open>p / q\<close> units.\<close>

definition round_div :: "nat \<Rightarrow> nat \<Rightarrow> nat" where
  "round_div p q =
    (let d = p div q; r = p mod q in if 2 * r < q \<or> (2 * r = q \<and> even d) then d else d + 1)"

definition fp_round :: "fp_format \<Rightarrow> nat \<Rightarrow> nat \<Rightarrow> nat" where
  "fp_round f p q = (let s = floorlog 2 (p div q) - (fbits f + 1) in round_div p (q * 2 ^ s) * 2 ^ s)"

section \<open>Rounding\<close>

lemma round_div_near:
  assumes "0 < q"
  shows "2 * p \<le> 2 * (round_div p q * q) + q" and "2 * (round_div p q * q) \<le> 2 * p + q"
proof -
  define a b where "a = p div q" and "b = p mod q"
  have p: "p = a * q + b" and b: "b < q" using assms by (simp_all add: a_def b_def)
  have "round_div p q = (if 2 * b < q \<or> 2 * b = q \<and> even a then a else a + 1)"
    unfolding round_div_def Let_def a_def b_def by (rule refl)
  then have "round_div p q * q = a * q \<and> 2 * b \<le> q \<or> round_div p q * q = a * q + q \<and> q \<le> 2 * b"
    by (auto simp: add_mult_distrib)
  then show "2 * p \<le> 2 * (round_div p q * q) + q" "2 * (round_div p q * q) \<le> 2 * p + q"
    using p b by linarith+
qed

lemma abs_diff_le: "2 * p \<le> 2 * x + q \<Longrightarrow> 2 * x \<le> 2 * p + q \<Longrightarrow> 2 * \<bar>int x - int p\<bar> \<le> int q" for p q x :: nat
  by presburger

lemma abs_diff_step: "k \<le> \<bar>c - r\<bar> \<Longrightarrow> 2 * \<bar>r - p\<bar> \<le> k \<Longrightarrow> \<bar>r - p\<bar> \<le> \<bar>c - p\<bar>" for c k p r :: int
  by (auto simp: abs_if split: if_splits)

lemma round_div_nearest:
  assumes "0 < q"
  shows "\<bar>int (round_div p q * q) - int p\<bar> \<le> \<bar>int (c * q) - int p\<bar>"
proof (cases "c = round_div p q")
  case False
  let ?r = "round_div p q"
  have "int q \<le> \<bar>int (c * q) - int (?r * q)\<bar>"
  proof -
    have "1 \<le> \<bar>int c - int ?r\<bar>" using False by simp
    then have "int q * 1 \<le> int q * \<bar>int c - int ?r\<bar>" by (intro mult_left_mono) simp_all
    also have "\<dots> = \<bar>int q * (int c - int ?r)\<bar>" by (simp add: abs_mult)
    also have "int q * (int c - int ?r) = int (c * q) - int (?r * q)" by (simp add: algebra_simps)
    finally show ?thesis by simp
  qed
  moreover have "2 * \<bar>int (?r * q) - int p\<bar> \<le> int q" using round_div_near [OF assms, of p] by (rule abs_diff_le)
  ultimately show ?thesis by (rule abs_diff_step)
qed simp

lemma floorlog_div:
  assumes "q * 2 ^ (fbits f + 1) \<le> p" and "0 < q"
  obtains s where "floorlog 2 (p div q) = s + fbits f + 1" and "q * 2 ^ (s + fbits f) \<le> p" and "p < q * 2 ^ (s + fbits f + 1)"
proof -
  let ?b = "floorlog 2 (p div q)"
  have g: "2 ^ (fbits f + 1) \<le> p div q" using assms by (simp add: less_eq_div_iff_mult_less_eq mult.commute)
  then have pos: "0 < p div q" using zero_less_power [of "2 :: nat" "fbits f + 1"] by linarith
  from floorlog_bounds [OF this, of 2] have b: "2 ^ (?b - 1) \<le> p div q" "p div q < 2 ^ ?b" by simp_all
  have "(2 :: nat) ^ (fbits f + 1) < 2 ^ ?b" using g b(2) by linarith
  then have "fbits f + 1 < ?b" by (simp only: power_strict_increasing_iff)
  then have s: "?b = (?b - (fbits f + 1)) + fbits f + 1" by simp
  define s where "s = ?b - (fbits f + 1)"
  have s: "?b = s + fbits f + 1" using s by (simp only: s_def)
  have e: "s + fbits f + 1 - 1 = s + fbits f" by simp
  have "2 ^ (s + fbits f) * q \<le> p" using b(1) assms(2) unfolding s e by (simp only: less_eq_div_iff_mult_less_eq)
  moreover have "p < 2 ^ (s + fbits f + 1) * q" using b(2) assms(2) unfolding s by (simp add: div_less_iff_less_mult)
  ultimately show thesis using that s by (simp add: mult.commute)
qed

text \<open>The two cases: numbers that fit the significand are rounded to units, the others to its length.\<close>

lemma fp_round_cases:
  assumes "0 < q"
  obtains (units) "p < q * 2 ^ (fbits f + 1)" and "fp_round f p q = round_div p q"
    | (normal) s where "q * 2 ^ (s + fbits f) \<le> p" and "p < q * 2 ^ (s + fbits f + 1)"
      and "fp_round f p q = round_div p (q * 2 ^ s) * 2 ^ s"
proof (cases "p < q * 2 ^ (fbits f + 1)")
  case True
  then have "p div q < 2 ^ (fbits f + 1)" using assms by (simp add: div_less_iff_less_mult mult.commute)
  then have "floorlog 2 (p div q) \<le> fbits f + 1" by (intro floorlog_leI) simp_all
  then show thesis using units True by (simp add: fp_round_def)
next
  case False
  then obtain s where "floorlog 2 (p div q) = s + fbits f + 1" "q * 2 ^ (s + fbits f) \<le> p" "p < q * 2 ^ (s + fbits f + 1)"
    using floorlog_div [where q = q and p = p and f = f] assms by auto
  then show thesis using normal [of s] by (simp add: fp_round_def)
qed

lemma round_div_le:
  assumes "0 < q" and "p \<le> c * q"
  shows "round_div p q \<le> c"
proof -
  have "\<bar>int (round_div p q * q) - int p\<bar> \<le> int (c * q) - int p"
    using round_div_nearest [OF assms(1), of p c] assms(2) by (simp only: of_nat_le_iff abs_of_nonneg diff_ge_0_iff_ge)
  then have "round_div p q * q \<le> c * q" by linarith
  then show ?thesis using assms(1) by simp
qed

lemma is_fp_shift: "m \<le> 2 ^ (fbits f + 1) \<Longrightarrow> is_fp f (m * 2 ^ e)"
proof (cases "m = 2 ^ (fbits f + 1)")
  case True
  have "1 < (2 :: nat) ^ (fbits f + 1)" by (rule one_less_power) simp_all
  then show ?thesis
    unfolding is_fp_def True by (intro exI [of _ "1 :: nat"] exI [of _ "fbits f + 1 + e"]) (simp add: power_add)
qed (unfold is_fp_def, intro exI conjI, auto)

lemma fp_round_is_fp:
  assumes q: "0 < q"
  shows "is_fp f (fp_round f p q)"
  using q
proof (cases rule: fp_round_cases [where q = q and p = p and f = f])
  case units
  have "round_div p q \<le> 2 ^ (fbits f + 1)" using units(1) by (intro round_div_le [OF q]) (simp add: mult.commute)
  then show ?thesis using units(2) is_fp_shift [where m = "round_div p q" and e = 0] by simp
next
  case (normal s)
  have "p \<le> 2 ^ (fbits f + 1) * (q * 2 ^ s)" using normal(2) by (simp add: power_add ac_simps)
  then have "round_div p (q * 2 ^ s) \<le> 2 ^ (fbits f + 1)" using q by (intro round_div_le) simp_all
  then show ?thesis using normal(3) is_fp_shift by simp
qed

text \<open>\<open>fp_round\<close> is the rounding of the standard: no number of the format is nearer to \<open>p / q\<close>.\<close>

theorem fp_round_nearest:
  assumes "0 < q" and "is_fp f d"
  shows "\<bar>int (fp_round f p q * q) - int p\<bar> \<le> \<bar>int (d * q) - int p\<bar>"
  using assms(1)
proof (cases rule: fp_round_cases [where q = q and p = p and f = f])
  case units
  then show ?thesis using round_div_nearest [OF assms(1)] by simp
next
  case (normal s)
  obtain m e where d: "m < 2 ^ (fbits f + 1)" "d = m * 2 ^ e" using assms(2) by (auto simp: is_fp_def)
  let ?q = "q * 2 ^ s"
  have q: "0 < ?q" using assms(1) by simp
  have r: "fp_round f p q * q = round_div p ?q * ?q" by (simp add: normal(3) ac_simps)
  show ?thesis
  proof (cases "s \<le> e")
    case True
    then have "d * q = (m * 2 ^ (e - s)) * ?q" by (simp add: d(2) ac_simps flip: power_add)
    then show ?thesis using round_div_nearest [OF q, of p "m * 2 ^ (e - s)"] by (simp only: r)
  next
    case False
    have "d \<le> 2 ^ (fbits f + 1) * 2 ^ e" using d by simp
    also have "\<dots> \<le> 2 ^ (s + fbits f)" unfolding power_add [symmetric] using False by (intro power_increasing) simp_all
    finally have "d * q \<le> q * 2 ^ (s + fbits f)" by simp
    also have "\<dots> = 2 ^ fbits f * ?q" by (simp add: power_add ac_simps)
    finally have "d * q \<le> 2 ^ fbits f * ?q" .
    moreover have "2 ^ fbits f * ?q \<le> p" using normal(1) by (simp add: power_add ac_simps)
    ultimately have "\<bar>int (2 ^ fbits f * ?q) - int p\<bar> \<le> \<bar>int (d * q) - int p\<bar>" by linarith
    then show ?thesis using round_div_nearest [OF q, of p "2 ^ fbits f"] unfolding r by linarith
  qed
qed

lemma fp_round_exact: "0 < q \<Longrightarrow> is_fp f d \<Longrightarrow> fp_round f (d * q) q = d"
  using fp_round_nearest [where q = q and d = d and p = "d * q"] by simp

lemma fp_round_le:
  assumes "0 < q" and "is_fp f d" and "p \<le> d * q"
  shows "fp_round f p q \<le> d"
proof -
  have "\<bar>int (fp_round f p q * q) - int p\<bar> \<le> int (d * q) - int p"
    using fp_round_nearest [OF assms(1,2), of p] assms(3) by (simp only: of_nat_le_iff abs_of_nonneg diff_ge_0_iff_ge)
  then have "fp_round f p q * q \<le> d * q" by linarith
  then show ?thesis using assms(1) by simp
qed

lemma is_fp_mod:
  assumes "is_fp f k"
  shows "is_fp f (k mod 2 ^ n)"
proof -
  obtain m e where k: "m < 2 ^ (fbits f + 1)" "k = m * 2 ^ e" using assms by (auto simp: is_fp_def)
  show ?thesis
  proof (cases "e \<le> n")
    case True
    then have "(2 :: nat) ^ n = 2 ^ (n - e) * 2 ^ e" by (simp flip: power_add)
    then have "k mod 2 ^ n = (m mod 2 ^ (n - e)) * 2 ^ e" by (simp add: k(2) mod_mult_mult2)
    moreover have "m mod 2 ^ (n - e) \<le> 2 ^ (fbits f + 1)" using k(1) mod_less_eq_dividend le_trans less_imp_le by blast
    ultimately show ?thesis using is_fp_shift by simp
  next
    case False
    then have "k = m * 2 ^ (e - n) * 2 ^ n" by (simp add: k(2) ac_simps flip: power_add)
    then show ?thesis using is_fp_shift [where m = 0 and e = 0] by simp
  qed
qed

lemma is_fp_scale: "is_fp f k \<Longrightarrow> is_fp f (k * 2 ^ n)"
proof -
  assume "is_fp f k"
  then obtain m e where "m < 2 ^ (fbits f + 1)" "k = m * 2 ^ e" by (auto simp: is_fp_def)
  then show ?thesis unfolding is_fp_def by (intro exI [of _ m] exI [of _ "e + n"]) (simp add: power_add)
qed

lemma double_of_bits_is_fp:
  assumes "double_of_bits f w = Some (neg, k)"
  shows "is_fp f k"
proof -
  have "(2 :: nat) ^ 53 \<le> 2 ^ (fbits f + 1)" using fbits_ge [of f] by (intro power_increasing) simp_all
  moreover have "unat (take_bit 52 w) < 2 ^ 52" unfolding unsigned_take_bit_eq by (rule take_bit_nat_less_exp)
  ultimately have f: "unat (take_bit 52 w) \<le> 2 ^ (fbits f + 1)" "2 ^ 52 + unat (take_bit 52 w) \<le> 2 ^ (fbits f + 1)"
    by simp_all
  show ?thesis
    using assms is_fp_scale [OF is_fp_shift [OF f(1), where e = 0]] is_fp_scale [OF is_fp_shift [OF f(2)]]
    by (auto simp: double_of_bits_def Let_def split: if_splits)
qed

section \<open>Division by 10\<close>

lemma fp_div_10:
  "2 * fp_round f k 10 \<le> k" "14 \<le> k \<Longrightarrow> k \<le> 16 * fp_round f k 10"
proof -
  let ?r = "fp_round f k 10"
  have "2 * ?r \<le> k \<and> (14 \<le> k \<longrightarrow> k \<le> 16 * ?r)"
  proof (rule fp_round_cases [where q = 10 and p = k and f = f])
    assume "fp_round f k 10 = round_div k 10"
    then have "2 * k \<le> 20 * ?r + 10" "20 * ?r \<le> 2 * k + 10"
      using round_div_near [of 10 k] by simp_all
    then show ?thesis by (cases "?r = 0"; intro conjI impI; linarith)
  next
    fix s
    assume normal: "10 * 2 ^ (s + fbits f) \<le> k" "fp_round f k 10 = round_div k (10 * 2 ^ s) * 2 ^ s"
    define t :: nat where "t = 10 * 2 ^ s"
    have "t * 2 ^ fbits f \<le> k" using normal(1) by (simp add: t_def power_add ac_simps)
    moreover have "(2 :: nat) ^ 52 \<le> 2 ^ fbits f" using fbits_ge by (intro power_increasing) simp_all
    then have "t * 100 \<le> t * 2 ^ fbits f" by (intro mult_left_mono) simp_all
    ultimately have "t * 100 \<le> k" by linarith
    moreover have "2 * k \<le> 20 * ?r + t" "20 * ?r \<le> 2 * k + t"
      using round_div_near [of t k] unfolding normal(2) by (simp_all add: t_def ac_simps)
    ultimately show ?thesis by (intro conjI impI) linarith+
  qed simp
  then show "2 * ?r \<le> k" "14 \<le> k \<Longrightarrow> k \<le> 16 * ?r" by simp_all
qed

end
