(* ===== verification/VgaText.thy ===== *)
theory VgaText
  imports Vga Numerals Doubles
begin

text \<open>
  The second formatted output, the one at the end of \<open>drivers/output/vga.c\<close>: \<open>hex_to_str\<close>, the colour codes, and
  \<open>kprintf\<close> of that file (here \<open>vga_kprintf\<close>).  It walks through its arguments in memory, eight bytes at a time from the
  address of its first parameter on; that address and those of its local buffers are arguments.
\<close>

section \<open>Hexadecimal text\<close>

function hex_to_str_loop :: "memory \<Rightarrow> u64 \<Rightarrow> int \<Rightarrow> u32 \<Rightarrow> memory \<times> int" where
  "hex_to_str_loop m str i num =
    (if num \<noteq> 0 then
       let rem = num mod 16;
           m = m(str + of_int i := (if rem < 10 then ucast (rem + 48) else ucast ((rem - 10) + 65)))
       in hex_to_str_loop m str (i + 1) (num div 16)
     else (m, i))"
  by pat_completeness auto
termination
  by (relation "measure (\<lambda>(m, str, i, num). unat num)") (auto simp: unat_div unat_gt_0)

declare hex_to_str_loop.simps [simp del]

text \<open>The loop that turns the digits round is the one of \<open>reverse\<close>.\<close>

definition hex_to_str :: "memory \<Rightarrow> u32 \<Rightarrow> u64 \<Rightarrow> memory" where
  "hex_to_str m num str =
    (if num = 0 then m(str := ch CHR ''0'', str + 1 := 0)
     else
       let (m, i) = hex_to_str_loop m str 0 num;
           m = m(str + of_int i := 0)
       in reverse_loop m str 0 (i - 1))"

section \<open>Colours\<close>

definition color_digit :: "u8 \<Rightarrow> u8" where
  "color_digit c =
    (if sint (ch CHR ''0'') \<le> sint c \<and> sint c \<le> sint (ch CHR ''9'') then c - ch CHR ''0''
     else if sint (ch CHR ''a'') \<le> sint c \<and> sint c \<le> sint (ch CHR ''f'') then c - ch CHR ''a'' + 0xa
     else if sint (ch CHR ''A'') \<le> sint c \<and> sint c \<le> sint (ch CHR ''F'') then c - ch CHR ''A'' + 0xa
     else 0)"

definition parse_color_code :: "u8 \<Rightarrow> u8 \<Rightarrow> u8" where
  "parse_color_code bg fg =
    (let background = color_digit bg; foreground = color_digit fg
     in push_bit 4 background OR foreground)"

section \<open>Floating-point text\<close>

text \<open>
  \<open>ftos\<close>, with the format \<open>fmt\<close> in which the compiler evaluates \<open>double\<close> and absolute values in the units of \<open>Doubles\<close>.
  \<open>while (integer_part > 0)\<close> divides in floating point, so it goes on far below 1.
\<close>

function ftos_integer :: "fp_format \<Rightarrow> memory \<Rightarrow> u64 \<Rightarrow> nat \<Rightarrow> nat \<Rightarrow> memory \<times> nat" where
  "ftos_integer fmt m buf i integer_part =
    (if 0 < integer_part then
       let m = m(buf + of_nat i := of_nat (integer_part div one fmt mod 10 + 48))
       in ftos_integer fmt m buf (i + 1) (fp_round fmt integer_part 10)
     else (m, i))"
  by pat_completeness auto
termination
proof (relation "measure (\<lambda>(fmt, m, buf, i, k). k)")
  fix fmt and m m' :: memory and buf :: u64 and i k :: nat
  assume "0 < k"
  then show "((fmt, m', buf, i + 1, fp_round fmt k 10), fmt, m, buf, i, k) \<in> measure (\<lambda>(fmt, m, buf, i, k). k)"
    using fp_div_10(1) [of fmt k] by simp
qed simp

declare ftos_integer.simps [simp del]

primrec ftos_fraction :: "fp_format \<Rightarrow> memory \<Rightarrow> u64 \<Rightarrow> nat \<Rightarrow> nat \<Rightarrow> nat \<Rightarrow> memory \<times> nat" where
  "ftos_fraction fmt m buf i f 0 = (m, i)"
| "ftos_fraction fmt m buf i f (Suc n) =
    (let f = fp_round fmt (10 * f) 1;
         m = m(buf + of_nat i := of_nat (f div one fmt + 48));
         f = fp_round fmt (f - f div one fmt * one fmt) 1
     in ftos_fraction fmt m buf (i + 1) f n)"

text \<open>The conversion of a value outside the range of \<open>int\<close>, an infinity or a NaN to \<open>int\<close> is undefined.\<close>

definition ftos :: "fp_format \<Rightarrow> memory \<Rightarrow> u64 \<Rightarrow> u64 \<Rightarrow> int \<Rightarrow> memory option" where
  "ftos fmt m n buf prec =
    (case double_of_bits fmt n of
       None \<Rightarrow> None
     | Some (negative, n) \<Rightarrow>
         if 2 ^ 31 * one fmt \<le> n then None
         else
           let sign = negative \<and> n \<noteq> 0;
               integer_part = n div one fmt * one fmt;
               fractional_part = fp_round fmt (n - integer_part) 1;
               (m, i) = ftos_integer fmt m buf 0 integer_part;
               m = m(buf + of_nat i := ch CHR ''.'');
               (m, i) = ftos_fraction fmt m buf (i + 1) fractional_part (nat prec);
               (m, i) = (if sign then (m(buf + of_nat i := ch CHR ''-''), i + 1) else (m, i));
               m = fold (\<lambda>j m. m(buf + of_nat j := m (buf + of_nat (i - j - 1)), buf + of_nat (i - j - 1) := m (buf + of_nat j)))
                 [0 ..< i div 2] m
           in Some (m(buf + of_nat i := 0)))"

section \<open>The printing loop\<close>

text \<open>\<open>for (ptr = p; *ptr; ptr++) kputchar(*ptr, color)\<close>\<close>

partial_function (option) put_text :: "u64 \<Rightarrow> u8 \<Rightarrow> 'a machine_scheme \<Rightarrow> 'a machine_scheme option" where
  "put_text p color s =
    (if mem s p \<noteq> 0 then put_text (p + 1) color (kputchar (mem s p) color s) else Some s)"

text \<open>The width and the conversion character behind it; entered with \<open>c = *format++\<close> done.\<close>

partial_function (option) parse_width :: "memory \<Rightarrow> u8 \<Rightarrow> u64 \<Rightarrow> int \<Rightarrow> (int \<times> u8 \<times> u64) option" where
  "parse_width m c format wd =
    (if sint (ch CHR ''0'') \<le> sint c \<and> sint c \<le> sint (ch CHR ''9'') then do {
       w \<leftarrow> c_int (wd * 10);
       wd \<leftarrow> c_int (w + (sint c - 48));
       parse_width m (m format) (format + 1) wd }
     else Some (wd, c, format))"

text \<open>
  One conversion at the argument pointer \<open>arg\<close>.  \<open>num_buf\<close> and \<open>float_buf\<close> are the addresses of the local buffers of
  32 bytes.
\<close>

definition vga_convert ::
  "fp_format \<Rightarrow> u64 \<Rightarrow> u64 \<Rightarrow> u8 \<Rightarrow> int \<Rightarrow> u8 \<Rightarrow> u64 \<Rightarrow> 'a machine_scheme \<Rightarrow> (u64 \<times> 'a machine_scheme) option" where
  "vga_convert fmt float_buf num_buf c wd color arg s =
    (if c = ch CHR ''d'' \<or> c = ch CHR ''u'' then do {
       m \<leftarrow> intToString (mem s) (sint (rd32 (mem s) arg)) num_buf;
       s \<leftarrow> put_text num_buf color (s\<lparr>mem := m\<rparr>);
       Some (arg + 8, s) }
     else if c = ch CHR ''x'' \<or> c = ch CHR ''X'' then do {
       let m = hex_to_str (mem s) (rd32 (mem s) arg) num_buf;
       len \<leftarrow> strlen m num_buf;
       let s = fold (\<lambda>_. kputchar (ch CHR ''0'') color) [0 ..< nat (wd - len)] (s\<lparr>mem := m\<rparr>);
       s \<leftarrow> put_text num_buf color s;
       Some (arg + 8, s) }
     else if c = ch CHR ''c'' then Some (arg + 8, kputchar (ucast (rd32 (mem s) arg)) color s)
     else if c = ch CHR ''s'' then do {
       s \<leftarrow> put_text (rd64 (mem s) arg) color s;
       Some (arg + 8, s) }
     else if c = ch CHR ''f'' then do {
       m \<leftarrow> ftos fmt (mem s) (rd64 (mem s) arg) float_buf 2;
       s \<leftarrow> put_text float_buf color (s\<lparr>mem := m\<rparr>);
       Some (arg + 8, s) }
     else Some (arg, kputchar c color s))"

partial_function (option) vga_kprintf_loop ::
  "fp_format \<Rightarrow> u64 \<Rightarrow> u64 \<Rightarrow> u64 \<Rightarrow> u8 \<Rightarrow> u64 \<Rightarrow> 'a machine_scheme \<Rightarrow> 'a machine_scheme option" where
  "vga_kprintf_loop fmt float_buf num_buf format color arg s =
    (let c = mem s format; format = format + 1 in
     if c = 0 then Some s
     else if c = ch CHR ''<'' \<and> mem s format = ch CHR ''('' then
       let bg = mem s (format + 1); fg = mem s (format + 2); format = format + 3 in
       if mem s format = ch CHR '')'' \<and> mem s (format + 1) = ch CHR ''>''
       then vga_kprintf_loop fmt float_buf num_buf (format + 2) (parse_color_code bg fg) arg s
       else vga_kprintf_loop fmt float_buf num_buf format color arg (kputchar c color s)
     else if c \<noteq> ch CHR ''%'' then vga_kprintf_loop fmt float_buf num_buf format color arg (kputchar c color s)
     else
       Option.bind (parse_width (mem s) (mem s format) (format + 1) 0) (\<lambda>(wd, c, format).
       Option.bind (vga_convert fmt float_buf num_buf c wd color arg s) (\<lambda>(arg, s).
       vga_kprintf_loop fmt float_buf num_buf format color arg s)))"

text \<open>\<open>format_addr\<close> is \<open>&format\<close>; the arguments are read from behind it.\<close>

definition vga_kprintf :: "fp_format \<Rightarrow> u64 \<Rightarrow> u64 \<Rightarrow> u64 \<Rightarrow> 'a machine_scheme \<Rightarrow> 'a machine_scheme option" where
  "vga_kprintf fmt float_buf num_buf format_addr s =
    vga_kprintf_loop fmt float_buf num_buf (rd64 (mem s) format_addr) 0x07 (format_addr + 8) s"

end
