(* ===== verification/VgaTextLaws.thy ===== *)
theory VgaTextLaws
  imports VgaText StringCopy
begin

text \<open>
  Laws of the second formatted output: the text of a hexadecimal number, and how the colour codes of a format act.
\<close>

section \<open>Hexadecimal numerals\<close>

definition xdigit :: "nat \<Rightarrow> u8" where
  "xdigit d = (if d < 10 then of_nat (48 + d) else of_nat (55 + d))"

text \<open>The digits of a number, lowest first.\<close>

function xdigits :: "nat \<Rightarrow> u8 list" where
  "xdigits n = (if n = 0 then [] else xdigit (n mod 16) # xdigits (n div 16))"
  by pat_completeness auto
termination
  by (relation "measure id") auto

declare xdigits.simps [simp del]

lemma xdigits_0 [simp]: "xdigits 0 = []"
  by (simp add: xdigits.simps)

lemma xdigits_pos: "0 < n \<Longrightarrow> xdigits n = xdigit (n mod 16) # xdigits (n div 16)"
  by (simp add: xdigits.simps)

lemma xdigits_length: "n < 16 ^ k \<Longrightarrow> length (xdigits n) \<le> k"
proof (induction k arbitrary: n)
  case (Suc k)
  then have "n div 16 < 16 ^ k" by (simp add: div_less_iff_less_mult mult.commute)
  then show ?case using Suc.IH by (cases "n = 0") (simp_all add: xdigits_pos)
qed simp

lemma hex_cases:
  assumes "d < (16 :: nat)"
  obtains "d = 0" | "d = 1" | "d = 2" | "d = 3" | "d = 4" | "d = 5" | "d = 6" | "d = 7"
    | "d = 8" | "d = 9" | "d = 10" | "d = 11" | "d = 12" | "d = 13" | "d = 14" | "d = 15"
  using assms by atomize_elim presburger

text \<open>The digits that \<open>hex_to_str\<close> writes are those that \<open>parse_color_code\<close> reads.\<close>

lemma xdigit_color: "d < 16 \<Longrightarrow> unat (color_digit (xdigit d)) = d"
  by (erule hex_cases; simp add: xdigit_def color_digit_def)

lemma xdigit_nonzero: "d < 16 \<Longrightarrow> xdigit d \<noteq> 0"
  by (erule hex_cases; simp add: xdigit_def)

lemma hex_byte:
  "(if num mod 16 < 10 then ucast (num mod 16 + 48) else ucast ((num mod 16 - 10) + 65)) = xdigit (unat (num :: u32) mod 16)"
proof -
  define d where "d = unat num mod 16"
  have "unat (num mod 16) = d" by (simp add: d_def unat_mod)
  moreover have "num mod 16 = of_nat (unat (num mod 16))" by simp
  ultimately have r: "num mod 16 = of_nat d" by simp
  have "d < 16" by (simp add: d_def)
  then show ?thesis unfolding r d_def [symmetric] by (rule hex_cases) (simp_all add: xdigit_def)
qed

definition hex_value :: "u8 list \<Rightarrow> nat" where
  "hex_value = foldl (\<lambda>r d. r * 16 + unat (color_digit d)) 0"

lemma xdigits_value: "hex_value (rev (xdigits n)) = n"
proof (induction n rule: xdigits.induct)
  case (1 n)
  then show ?case by (cases "n = 0") (simp_all add: hex_value_def xdigits_pos xdigit_color)
qed

lemma xdigits_nonzero: "0 \<notin> set (xdigits n)"
proof (induction n rule: xdigits.induct)
  case (1 n)
  have "xdigit (n mod 16) \<noteq> 0" by (rule xdigit_nonzero) simp
  then show ?case using 1 by (cases "n = 0") (auto simp: xdigits_pos)
qed

section \<open>Writing the numeral\<close>

lemma hex_to_str_loop_digits:
  assumes "bytes_at m str xs" and "length xs + length (xdigits (unat num)) \<le> n" and "n < 2 ^ 31"
  obtains m' where "hex_to_str_loop m str (int (length xs)) num = (m', int (length xs + length (xdigits (unat num))))"
    and "bytes_at m' str (xs @ xdigits (unat num))" and "agree_on (- region str n) m m'"
  using assms
proof (induction "unat num" arbitrary: num m xs thesis rule: less_induct)
  case less
  show ?case
  proof (cases "num = 0")
    case True
    then show ?thesis using less.prems by (simp add: hex_to_str_loop.simps)
  next
    case False
    let ?d = "xdigit (unat num mod 16)" and ?q = "num div 16"
    let ?m = "m(str + of_nat (length xs) := ?d)"
    have pos: "0 < unat num" using False by (simp add: unat_gt_0)
    have q: "unat ?q = unat num div 16" by (simp add: unat_div)
    have x: "xdigits (unat num) = ?d # xdigits (unat ?q)" using pos by (simp add: xdigits_pos q)
    have lt: "unat ?q < unat num" using pos by (simp add: q)
    have b: "bytes_at ?m str (xs @ [?d])" using less.prems(2-4) by (intro bytes_at_snoc) simp_all
    have len: "length (xs @ [?d]) + length (xdigits (unat ?q)) \<le> n" using less.prems(3) by (simp add: x)
    obtain m' where m': "hex_to_str_loop ?m str (int (length (xs @ [?d]))) ?q =
        (m', int (length (xs @ [?d]) + length (xdigits (unat ?q))))"
      "bytes_at m' str ((xs @ [?d]) @ xdigits (unat ?q))" "agree_on (- region str n) ?m m'"
      by (rule less.hyps [OF lt _ b len less.prems(4)])
    have e: "hex_to_str_loop m str (int (length xs)) num = hex_to_str_loop ?m str (int (length (xs @ [?d]))) ?q"
      using False by (subst hex_to_str_loop.simps) (simp only: Let_def hex_byte, simp add: ac_simps)
    have "str + of_nat (length xs) \<in> region str n"
      using less.prems(3,4) by (intro offset_in_region) (simp_all add: x)
    then have "agree_on (- region str n) m ?m" by (auto simp: agree_on_def)
    then have fr: "agree_on (- region str n) m m'" using m'(3) by (rule agree_on_trans)
    show ?thesis
      by (rule less.prems(1)) (use e m'(1,2) fr in \<open>simp_all add: x\<close>)
  qed
qed

lemma reverse_loop_frame:
  "0 \<le> i \<Longrightarrow> j < int n \<Longrightarrow> n < 2 ^ 64 \<Longrightarrow> agree_on (- region str n) m (reverse_loop m str i j)"
proof (induction m str i j rule: reverse_loop.induct)
  case (1 m s i j)
  show ?case
  proof (cases "i < j")
    case True
    then obtain a b where ab: "i = int a" "j = int b" "a < n" "b < n"
      using "1.prems" by (metis nonneg_int_cases order.strict_implies_order order_less_trans order_trans of_nat_less_iff)
    let ?m = "m(s + of_int i := m (s + of_int j))"
    let ?m2 = "?m(s + of_int j := m (s + of_int i))"
    have "s + of_nat a \<in> region s n" "s + of_nat b \<in> region s n" using ab "1.prems"(3) by (simp_all add: offset_in_region)
    then have "agree_on (- region s n) m ?m2" by (auto simp: agree_on_def ab)
    moreover have "agree_on (- region s n) ?m2 (reverse_loop ?m2 s (i + 1) (j - 1))"
      using "1.IH" [OF True refl refl refl] "1.prems" by (simp add: fun_upd_def)
    ultimately show ?thesis using True by (subst reverse_loop.simps) (auto simp: Let_def intro: agree_on_trans)
  qed (simp add: reverse_loop.simps)
qed

definition upper_hex :: "u32 \<Rightarrow> u8 list" where
  "upper_hex num = (if num = 0 then [48] else rev (xdigits (unat num)))"

lemma upper_hex_length: "length (upper_hex num) \<le> 8"
proof -
  have "unat num < 2 ^ LENGTH(32)" by (rule unsigned_less)
  then have "length (xdigits (unat num)) \<le> 8" by (intro xdigits_length) simp
  then show ?thesis by (simp add: upper_hex_def)
qed

lemma hex_to_str_ok:
  "cstr (hex_to_str m num str) str (upper_hex num)" "agree_on (- region str 9) m (hex_to_str m num str)"
proof -
  have "cstr (hex_to_str m num str) str (upper_hex num) \<and> agree_on (- region str 9) m (hex_to_str m num str)"
  proof (cases "num = 0")
    case True
    have "str \<in> region str 9" "str + 1 \<in> region str 9" by (simp_all add: region_def)
    then show ?thesis using True by (auto simp: hex_to_str_def upper_hex_def agree_on_def)
  next
    case False
    let ?ds = "xdigits (unat num)"
    have len: "length ?ds \<le> 8" using upper_hex_length [of num] False by (simp add: upper_hex_def)
    obtain m1 where m1: "hex_to_str_loop m str 0 num = (m1, int (length ?ds))" "bytes_at m1 str ?ds"
      "agree_on (- region str 9) m m1"
      using hex_to_str_loop_digits [of m str "[]" num 9] len by auto
    let ?m2 = "m1(str + of_nat (length ?ds) := 0)"
    have h: "hex_to_str m num str = reverse_loop ?m2 str 0 (int (length ?ds) - 1)"
      using False m1(1) by (simp add: hex_to_str_def Let_def)
    have "bytes_at ?m2 str (?ds @ [0])" using m1(2) len by (intro bytes_at_snoc) simp_all
    then have c: "cstr ?m2 str ?ds" using xdigits_nonzero by (simp add: cstr_bytes_at)
    have l31: "length ?ds < 2 ^ 31" using len by simp
    obtain m' where "reverse ?m2 str = Some m'" "cstr m' str (rev ?ds)" by (rule reverse_cstr [OF c l31])
    then have "cstr (reverse_loop ?m2 str 0 (int (length ?ds) - 1)) str (rev ?ds)"
      using strlen_cstr [OF c l31] by (simp add: reverse_def)
    moreover have "str + of_nat (length ?ds) \<in> region str 9" using len by (intro offset_in_region) simp_all
    then have "agree_on (- region str 9) m1 ?m2" by (auto simp: agree_on_def)
    moreover have "agree_on (- region str 9) ?m2 (reverse_loop ?m2 str 0 (int (length ?ds) - 1))"
      using len by (intro reverse_loop_frame) simp_all
    ultimately show ?thesis unfolding h upper_hex_def using False m1(3) by (auto intro: agree_on_trans)
  qed
  then show "cstr (hex_to_str m num str) str (upper_hex num)" "agree_on (- region str 9) m (hex_to_str m num str)"
    by simp_all
qed

text \<open>
  C29.  \<open>hex_to_str\<close> writes the upper-case hexadecimal numeral of its argument, at most eight digits and a NUL, and nothing
  else; read digit by digit as \<open>parse_color_code\<close> reads its two characters, the numeral is the number again.
\<close>

theorem hex_to_str_numeral:
  "\<exists>ds. cstr (hex_to_str m num str) str ds \<and> hex_value ds = unat num \<and> length ds \<le> 8 \<and>
     set ds \<subseteq> set (lit ''0123456789ABCDEF'') \<and> agree_on (- region str 9) m (hex_to_str m num str)"
proof (intro exI conjI)
  show "hex_value (upper_hex num) = unat num"
    by (cases "num = 0") (simp_all add: upper_hex_def xdigits_value, simp add: hex_value_def color_digit_def)
  have "d \<in> set (lit ''0123456789ABCDEF'')" if "d \<in> set (xdigits n)" for d n
    using that
  proof (induction n rule: xdigits.induct)
    case (1 n)
    have "xdigit (n mod 16) \<in> set (lit ''0123456789ABCDEF'')"
      by (rule hex_cases [of "n mod 16"]) (simp_all add: xdigit_def)
    then show ?case using 1 by (cases "n = 0") (auto simp: xdigits_pos simp del: lit_Cons)
  qed
  then show "set (upper_hex num) \<subseteq> set (lit ''0123456789ABCDEF'')"
    by (auto simp: upper_hex_def simp del: lit_Cons) simp
qed (rule hex_to_str_ok upper_hex_length)+

section \<open>Colours in a format\<close>

text \<open>A string that the console cannot overwrite.\<close>

definition safe_text :: "'a machine_scheme \<Rightarrow> u64 \<Rightarrow> u8 list \<Rightarrow> bool" where
  "safe_text s p bs \<longleftrightarrow> cstr (mem s) p bs \<and> region p (Suc (length bs)) \<inter> video_window = {} \<and> length bs < 2 ^ 31"

lemma safe_text_tail: "safe_text s p (b # bs) \<Longrightarrow> mem s p = b \<and> b \<noteq> 0 \<and> safe_text s (p + 1) bs"
  using region_Suc [of "Suc (length bs)" p] by (auto simp: safe_text_def)

lemma safe_text_frame: "con_frame s t \<Longrightarrow> safe_text s p bs \<Longrightarrow> safe_text t p bs"
proof -
  assume f: "con_frame s t" and s: "safe_text s p bs"
  have "agree_on (region p (Suc (length bs))) (mem s) (mem t)"
    using s con_frame_mem [OF f] by (auto simp: safe_text_def agree_on_def)
  moreover have "length bs < 2 ^ 64" using s by (simp add: safe_text_def)
  ultimately show ?thesis using s cstr_agree by (auto simp: safe_text_def)
qed

definition put_colored :: "u8 \<Rightarrow> u8 list \<Rightarrow> 'a machine_scheme \<Rightarrow> 'a machine_scheme" where
  "put_colored color = fold (\<lambda>b. kputchar b color)"

lemma con_frame_put_colored [simp]: "con_frame s (put_colored color bs s)"
  unfolding put_colored_def by (rule con_frame_fold) simp

lemma vga_loop_text:
  assumes "safe_text s p (bs @ cs)" and "37 \<notin> set bs" and "60 \<notin> set bs"
  shows "vga_kprintf_loop fmt fb nb p color arg s =
      vga_kprintf_loop fmt fb nb (p + of_nat (length bs)) color arg (put_colored color bs s) \<and>
    safe_text (put_colored color bs s) (p + of_nat (length bs)) cs"
  using assms
proof (induction bs arbitrary: p s)
  case (Cons b bs)
  note tl = safe_text_tail [of s p b "bs @ cs"]
  have s: "safe_text (kputchar b color s) (p + 1) (bs @ cs)"
    using Cons.prems(1) tl by (auto intro: safe_text_frame [OF con_frame_kputchar])
  have "vga_kprintf_loop fmt fb nb p color arg s = vga_kprintf_loop fmt fb nb (p + 1) color arg (kputchar b color s)"
    using Cons.prems tl by (subst vga_kprintf_loop.simps) (simp add: Let_def)
  then show ?case using Cons.IH [OF s] Cons.prems(2,3) by (simp add: put_colored_def add.assoc)
qed (simp add: put_colored_def)

text \<open>A piece of a format: a colour code and the text behind it.\<close>

type_synonym colored = "u8 \<times> u8 \<times> u8 list"

definition piece_bytes :: "colored \<Rightarrow> u8 list" where
  "piece_bytes x = (case x of (bg, fg, tx) \<Rightarrow> [60, 40, bg, fg, 41, 62] @ tx)"

text \<open>The attribute byte that a colour code names: background in the high nibble, and 0 for what is not a digit.\<close>

definition hex_place :: "u8 \<Rightarrow> nat" where
  "hex_place c =
    (case map_of (zip (lit ''0123456789abcdefABCDEF'') [0, 1, 2, 3, 4, 5, 6, 7, 8, 9, 10, 11, 12, 13, 14, 15, 10, 11, 12, 13, 14, 15]) c of Some d \<Rightarrow> d | None \<Rightarrow> 0)"

definition put_piece :: "colored \<Rightarrow> 'a machine_scheme \<Rightarrow> 'a machine_scheme" where
  "put_piece x = (case x of (bg, fg, tx) \<Rightarrow> put_colored (of_nat (16 * hex_place bg + hex_place fg)) tx)"

lemma hex_digit_range:
  assumes "k \<le> sint (c :: u8)" and "sint c \<le> k + int n"
  shows "c \<in> set (map (\<lambda>i. word_of_int (k + int i)) [0 ..< Suc n])"
proof -
  have "c = word_of_int (k + int (nat (sint c - k)))" using assms(1) by simp
  moreover have "nat (sint c - k) \<in> set [0 ..< Suc n]" using assms by (simp only: set_upt atLeastLessThan_iff) linarith
  ultimately show ?thesis unfolding set_map by (rule image_eqI)
qed

lemma color_digit_hex: "color_digit c = of_nat (hex_place c) \<and> hex_place c < 16"
proof (cases "c \<in> set (lit ''0123456789abcdefABCDEF'')")
  case True
  have "\<forall>c \<in> set (lit ''0123456789abcdefABCDEF''). color_digit c = of_nat (hex_place c) \<and> hex_place c < 16"
    by (simp add: color_digit_def hex_place_def)
  then show ?thesis using True by (rule bspec)
next
  case False
  have "hex_place c = 0" using False by (simp add: hex_place_def)
  moreover have "\<not> (48 \<le> sint c \<and> sint c \<le> 57)" "\<not> (97 \<le> sint c \<and> sint c \<le> 102)" "\<not> (65 \<le> sint c \<and> sint c \<le> 70)"
    using False hex_digit_range [of 48 c 9] hex_digit_range [of 97 c 5] hex_digit_range [of 65 c 5]
    by (auto simp: upt_rec)
  ultimately show ?thesis by (simp add: color_digit_def) blast
qed

lemma parse_color_code_hex: "parse_color_code bg fg = of_nat (16 * hex_place bg + hex_place fg)"
proof -
  have "list_all (\<lambda>a. list_all (\<lambda>b. push_bit 4 (of_nat a :: u8) OR of_nat b = of_nat (16 * a + b)) [0 ..< 16]) [0 ..< 16]"
    by code_simp
  then have "\<forall>a \<in> {0 ..< 16}. \<forall>b \<in> {0 ..< 16}. push_bit 4 (of_nat a :: u8) OR of_nat b = of_nat (16 * a + b)"
    by (simp only: list_all_iff set_upt)
  moreover have "hex_place bg \<in> {0 ..< 16}" "hex_place fg \<in> {0 ..< 16}" by (simp_all add: color_digit_hex)
  ultimately have "push_bit 4 (of_nat (hex_place bg) :: u8) OR of_nat (hex_place fg) = of_nat (16 * hex_place bg + hex_place fg)"
    by blast
  then show ?thesis by (simp only: parse_color_code_def Let_def color_digit_hex)
qed

lemma vga_loop_code:
  assumes "safe_text s p ([60, 40, bg, fg, 41, 62] @ cs)"
  shows "vga_kprintf_loop fmt fb nb p color arg s = vga_kprintf_loop fmt fb nb (p + 6) (parse_color_code bg fg) arg s \<and>
    safe_text s (p + 6) cs"
proof -
  have s0: "safe_text s p (60 # 40 # bg # fg # 41 # 62 # cs)" using assms by simp
  note s1 = safe_text_tail [OF s0]
  note s2 = safe_text_tail [OF conjunct2 [OF conjunct2 [OF s1]]]
  note s3 = safe_text_tail [OF conjunct2 [OF conjunct2 [OF s2]]]
  note s4 = safe_text_tail [OF conjunct2 [OF conjunct2 [OF s3]]]
  note s5 = safe_text_tail [OF conjunct2 [OF conjunct2 [OF s4]]]
  note s6 = safe_text_tail [OF conjunct2 [OF conjunct2 [OF s5]]]
  have "mem s p = 60" "mem s (p + 1) = 40" "mem s (p + 2) = bg" "mem s (p + 3) = fg" "mem s (p + 4) = 41"
    "mem s (p + 5) = 62" "safe_text s (p + 6) cs"
    using s1 s2 s3 s4 s5 s6 by (simp_all add: add.assoc)
  then show ?thesis by (subst vga_kprintf_loop.simps) (simp add: Let_def add.assoc)
qed

lemma vga_loop_pieces:
  assumes "safe_text s p (concat (map piece_bytes xs))" and "\<forall>(bg, fg, tx) \<in> set xs. 37 \<notin> set tx \<and> 60 \<notin> set tx"
  shows "vga_kprintf_loop fmt fb nb p color arg s = Some (fold put_piece xs s)"
  using assms
proof (induction xs arbitrary: s p color)
  case Nil
  then show ?case by (subst vga_kprintf_loop.simps) (simp add: safe_text_def Let_def)
next
  case (Cons x xs)
  obtain bg fg tx where x: "x = (bg, fg, tx)" by (cases x)
  let ?cs = "concat (map piece_bytes xs)"
  have pb: "piece_bytes x = [60, 40, bg, fg, 41, 62] @ tx" by (simp add: x piece_bytes_def)
  have s: "safe_text s p ([60, 40, bg, fg, 41, 62] @ (tx @ ?cs))"
    using Cons.prems(1) by (simp add: pb)
  note c = vga_loop_code [OF s, of fmt fb nb color arg]
  have t: "37 \<notin> set tx" "60 \<notin> set tx" using Cons.prems(2) by (simp_all add: x)
  note tx = vga_loop_text [OF conjunct2 [OF c] t, of fmt fb nb "parse_color_code bg fg" arg]
  have "vga_kprintf_loop fmt fb nb (p + 6 + of_nat (length tx)) (parse_color_code bg fg) arg
      (put_colored (parse_color_code bg fg) tx s) = Some (fold put_piece xs (put_colored (parse_color_code bg fg) tx s))"
    by (rule Cons.IH [OF conjunct2 [OF tx]]) (use Cons.prems(2) in simp)
  moreover have "put_piece x s = put_colored (parse_color_code bg fg) tx s"
    by (simp add: x put_piece_def parse_color_code_hex)
  ultimately show ?case using c tx by simp
qed

text \<open>
  Colour codes: a format of \<open>vga_kprintf\<close> that has no conversion and consists of plain text and then pieces
  \<open><(bf)>text\<close> is printed completely, the plain text in light grey on black and the text of every piece in the
  colours that its code names: \<open>b\<close> the background and \<open>f\<close> the foreground, read as hexadecimal digits of either case;
  the codes themselves are not printed.
\<close>

theorem vga_kprintf_colors:
  assumes "rd64 (mem s) format_addr = p" and "cstr (mem s) p (tx @ concat (map piece_bytes xs))"
    and "region p (Suc (length (tx @ concat (map piece_bytes xs)))) \<inter> video_window = {}"
    and "length (tx @ concat (map piece_bytes xs)) < 2 ^ 31"
    and "37 \<notin> set tx \<and> 60 \<notin> set tx" and "\<forall>(bg, fg, tx) \<in> set xs. 37 \<notin> set tx \<and> 60 \<notin> set tx"
  shows "vga_kprintf fmt float_buf num_buf format_addr s = Some (fold put_piece xs (put_colored 0x07 tx s))"
proof -
  have s: "safe_text s p (tx @ concat (map piece_bytes xs))" using assms(2-4) by (simp add: safe_text_def)
  note t = vga_loop_text [OF s conjunct1 [OF assms(5)] conjunct2 [OF assms(5)], of fmt float_buf num_buf 7 "format_addr + 8"]
  show ?thesis
    using t vga_loop_pieces [OF conjunct2 [OF t] assms(6), of fmt float_buf num_buf 7 "format_addr + 8"]
    by (simp add: vga_kprintf_def assms(1))
qed

text \<open>The format \<open>a<(1F)>b\<close>.\<close>

definition colored_machine :: machine where
  "colored_machine = boot_machine\<lparr>mem := (\<lambda>_. 0)(0x400002 := 0x50, 0x500000 := 97, 0x500001 := 60, 0x500002 := 40,
     0x500003 := 49, 0x500004 := 70, 0x500005 := 41, 0x500006 := 62, 0x500007 := 98)\<rparr>"

theorem vga_kprintf_colors_witness:
  "vga_kprintf X87_extended 0x700000 0x600000 0x400000 colored_machine = Some (kputchar 98 0x1F (kputchar 97 0x07 colored_machine))"
proof -
  let ?p = "0x500000 :: u64" and ?xs = "[(49, 70, [98])] :: colored list"
  have a: "rd64 (mem colored_machine) 0x400000 = ?p" by (simp add: colored_machine_def rd64_def rd32_def)
  have c: "cstr (mem colored_machine) ?p ([97] @ concat (map piece_bytes ?xs))"
    by (simp add: colored_machine_def piece_bytes_def)
  have r: "region ?p (Suc (length ([97] @ concat (map piece_bytes ?xs)))) \<inter> video_window = {}"
  proof -
    have "Suc (length ([97] @ concat (map piece_bytes ?xs))) = 9" by (simp add: piece_bytes_def)
    then show ?thesis
      using region_of_nat_disjoint [of "0xb8000" 65537 "0x500000" 9]
      by (simp add: video_window_def VIDEO_ADDRESS_def Int_commute)
  qed
  have l: "length ([97] @ concat (map piece_bytes ?xs)) < 2 ^ 31" by (simp add: piece_bytes_def)
  have "hex_place 49 = 1" "hex_place 70 = 15" by code_simp+
  then show ?thesis
    using vga_kprintf_colors [OF a c r l, of X87_extended "0x700000" "0x600000"] by (simp add: put_piece_def put_colored_def)
qed

end
