(* ===== verification/FtosLaws.thy ===== *)
theory FtosLaws
  imports VgaTextLaws
begin

text \<open>
  \<open>ftos\<close> of \<open>drivers/output/vga.c\<close>: the text it writes, which is reversed as a whole, fraction first; and how many bytes it
  writes, which is far more than its caller has room for unless the number is below 1.
\<close>

section \<open>The digits\<close>

function integer_digits :: "fp_format \<Rightarrow> nat \<Rightarrow> u8 list" where
  "integer_digits fmt k =
    (if k = 0 then [] else of_nat (k div one fmt mod 10 + 48) # integer_digits fmt (fp_round fmt k 10))"
  by pat_completeness auto
termination
proof (relation "measure snd")
  fix fmt and k :: nat
  assume "k \<noteq> 0"
  then show "((fmt, fp_round fmt k 10), fmt, k) \<in> measure snd" using fp_div_10(1) [of fmt k] by simp
qed simp

declare integer_digits.simps [simp del]

primrec fraction_digits :: "fp_format \<Rightarrow> nat \<Rightarrow> nat \<Rightarrow> u8 list" where
  "fraction_digits fmt 0 x = []"
| "fraction_digits fmt (Suc n) x =
    (let y = fp_round fmt (10 * x) 1 in of_nat (y div one fmt + 48) # fraction_digits fmt n (y mod one fmt))"

lemma integer_digits_0 [simp]: "integer_digits fmt 0 = []"
  by (simp add: integer_digits.simps)

lemma integer_digits_pos:
  "0 < k \<Longrightarrow> integer_digits fmt k = of_nat (k div one fmt mod 10 + 48) # integer_digits fmt (fp_round fmt k 10)"
  by (simp add: integer_digits.simps)

lemma fraction_digits_length [simp]: "length (fraction_digits fmt n x) = n"
  by (induction n arbitrary: x) (simp_all add: Let_def)

lemma integer_digits_most: "k < 2 ^ n \<Longrightarrow> length (integer_digits fmt k) \<le> n"
proof (induction n arbitrary: k)
  case (Suc n)
  have "fp_round fmt k 10 < 2 ^ n" using Suc.prems fp_div_10(1) [of fmt k] by simp
  then show ?case using Suc.IH by (cases "k = 0") (simp_all add: integer_digits_pos)
qed simp

text \<open>A division by 10 that rounds to nearest loses less than four bits.\<close>

lemma integer_digits_least: "2 ^ (4 * n + 4) \<le> k \<Longrightarrow> n < length (integer_digits fmt k)"
proof (induction n arbitrary: k)
  case 0
  then show ?case by (simp add: integer_digits_pos)
next
  case (Suc n)
  have "(2 :: nat) ^ (4 * Suc n + 4) = 16 * 2 ^ (4 * n + 4)" by (simp add: power_add)
  then have k: "16 * 2 ^ (4 * n + 4) \<le> k" using Suc.prems by simp
  have "1 \<le> (2 :: nat) ^ (4 * n + 4)" by simp
  then have "14 \<le> k" using k by linarith
  then have "k \<le> 16 * fp_round fmt k 10" by (rule fp_div_10(2))
  then have "2 ^ (4 * n + 4) \<le> fp_round fmt k 10" using k by linarith
  then show ?case using Suc.IH \<open>14 \<le> k\<close> by (simp add: integer_digits_pos)
qed

section \<open>Writing them\<close>

lemma write_step:
  assumes "bytes_at m buf xs" and "length xs < n" and "n < 2 ^ 63"
  shows "bytes_at (m(buf + of_nat (length xs) := v)) buf (xs @ [v])"
    and "agree_on (- region buf n) m (m(buf + of_nat (length xs) := v))"
proof -
  have "buf + of_nat (length xs) \<in> region buf n" using assms(2,3) by (intro offset_in_region) simp_all
  then show "agree_on (- region buf n) m (m(buf + of_nat (length xs) := v))" by (auto simp: agree_on_def)
qed (use assms in \<open>auto intro: bytes_at_snoc\<close>)

lemma ftos_integer_writes:
  assumes "bytes_at m buf xs" and "length xs + length (integer_digits fmt k) \<le> n" and "n < 2 ^ 63"
  obtains m' where "ftos_integer fmt m buf (length xs) k = (m', length xs + length (integer_digits fmt k))"
    and "bytes_at m' buf (xs @ integer_digits fmt k)" and "agree_on (- region buf n) m m'"
  using assms
proof (induction k arbitrary: m xs thesis rule: less_induct)
  case (less k)
  show ?case
  proof (cases "k = 0")
    case True
    then show ?thesis using less.prems by (simp add: ftos_integer.simps)
  next
    case False
    let ?d = "of_nat (k div one fmt mod 10 + 48) :: u8" and ?k = "fp_round fmt k 10"
    let ?m = "m(buf + of_nat (length xs) := ?d)"
    have x: "integer_digits fmt k = ?d # integer_digits fmt ?k" using False by (simp add: integer_digits_pos)
    have lt: "?k < k" using False fp_div_10(1) [of fmt k] by simp
    have l: "length xs < n" using less.prems(3) by (simp add: x)
    note w = write_step [OF less.prems(2) l less.prems(4), of ?d]
    have len: "length (xs @ [?d]) + length (integer_digits fmt ?k) \<le> n" using less.prems(3) by (simp add: x)
    obtain m' where m': "ftos_integer fmt ?m buf (length (xs @ [?d])) ?k =
        (m', length (xs @ [?d]) + length (integer_digits fmt ?k))"
      "bytes_at m' buf ((xs @ [?d]) @ integer_digits fmt ?k)" "agree_on (- region buf n) ?m m'"
      by (rule less.IH [OF lt _ w(1) len less.prems(4)])
    have "ftos_integer fmt m buf (length xs) k = ftos_integer fmt ?m buf (length (xs @ [?d])) ?k"
      using False by (subst ftos_integer.simps) (simp add: Let_def)
    then show ?thesis using m' agree_on_trans [OF w(2) m'(3)] by (intro less.prems(1) [of m']) (simp_all add: x)
  qed
qed

lemma one_pos [simp]: "0 < one fmt"
  by (simp add: one_def)

lemma fp_mod_one: "is_fp fmt y \<Longrightarrow> fp_round fmt (y - y div one fmt * one fmt) 1 = y mod one fmt"
  using fp_round_exact [of 1 fmt "y mod one fmt"] is_fp_mod [of fmt y "tiny fmt"]
  by (simp add: minus_div_mult_eq_mod one_def)

lemma ftos_fraction_writes:
  assumes "bytes_at m buf xs" and "length xs + p \<le> n" and "n < 2 ^ 63"
  obtains m' where "ftos_fraction fmt m buf (length xs) x p = (m', length xs + p)"
    and "bytes_at m' buf (xs @ fraction_digits fmt p x)" and "agree_on (- region buf n) m m'"
  using assms
proof (induction p arbitrary: m xs x thesis)
  case 0
  then show ?case by simp
next
  case (Suc p)
  define y where "y = fp_round fmt (10 * x) 1"
  let ?d = "of_nat (y div one fmt + 48) :: u8"
  let ?m = "m(buf + of_nat (length xs) := ?d)"
  have l: "length xs < n" using Suc.prems(3) by simp
  note w = write_step [OF Suc.prems(2) l Suc.prems(4), of ?d]
  have f: "fraction_digits fmt (Suc p) x = ?d # fraction_digits fmt p (y mod one fmt)"
    by (simp add: y_def Let_def)
  have len: "length (xs @ [?d]) + p \<le> n" using Suc.prems(3) by simp
  obtain m' where m': "ftos_fraction fmt ?m buf (length (xs @ [?d])) (y mod one fmt) p = (m', length (xs @ [?d]) + p)"
    "bytes_at m' buf ((xs @ [?d]) @ fraction_digits fmt p (y mod one fmt))" "agree_on (- region buf n) ?m m'"
    by (rule Suc.IH [OF _ w(1) len Suc.prems(4)])
  have "is_fp fmt y" unfolding y_def by (rule fp_round_is_fp) simp
  then have "ftos_fraction fmt m buf (length xs) x (Suc p) = ftos_fraction fmt ?m buf (length (xs @ [?d])) (y mod one fmt) p"
    unfolding ftos_fraction.simps Let_def y_def [symmetric] by (simp only: fp_mod_one length_append_singleton Suc_eq_plus1)
  then show ?case using m' agree_on_trans [OF w(2) m'(3)] by (intro Suc.prems(1) [of m']) (simp_all only: f, simp_all)
qed

text \<open>The loop that turns the text round is \<open>reverse_loop\<close>, counted differently.\<close>

lemma swap_fold:
  "j \<le> n div 2 \<Longrightarrow>
    fold (\<lambda>j m. m(p + of_nat j := m (p + of_nat (n - j - 1)), p + of_nat (n - j - 1) := m (p + of_nat j))) [j ..< n div 2] m =
    reverse_loop m p (int j) (int n - 1 - int j)"
proof (induction "n div 2 - j" arbitrary: j m)
  case 0
  then have "\<not> int j < int n - 1 - int j" by linarith
  then show ?case using 0 by (simp add: reverse_loop.simps)
next
  case (Suc d)
  have j: "j < n div 2" using Suc.hyps(2) by linarith
  let ?m = "m(p + of_nat j := m (p + of_nat (n - j - 1)), p + of_nat (n - j - 1) := m (p + of_nat j))"
  have e: "int n - 1 - int j = int (n - j - 1)" using j by (simp add: of_nat_diff)
  have "fold (\<lambda>j m. m(p + of_nat j := m (p + of_nat (n - j - 1)), p + of_nat (n - j - 1) := m (p + of_nat j)))
      [Suc j ..< n div 2] ?m = reverse_loop ?m p (int (Suc j)) (int n - 1 - int (Suc j))"
    by (rule Suc.hyps(1)) (use Suc.hyps(2) j in simp_all)
  moreover have "reverse_loop m p (int j) (int n - 1 - int j) = reverse_loop ?m p (int (Suc j)) (int n - 1 - int (Suc j))"
  proof -
    have "int j < int (n - j - 1)" using j by linarith
    moreover have "int (n - j - 1) - 1 = int n - 1 - int (Suc j)" "int j + 1 = int (Suc j)" using j by linarith+
    ultimately show ?thesis unfolding e
      by (subst reverse_loop.simps) (simp only: Let_def of_int_of_nat_eq if_True)
  qed
  ultimately show ?case using j by (simp add: upt_conv_Cons)
qed

section \<open>The text\<close>

lemma integer_digits_nonzero: "0 \<notin> set (integer_digits fmt k)"
proof (induction k rule: less_induct)
  case (less k)
  have "(of_nat (k div one fmt mod 10 + 48) :: u8) \<noteq> 0"
    using of_nat_inj_small [of "k div one fmt mod 10 + 48" 0, where 'a = 8] by (simp del: of_nat_add)
  then show ?case using less fp_div_10(1) [of fmt k] by (cases "k = 0") (auto simp: integer_digits_pos)
qed

lemma is_fp_small: "m < 2 ^ 52 \<Longrightarrow> is_fp fmt (m * 2 ^ e)"
proof -
  assume "m < 2 ^ 52"
  moreover have "(2 :: nat) ^ 52 \<le> 2 ^ (fbits fmt + 1)" using fbits_ge [of fmt] by (intro power_increasing) simp_all
  ultimately show ?thesis by (intro is_fp_shift) linarith
qed

lemma fraction_digits_nonzero: "x < one fmt \<Longrightarrow> 0 \<notin> set (fraction_digits fmt p x)"
proof (induction p arbitrary: x)
  case (Suc p)
  define y where "y = fp_round fmt (10 * x) 1"
  have "is_fp fmt (10 * one fmt)" using is_fp_small [of 10 fmt "tiny fmt"] by (simp add: one_def)
  then have "y \<le> 10 * one fmt" unfolding y_def using Suc.prems by (intro fp_round_le) simp_all
  then have "y div one fmt \<le> 10" using div_le_mono [of y "10 * one fmt" "one fmt"] by simp
  then have "(of_nat (y div one fmt + 48) :: u8) \<noteq> 0"
    using of_nat_inj_small [of "y div one fmt + 48" 0, where 'a = 8] by (simp del: of_nat_add)
  moreover have "0 \<notin> set (fraction_digits fmt p (y mod one fmt))" by (rule Suc.IH) simp
  ultimately show ?case unfolding fraction_digits.simps Let_def y_def [symmetric] by simp
qed simp

text \<open>The text before it is turned round, and after.\<close>

definition ftos_raw :: "fp_format \<Rightarrow> bool \<Rightarrow> nat \<Rightarrow> nat \<Rightarrow> u8 list" where
  "ftos_raw fmt neg p k =
    integer_digits fmt (k div one fmt * one fmt) @ [46] @ fraction_digits fmt p (k mod one fmt) @
      (if neg \<and> k \<noteq> 0 then [45] else [])"

lemma ftos_writes:
  assumes w: "double_of_bits fmt w = Some (neg, k)" and k: "k < 2 ^ 31 * one fmt" and p: "p < 2 ^ 31"
  obtains m' where "ftos fmt m w buf (int p) = Some m'" and "cstr m' buf (rev (ftos_raw fmt neg p k))"
    and "agree_on (- region buf (Suc (length (ftos_raw fmt neg p k)))) m m'"
proof -
  let ?ds = "integer_digits fmt (k div one fmt * one fmt)" and ?fs = "fraction_digits fmt p (k mod one fmt)"
  let ?sg = "if neg \<and> k \<noteq> 0 then [45 :: u8] else []" and ?raw = "ftos_raw fmt neg p k"
  let ?n = "Suc (length ?raw)"
  have "k div one fmt * one fmt < 2 ^ (31 + tiny fmt)"
    using le_less_trans [OF div_times_less_eq_dividend k] by (simp only: one_def power_add)
  from integer_digits_most [OF this] have "length ?ds \<le> 31 + tiny fmt" .
  moreover have "tiny fmt \<le> 16445" by (cases fmt) simp_all
  ultimately have n: "?n < 2 ^ 63" using p by (auto simp: ftos_raw_def)
  obtain m1 where m1: "ftos_integer fmt m buf 0 (k div one fmt * one fmt) = (m1, length ?ds)" "bytes_at m1 buf ?ds"
    "agree_on (- region buf ?n) m m1"
    using ftos_integer_writes [of m buf "[]" fmt "k div one fmt * one fmt" ?n] n by (auto simp: ftos_raw_def)
  let ?m2 = "m1(buf + of_nat (length ?ds) := 46)"
  have m2: "bytes_at ?m2 buf (?ds @ [46])" "agree_on (- region buf ?n) m1 ?m2"
    using write_step [OF m1(2) _ n] by (simp_all add: ftos_raw_def)
  obtain m3 where m3: "ftos_fraction fmt ?m2 buf (length (?ds @ [46])) (k mod one fmt) p = (m3, length (?ds @ [46]) + p)"
    "bytes_at m3 buf ((?ds @ [46]) @ ?fs)" "agree_on (- region buf ?n) ?m2 m3"
    by (rule ftos_fraction_writes [OF m2(1) _ n, of p fmt "k mod one fmt"]) (auto simp: ftos_raw_def)
  define m4 where "m4 = (if neg \<and> k \<noteq> 0 then m3(buf + of_nat (length (?ds @ [46]) + p) := 45) else m3)"
  have m4: "bytes_at m4 buf ?raw" "agree_on (- region buf ?n) m3 m4"
    using m3(2) write_step [OF m3(2) _ n, of 45] by (auto simp: m4_def ftos_raw_def)
  let ?m5 = "reverse_loop m4 buf 0 (int (length ?raw) - 1)"
  have m5: "bytes_at ?m5 buf (rev ?raw)"
    using reverse_loop_bytes [of m4 buf "[]" ?raw "[]"] m4(1) n by simp
  have f5: "agree_on (- region buf ?n) m4 ?m5" using n by (intro reverse_loop_frame) simp_all
  let ?m6 = "?m5(buf + of_nat (length ?raw) := 0)"
  have b6: "bytes_at ?m6 buf (rev ?raw @ [0])" "agree_on (- region buf ?n) ?m5 ?m6"
    using write_step [OF m5, of ?n 0] n by simp_all
  have "0 \<notin> set ?raw"
    using integer_digits_nonzero fraction_digits_nonzero by (auto simp: ftos_raw_def)
  then have c6: "cstr ?m6 buf (rev ?raw)" using b6(1) by (simp add: cstr_bytes_at)
  note m6 = c6 agree_on_trans [OF m1(3) agree_on_trans [OF m2(2) agree_on_trans [OF m3(3) agree_on_trans
    [OF m4(2) agree_on_trans [OF f5 b6(2)]]]]]
  let ?i = "length (?ds @ [46])"
  have "fp_round fmt (k - k div one fmt * one fmt) 1 = k mod one fmt"
    by (rule fp_mod_one [OF double_of_bits_is_fp [OF w]])
  then have h2: "ftos_fraction fmt (m1(buf + of_nat (length ?ds) := ch CHR ''.'')) buf (length ?ds + 1)
      (fp_round fmt (k - k div one fmt * one fmt) 1) (nat (int p)) = (m3, ?i + p)"
    using m3(1) by simp
  have h4: "(if neg \<and> k \<noteq> 0 then (m3(buf + of_nat (?i + p) := ch CHR ''-''), ?i + p + 1) else (m3, ?i + p)) =
      (m4, length ?raw)"
    by (simp add: m4_def ftos_raw_def)
  have h5: "fold (\<lambda>j m. m(buf + of_nat j := m (buf + of_nat (length ?raw - j - 1)),
      buf + of_nat (length ?raw - j - 1) := m (buf + of_nat j))) [0 ..< length ?raw div 2] m4 = ?m5"
    using swap_fold [of 0 "length ?raw" buf m4] by simp
  have "\<not> 2 ^ 31 * one fmt \<le> k" using k by simp
  then have "ftos fmt m w buf (int p) = Some ?m6"
    by (simp only: ftos_def w option.case prod.case if_False Let_def m1(1) h2 h4 h5)
  then show thesis using that m6 by blast
qed

text \<open>
  C27.  The floating-point text of \<open>vga_kprintf\<close> (\<open>%f\<close>, two digits): \<open>ftos\<close> always terminates; infinities, NaNs and values
  beyond \<open>int\<close> are undefined, and every other number gives a string that is the wrong way round, sign, then the second
  and the first digit of the fraction, then the point, then the rest.  The rest is empty for numbers below 1; for every
  other number it has at least 268 digits, though the caller's buffer has 32 bytes.  No byte outside the string is written.
\<close>

theorem ftos_text:
  "case double_of_bits fmt w of
     None \<Rightarrow> ftos fmt m w buf 2 = None
   | Some (neg, k) \<Rightarrow>
       if 2 ^ 31 * one fmt \<le> k then ftos fmt m w buf 2 = None
       else \<exists>m' ds.
         let y1 = fp_round fmt (10 * (k mod one fmt)) 1; y2 = fp_round fmt (10 * (y1 mod one fmt)) 1 in
         ftos fmt m w buf 2 = Some m' \<and>
         cstr m' buf ((if neg \<and> k \<noteq> 0 then lit ''-'' else []) @
           [of_nat (y2 div one fmt + 48), of_nat (y1 div one fmt + 48), 46] @ ds) \<and>
         (if k < one fmt then ds = [] else 268 \<le> length ds) \<and>
         agree_on (- region buf (length ds + 5)) m m'"
proof (cases "double_of_bits fmt w")
  case None
  then show ?thesis by (simp add: ftos_def)
next
  case (Some a)
  obtain neg k where a: "a = (neg, k)" by (cases a)
  show ?thesis
  proof (cases "2 ^ 31 * one fmt \<le> k")
    case True
    then show ?thesis by (simp add: ftos_def Some a)
  next
    case False
    let ?ds = "integer_digits fmt (k div one fmt * one fmt)"
    obtain m' where m': "ftos fmt m w buf (int 2) = Some m'" "cstr m' buf (rev (ftos_raw fmt neg 2 k))"
      "agree_on (- region buf (Suc (length (ftos_raw fmt neg 2 k)))) m m'"
      using ftos_writes [of fmt w neg k 2 m buf] Some a False by auto
    have "268 \<le> length ?ds" if "one fmt \<le> k"
    proof -
      have "1 * one fmt \<le> k div one fmt * one fmt" using div_le_mono [OF that, of "one fmt"] by (intro mult_right_mono) simp_all
      moreover have "(2 :: nat) ^ (4 * 267 + 4) \<le> one fmt"
        unfolding one_def using tiny_ge [of fmt] by (intro power_increasing) simp_all
      ultimately have "2 ^ (4 * 267 + 4) \<le> k div one fmt * one fmt" by linarith
      then show ?thesis using integer_digits_least [of 267 "k div one fmt * one fmt" fmt] by simp
    qed
    then have ds: "if k < one fmt then rev ?ds = [] else 268 \<le> length (rev ?ds)" by (simp add: not_less)
    have "region buf (Suc (length (ftos_raw fmt neg 2 k))) \<subseteq> region buf (length (rev ?ds) + 5)"
      by (auto simp: region_def ftos_raw_def)
    then have fr: "agree_on (- region buf (length (rev ?ds) + 5)) m m'" by (intro agree_on_subset [OF m'(3)]) blast
    define y1 where "y1 = fp_round fmt (10 * (k mod one fmt)) 1"
    define y2 where "y2 = fp_round fmt (10 * (y1 mod one fmt)) 1"
    have "rev (fraction_digits fmt 2 (k mod one fmt)) = [of_nat (y2 div one fmt + 48), of_nat (y1 div one fmt + 48)]"
      by (simp add: numeral_2_eq_2 y1_def y2_def Let_def)
    then have r: "rev (ftos_raw fmt neg 2 k) = (if neg \<and> k \<noteq> 0 then lit ''-'' else []) @
        [of_nat (y2 div one fmt + 48), of_nat (y1 div one fmt + 48), 46] @ rev ?ds"
      by (simp add: ftos_raw_def)
    show ?thesis
      unfolding Some a option.case prod.case if_not_P [OF False] Let_def y1_def [symmetric] y2_def [symmetric]
    proof (intro exI conjI)
      show "ftos fmt m w buf 2 = Some m'" using m'(1) by simp
    qed (rule m'(2) [unfolded r] ds fr)+
  qed
qed

text \<open>A quarter is printed as \<open>52.\<close>\<close>

theorem ftos_text_witness:
  "\<exists>m. ftos Binary64 (\<lambda>_. 0) 0x3FD0000000000000 0x600000 2 = Some m \<and> cstr m 0x600000 (lit ''52.'')"
proof -
  define u :: nat where "u = 2 ^ 1072"
  have w: "double_of_bits Binary64 0x3FD0000000000000 = Some (False, u)"
    by (simp add: double_of_bits_def u_def)
  have o: "one Binary64 = 4 * u" by (simp add: one_def u_def)
  have u: "0 < u" by (simp add: u_def)
  have r: "fp_round Binary64 (10 * u) 1 = 10 * u" "fp_round Binary64 (20 * u) 1 = 20 * u"
    using fp_round_exact [of 1 Binary64 "10 * u"] fp_round_exact [of 1 Binary64 "20 * u"]
      is_fp_small [of 10 Binary64 1072] is_fp_small [of 20 Binary64 1072] by (simp_all add: u_def)
  have d: "u mod (4 * u) = u" "10 * u mod (4 * u) = 2 * u" "10 * (2 * u) = 20 * u" "10 * u div (4 * u) = 2"
      "20 * u div (4 * u) = 5" "u < 4 * u" "\<not> 2 ^ 31 * (4 * u) \<le> u"
    using u by simp_all
  have "\<exists>m' ds. ftos Binary64 (\<lambda>_. 0) 0x3FD0000000000000 0x600000 2 = Some m' \<and>
      cstr m' 0x600000 ([of_nat (5 + 48), of_nat (2 + 48), 46] @ ds) \<and> ds = [] \<and>
      agree_on (- region 0x600000 (length ds + 5)) (\<lambda>_. 0) m'"
    using ftos_text [where fmt = Binary64 and w = "0x3FD0000000000000" and m = "\<lambda>_. 0" and buf = "0x600000"]
    by (simp only: w o d r Let_def option.case prod.case if_False if_True simp_thms append_Nil)
  then show ?thesis by auto
qed

end
