(* ===== verification/PrintfFormat.thy ===== *)
theory PrintfFormat
  imports PrintfSpec StringEdit
begin

text \<open>
  What \<open>kprintf\<close> of \<open>cpu/kprintf.c\<close> prints, as a whole: an abstract formatter on a list of directives and a list of
  arguments, independent of the code's loops, and the proof that \<open>kvprintf\<close> prints its text.
\<close>

section \<open>Numerals\<close>

definition digit :: "nat \<Rightarrow> u8" where
  "digit d = (if d < 10 then of_nat (48 + d) else of_nat (87 + d))"

fun numeral_text :: "nat \<Rightarrow> nat \<Rightarrow> u8 list" where
  "numeral_text b n = (if n < b \<or> b < 2 then [digit n] else numeral_text b (n div b) @ [digit (n mod b)])"

declare numeral_text.simps [simp del]

definition signed_text :: "int \<Rightarrow> u8 list" where
  "signed_text v = (if v < 0 then lit ''-'' else []) @ numeral_text 10 (nat \<bar>v\<bar>)"

lemma dec_digit_eq: "48 + ucast (u mod 10 :: u64) = digit (unat u mod 10)"
proof -
  have "unat (48 + ucast (of_nat (unat u mod 10) :: u64) :: u8) = 48 + unat u mod 10" by (rule unat_dec_digit) simp
  moreover have "(of_nat (unat u mod 10) :: u64) = u mod 10" by (simp add: word_unat_eq_iff unat_mod unat_of_nat_small)
  ultimately show ?thesis
    by (simp add: digit_def word_unat_eq_iff unat_of_nat_small del: of_nat_add)
qed

lemma hex_digit_eq: "hex_digit (u AND 0xF) = digit (unat u mod 16)"
proof -
  have "u AND 0xF = take_bit 4 u" by (simp add: take_bit_eq_mask mask_eq_exp_minus_1)
  then have h: "unat (u AND 0xF) = unat u mod 16" by (simp add: take_bit_eq_mod unat_mod)
  define d where "d = unat u mod 16"
  have d: "d < 16" by (simp add: d_def)
  then have m: "u AND 0xF = of_nat d" by (simp add: word_unat_eq_iff unat_of_nat_small h d_def)
  have "(of_nat d :: u64) < 10 \<longleftrightarrow> d < 10" using d by (simp add: word_less_unat unat_of_nat_small)
  moreover have "(ucast (of_nat d :: u64) :: u8) = of_nat d"
    using d by (simp add: unsigned_of_nat take_bit_nat_eq_self)
  ultimately show ?thesis unfolding m d_def [symmetric] by (simp add: hex_digit_def digit_def)
qed

lemma dec_digits_text: "u \<noteq> 0 \<Longrightarrow> rev (dec_digits u) = numeral_text 10 (unat u)"
proof (induction u rule: dec_digits.induct)
  case (1 u)
  have q: "unat (u div 10) = unat u div 10" by (simp add: unat_div)
  show ?case
  proof (cases "unat u < 10")
    case True
    then have "u div 10 = 0" using q by (simp add: unat_eq_0)
    then show ?thesis using 1 True
      by (subst dec_digits.simps, subst numeral_text.simps) (simp add: dec_digit_eq dec_digits.simps [of 0])
  next
    case False
    then have "u div 10 \<noteq> 0" using q by (simp add: unat_eq_0 [symmetric] div_eq_0_iff)
    then show ?thesis using 1 False
      by (subst dec_digits.simps, subst numeral_text.simps) (simp add: dec_digit_eq q)
  qed
qed

lemma hex_digits_text: "u \<noteq> 0 \<Longrightarrow> rev (hex_digits u) = numeral_text 16 (unat u)"
proof (induction u rule: hex_digits.induct)
  case (1 u)
  note q = drop_bit_4_unat [of u]
  show ?case
  proof (cases "unat u < 16")
    case True
    then have "drop_bit 4 u = 0" using q by (simp add: unat_eq_0)
    then show ?thesis using 1 True
      by (subst hex_digits.simps, subst numeral_text.simps) (simp add: hex_digit_eq hex_digits.simps [of 0])
  next
    case False
    then have "drop_bit 4 u \<noteq> 0" using q by (simp add: unat_eq_0 [symmetric] div_eq_0_iff)
    then show ?thesis using 1 False
      by (subst hex_digits.simps, subst numeral_text.simps) (simp add: hex_digit_eq q)
  qed
qed

lemma numbuf_text: "rev (dec_numbuf u) = numeral_text 10 (unat u)" "rev (hex_numbuf u) = numeral_text 16 (unat u)"
  using dec_digits_text [of u] hex_digits_text [of u]
  by (auto simp: dec_numbuf_def hex_numbuf_def numeral_text.simps [of _ 0] digit_def)

section \<open>The abstract formatter\<close>

text \<open>
  A conversion: the flags \<open>-\<close> and \<open>0\<close>, the digits of the width, those of the precision if there is a point, whether an
  \<open>l\<close> follows, and the letter.  An argument is a slot of eight bytes; for a string it is the address of its bytes.
\<close>

datatype format_item = Literal u8 | Conversion bool bool "u8 list" "u8 list option" bool u8

datatype argument = Number u64 | Text u64 "u8 list"

fun slot :: "argument \<Rightarrow> u64" where
  "slot (Number w) = w"
| "slot (Text p bs) = p"

fun text_ok :: "u64 set \<Rightarrow> memory \<Rightarrow> argument \<Rightarrow> bool" where
  "text_ok W m (Number w) \<longleftrightarrow> True"
| "text_ok W m (Text p bs) \<longleftrightarrow>
    p \<noteq> 0 \<and> cstr m p bs \<and> region p (Suc (length bs)) \<inter> W = {} \<and> length bs < 2 ^ 31 - 1"

text \<open>A precision fills a number with zeros and cuts a string.\<close>

definition with_zeros :: "u8 list option \<Rightarrow> u8 list \<Rightarrow> u8 list" where
  "with_zeros pr bs = (case pr of None \<Rightarrow> bs | Some ds \<Rightarrow> replicate (decimal_value ds - length bs) (ch CHR ''0'') @ bs)"

definition cut_to :: "u8 list option \<Rightarrow> u8 list \<Rightarrow> u8 list" where
  "cut_to pr bs = (case pr of None \<Rightarrow> bs | Some ds \<Rightarrow> take (decimal_value ds) bs)"

definition argument_text :: "u8 list option \<Rightarrow> bool \<Rightarrow> u8 \<Rightarrow> argument \<Rightarrow> (bool \<times> u8 list) option" where
  "argument_text pr z c a =
    (if c \<in> set (lit ''di'') then
       (if sint (slot a) = - (2 ^ 63) then None else Some (z, with_zeros pr (signed_text (sint (slot a)))))
     else if c = ch CHR ''u'' then Some (z, with_zeros pr (numeral_text 10 (unat (slot a))))
     else if c \<in> set (lit ''xX'') then Some (z, with_zeros pr (numeral_text 16 (unat (slot a))))
     else if c = ch CHR ''c'' then Some (False, [ucast (slot a)])
     else (case a of
         Text p bs \<Rightarrow> Some (False, cut_to pr bs)
       | Number w \<Rightarrow> if w = 0 then Some (False, cut_to pr (lit ''(null)'')) else None))"

text \<open>\<open>%p\<close> takes no notice of flags and width.\<close>

definition pointer_text :: "u64 \<Rightarrow> u8 list" where
  "pointer_text u = lit ''0x'' @ map (\<lambda>i. digit (unat u div 16 ^ i mod 16)) (rev [0 ..< 16])"

fun printf_text :: "format_item list \<Rightarrow> argument list \<Rightarrow> u8 list option" where
  "printf_text [] args = Some []"
| "printf_text (Literal b # xs) args = map_option (Cons b) (printf_text xs args)"
| "printf_text (Conversion l z w pr ell c # xs) args =
    (if c \<in> set (lit ''diuxXcsp'') then
       (case args of
          [] \<Rightarrow> None
        | a # args \<Rightarrow> do {
            t \<leftarrow> (if c = ch CHR ''p'' then Some (pointer_text (slot a))
              else map_option (\<lambda>(z, t). padded l z (decimal_value w) t) (argument_text pr z c a));
            out \<leftarrow> printf_text xs args;
            Some (t @ out) })
     else map_option (append (if c = ch CHR ''%'' then lit ''%'' else [ch CHR ''%'', c])) (printf_text xs args))"

fun format_bytes :: "format_item \<Rightarrow> u8 list" where
  "format_bytes (Literal b) = [b]"
| "format_bytes (Conversion l z w pr ell c) =
    ch CHR ''%'' # spec_text l z w @ (case pr of None \<Rightarrow> [] | Some ds \<Rightarrow> ch CHR ''.'' # ds) @
      (if ell then lit ''l'' else []) @ [c]"

definition digits_ok :: "u8 list \<Rightarrow> bool" where
  "digits_ok ds \<longleftrightarrow> list_all is_digit ds \<and> int (decimal_value ds) \<le> INT_MAX"

fun format_ok :: "format_item \<Rightarrow> bool" where
  "format_ok (Literal b) \<longleftrightarrow> b \<noteq> ch CHR ''%''"
| "format_ok (Conversion l z w pr ell c) \<longleftrightarrow> digits_ok w \<and> (w = [] \<or> hd w \<noteq> ch CHR ''0'') \<and> pred_option digits_ok pr \<and>
     \<not> is_digit c \<and> c \<notin> set (lit ''-.'') \<and> (ell \<or> c \<noteq> ch CHR ''l'')"

section \<open>Parsing\<close>

definition precision_of :: "u8 list option \<Rightarrow> int" where
  "precision_of pr = (case pr of None \<Rightarrow> -1 | Some ds \<Rightarrow> int (decimal_value ds))"

lemma parse_int_ok:
  assumes "digits_ok w" and "q = [] \<or> \<not> is_digit (hd q)"
  shows "parse_int (w @ q) 0 = Some (int (decimal_value w), q)"
  using parse_int_digits [of w q 0] assms by (simp add: digits_ok_def list_all_iff numeral_value_def)

lemma accept_other: "xs \<noteq> [] \<Longrightarrow> hd xs \<noteq> c \<Longrightarrow> accept c xs = (False, xs)"
  by (cases xs) auto

lemma parse_directive_ok:
  assumes "format_ok (Conversion l z w pr ell c)"
  shows "parse_directive (spec_text l z w @ (case pr of None \<Rightarrow> [] | Some ds \<Rightarrow> ch CHR ''.'' # ds) @
      (if ell then lit ''l'' else []) @ c # p) =
    Some (\<lparr>left = l, zero = z, width = int (decimal_value w), precision = precision_of pr\<rparr>, c # p)"
proof -
  have c: "\<not> is_digit c" "c \<noteq> 45" "c \<noteq> 46" "ell \<or> c \<noteq> 108" using assms by simp_all
  let ?e = "(if ell then lit ''l'' else []) @ c # p"
  let ?q = "(case pr of None \<Rightarrow> [] | Some ds \<Rightarrow> ch CHR ''.'' # ds) @ ?e"
  have e: "?e \<noteq> []" "\<not> is_digit (hd ?e)" "hd ?e \<noteq> 46" "hd ?e \<noteq> 45" using c by (auto simp: is_digit_def)
  have q: "?q \<noteq> []" "\<not> is_digit (hd ?q)" "hd ?q \<noteq> 45" "hd ?q \<noteq> 48"
    using e by (auto simp: is_digit_def split: option.splits)
  have w: "digits_ok w" "w = [] \<or> hd w \<noteq> 48" using assms by simp_all
  have wd: "\<forall>b \<in> set w. is_digit b" using w(1) by (simp add: digits_ok_def list_all_iff)
  have "hd (w @ ?q) \<noteq> 48" using w(2) q by (cases w) auto
  then have a0: "accept 48 ((if z then [48] else []) @ w @ ?q) = (z, w @ ?q)"
    using q(1) accept_other [of "w @ ?q" 48] by (cases z) auto
  have "hd ((if z then [48] else []) @ w @ ?q) \<noteq> 45"
    using wd q(3) by (cases z; cases w) (auto simp: is_digit_def)
  then have a1: "accept 45 (spec_text l z w @ ?q) = (l, (if z then [48] else []) @ w @ ?q)"
    using q(1) accept_other [of "(if z then [48] else []) @ w @ ?q" 45] by (cases l) (auto simp: spec_text_def)
  have i: "parse_int (w @ ?q) 0 = Some (int (decimal_value w), ?q)" using q by (intro parse_int_ok [OF w(1)]) simp
  have pp: "parse_precision ?q = Some (precision_of pr, ?e)"
  proof (cases pr)
    case None
    then show ?thesis using e accept_other [of ?e 46] by (simp add: parse_precision_def precision_of_def)
  next
    case (Some ds)
    then show ?thesis using assms e parse_int_ok [of ds ?e] by (simp add: parse_precision_def precision_of_def)
  qed
  have "snd (accept 108 ?e) = c # p" using c(4) by auto
  then show ?thesis using a0 a1 i pp by (simp add: parse_directive_def)
qed

section \<open>Conversions\<close>

lemma put_number_text:
  "put_number \<lparr>left = l, zero = z, width = int n, precision = precision_of pr\<rparr> (rev bs) s =
    kputs (padded l z n (with_zeros pr bs)) s"
proof -
  define k where "k = (case pr of None \<Rightarrow> 0 | Some ds \<Rightarrow> decimal_value ds - length bs)"
  have w: "with_zeros pr bs = replicate k 48 @ bs" by (simp add: with_zeros_def k_def split: option.split)
  have p: "(if precision_of pr > int (length bs) then precision_of pr - int (length bs) else 0) = int k"
    by (auto simp: precision_of_def k_def of_nat_diff split: option.split)
  have t: "(if int n > int (length bs + k) then int n - int (length bs + k) else 0) = int (n - (length bs + k))"
    by (simp add: of_nat_diff)
  show ?thesis
    unfolding w put_number_def Let_def length_rev directive.simps p of_nat_add [symmetric] t nat_int
    by (cases l) (simp_all add: padded_def kputs_append add.commute)
qed

lemma str_len_ok:
  "cstr m (p + of_nat k) bs \<Longrightarrow> k + length bs < 2 ^ 31 - 1 \<Longrightarrow>
    str_len m p (precision_of pr) (int k) =
      Some (int (case pr of None \<Rightarrow> k + length bs | Some ds \<Rightarrow> k + min (length bs) (decimal_value ds - k)))"
proof (induction bs arbitrary: k)
  case Nil
  then show ?case by (subst str_len.simps) (auto split: option.split)
next
  case (Cons b bs)
  have mp: "m (p + of_nat k) = b" "b \<noteq> 0" using Cons.prems(1) by simp_all
  have IH: "str_len m p (precision_of pr) (int (Suc k)) =
      Some (int (case pr of None \<Rightarrow> Suc k + length bs | Some ds \<Rightarrow> Suc k + min (length bs) (decimal_value ds - Suc k)))"
    using Cons.prems by (intro Cons.IH) (simp_all add: ac_simps)
  have k: "int k < INT_MAX" using Cons.prems(2) by (simp add: INT_MAX_def)
  show ?case
  proof (cases "precision_of pr < 0 \<or> int k < precision_of pr")
    case True
    then have "str_len m p (precision_of pr) (int k) = str_len m p (precision_of pr) (int (Suc k))"
      using mp k by (subst str_len.simps) (simp add: add.commute)
    then show ?thesis using IH True by (auto simp: precision_of_def min_def split: option.splits)
  next
    case False
    then have "str_len m p (precision_of pr) (int k) = Some (int k)" by (subst str_len.simps) simp
    then show ?thesis using False by (auto simp: precision_of_def split: option.splits)
  qed
qed

lemma put_bytes:
  assumes "cstr (mem s) p bs" and "region p (Suc (length bs)) \<inter> video_window = {}" and "length bs < 2 ^ 31"
  shows "n \<le> length bs \<Longrightarrow> fold (\<lambda>i s. kputc (mem s (p + of_nat i)) s) [0 ..< n] s = kputs (take n bs) s"
proof (induction n)
  case (Suc n)
  let ?t = "kputs (take n bs) s"
  have "p + of_nat n \<in> region p (Suc (length bs))" using Suc.prems assms(3) by (intro offset_in_region) simp_all
  then have "mem ?t (p + of_nat n) = mem s (p + of_nat n)"
    using assms(2) by (intro con_frame_mem [OF con_frame_kputs]) auto
  then have "mem ?t (p + of_nat n) = bs ! n" using cstr_nth [OF assms(1)] Suc.prems by simp
  then show ?case using Suc by (simp add: take_Suc_conv_app_nth kputs_append kputs_Cons)
qed simp

lemma put_string_text:
  fixes l z n pr
  defines "d \<equiv> \<lparr>left = l, zero = z, width = int n, precision = precision_of pr\<rparr>"
  assumes "text_ok video_window (mem s) (Text p bs)"
  shows "put_string d p s = Some (kputs (padded l False n (cut_to pr bs)) s)"
proof -
  have t: "p \<noteq> 0" "cstr (mem s) p bs" "region p (Suc (length bs)) \<inter> video_window = {}" "length bs < 2 ^ 31 - 1"
    using assms(2) by simp_all
  have len: "str_len (mem s) p (precision_of pr) 0 = Some (int (length (cut_to pr bs)))"
    using str_len_ok [of "mem s" p 0 bs pr] t by (simp add: cut_to_def split: option.splits)
  define k where "k = length (cut_to pr bs)"
  have k: "k \<le> length bs" "cut_to pr bs = take k bs" by (auto simp: k_def cut_to_def min_def split: option.splits)
  have pad: "(if int n > int k then int n - int k else 0) = int (n - k)" by (simp add: of_nat_diff)
  let ?s = "pad_before d (int (n - k)) s"
  have f: "con_frame s ?s" by simp
  have "cstr (mem ?s) p bs"
    by (rule cstr_agree [OF t(2)]) (use con_frame_mem [OF f] t(3,4) in \<open>auto simp: agree_on_def\<close>)
  then have "fold (\<lambda>i s. kputc (mem s (p + of_nat i)) s) [0 ..< k] ?s = kputs (cut_to pr bs) ?s"
    unfolding k(2) using t k(1) by (intro put_bytes) simp_all
  moreover have "width d = int n" "precision d = precision_of pr" by (simp_all add: d_def)
  ultimately have "put_string d p s = Some (pad_after d (int (n - k)) (kputs (cut_to pr bs) ?s))"
    using t(1) len [folded k_def] pad by (simp only: put_string_def if_False Option.bind.simps Let_def nat_int)
  then show ?thesis
    by (cases l) (simp_all add: d_def pad_before_def pad_after_def padded_def kputs_append k_def)
qed

lemma put_null_text:
  "put_string \<lparr>left = l, zero = z, width = int n, precision = precision_of pr\<rparr> 0 s =
    Some (kputs (padded l False n (cut_to pr (lit ''(null)''))) s)"
proof -
  define bs where "bs = lit ''(null)''"
  define t where "t = cut_to pr bs"
  have c: "(if precision_of pr < 0 then bs else take (nat (precision_of pr)) bs) = t"
    by (simp add: t_def cut_to_def precision_of_def split: option.split)
  have pad: "(if int n > int (length t) then int n - int (length t) else 0) = int (n - length t)"
    by (simp add: of_nat_diff)
  show ?thesis
    unfolding put_string_def Let_def directive.simps bs_def [symmetric] c pad t_def [symmetric]
    by (cases l) (simp_all add: pad_before_def pad_after_def padded_def kputs_append)
qed

lemma put_pointer_text: "put_pointer u s = kputs (pointer_text u) s"
proof -
  have "hex_digit (drop_bit (i * 4) u AND 0xF) = digit (unat u div 16 ^ i mod 16)" for i
  proof -
    have "unat (drop_bit (i * 4) u) = drop_bit (i * 4) (unat u)" by (rule unat_drop_bit_eq)
    also have "\<dots> = unat u div 2 ^ (4 * i)" by (simp only: drop_bit_eq_div mult.commute)
    also have "(2 :: nat) ^ (4 * i) = 16 ^ i" by (simp add: power_mult)
    finally show ?thesis by (simp only: hex_digit_eq)
  qed
  then have "put_pointer u s = fold (\<lambda>i. kputc (digit (unat u div 16 ^ i mod 16))) (rev [0 ..< 16]) (kputs (lit ''0x'') s)"
    by (simp only: put_pointer_def Let_def)
  then show ?thesis
    by (simp only: pointer_text_def kputs_append) (simp only: kputs_def fold_map comp_def)
qed

lemma signed_numbuf:
  "dec_numbuf (if sint v < 0 then - v else v) @ (if sint v < 0 then [ch CHR ''-''] else []) = rev (signed_text (sint v))"
  using numbuf_text(1) [of "if sint v < 0 then - v else v", symmetric] unat_abs [of v]
  by (auto simp: signed_text_def)

lemma convert_text:
  fixes l z n pr
  defines "d \<equiv> \<lparr>left = l, zero = z, width = int n, precision = precision_of pr\<rparr>"
  assumes a: "text_ok video_window (mem s) a" and t: "argument_text pr z c a = Some (z', t)"
    and c: "c \<in> set (lit ''diuxXcs'')"
  shows "convert d c (slot a # ap) s = Some (ap, kputs (padded l z' n t) s)"
proof -
  note pn = put_number_text [of l z n pr]
  consider (dec) "c = ch CHR ''d'' \<or> c = ch CHR ''i''" | (uns) "c = ch CHR ''u''"
    | (hex) "c = ch CHR ''x'' \<or> c = ch CHR ''X''" | (char) "c = ch CHR ''c''" | (str) "c = ch CHR ''s''"
    using c by auto
  then show ?thesis
  proof cases
    case dec
    then have v: "sint (slot a) \<noteq> - (2 ^ 63)" "z' = z" "t = with_zeros pr (signed_text (sint (slot a)))"
      using t by (auto simp: argument_text_def split: if_splits)
    then show ?thesis
      using dec pn [of "signed_text (sint (slot a))" s] unfolding convert_def Let_def d_def signed_numbuf by auto
  next
    case uns
    then show ?thesis
      using t pn [of "numeral_text 10 (unat (slot a))" s] numbuf_text(1) [of "slot a", symmetric]
      by (auto simp: argument_text_def convert_def d_def)
  next
    case hex
    then show ?thesis
      using t pn [of "numeral_text 16 (unat (slot a))" s] numbuf_text(2) [of "slot a", symmetric]
      by (auto simp: argument_text_def convert_def d_def)
  next
    case char
    have "nat (int n - 1) = n - 1" by simp
    then show ?thesis using char t
      by (cases l) (auto simp: argument_text_def convert_def d_def Let_def pad_before_def pad_after_def padded_def
          kputs_append kputs_Cons)
  next
    case str
    show ?thesis
    proof (cases a)
      case (Number w)
      then have "w = 0" "z' = False" "t = cut_to pr (lit ''(null)'')"
        using t str by (auto simp: argument_text_def split: if_splits)
      then show ?thesis using str Number put_null_text [of l z n pr s] by (simp add: convert_def d_def del: lit_Cons)
    next
      case (Text p bs)
      then show ?thesis
        using t str put_string_text [of s p bs l z n pr] a by (simp add: argument_text_def convert_def d_def)
    qed
  qed
qed

lemma text_ok_console:
  assumes "con_frame s s'" and "text_ok video_window (mem s) a"
  shows "text_ok video_window (mem s') a"
proof (cases a)
  case (Text p bs)
  then have t: "cstr (mem s) p bs" "region p (Suc (length bs)) \<inter> video_window = {}" "length bs < 2 ^ 31 - 1"
    using assms(2) by simp_all
  have "cstr (mem s') p bs"
    by (rule cstr_agree [OF t(1)]) (use con_frame_mem [OF assms(1)] t(2,3) in \<open>auto simp: agree_on_def\<close>)
  then show ?thesis using Text assms(2) by simp
qed simp

lemma kvprintf_conversion:
  assumes "format_ok (Conversion l z w pr ell c)"
    and "convert \<lparr>left = l, zero = z, width = int (decimal_value w), precision = precision_of pr\<rparr> c ap s = Some (ap', s')"
  shows "kvprintf (format_bytes (Conversion l z w pr ell c) @ q) ap s = kvprintf q ap' s'"
  using parse_directive_ok [OF assms(1), of q] assms(2) by simp

text \<open>
  C11.  \<open>kvprintf\<close> is a formatter: for plain text and every conversion, with flags, width, precision and \<open>l\<close>, and arguments
  that the abstract formatter accepts (no \<open>LONG_MIN\<close> for \<open>%d\<close>, NUL-terminated strings outside the screen or a null
  pointer for \<open>%s\<close>), it returns and prints exactly the formatter's text; an unknown letter is printed with its percent sign.
\<close>

theorem kvprintf_prints:
  assumes "printf_text xs args = Some out" and "list_all format_ok xs" and "list_all (text_ok video_window (mem s)) args"
  shows "kvprintf (concat (map format_bytes xs)) (map slot args) s = Some (kputs out s)"
  using assms
proof (induction xs arbitrary: args out s)
  case (Cons x xs)
  have ok: "list_all (text_ok video_window (mem (kputs t s))) as" if "list_all (text_ok video_window (mem s)) as" for t as
    using that text_ok_console [OF con_frame_kputs] by (auto simp: list_all_iff)
  show ?case
  proof (cases x)
    case (Literal b)
    then obtain o2 where o2: "printf_text xs args = Some o2" "out = b # o2" using Cons.prems(1) by auto
    have "kvprintf (concat (map format_bytes xs)) (map slot args) (kputs [b] s) = Some (kputs o2 (kputs [b] s))"
      using Cons.prems(2,3) by (intro Cons.IH [OF o2(1)] ok) simp_all
    then show ?thesis using Literal Cons.prems(2) o2(2) by (simp add: kputs_Cons)
  next
    case (Conversion l z w pr ell c)
    let ?d = "\<lparr>left = l, zero = z, width = int (decimal_value w), precision = precision_of pr\<rparr>"
    have f: "format_ok (Conversion l z w pr ell c)" using Cons.prems(2) Conversion by simp
    have step: "kvprintf (concat (map format_bytes (x # xs))) (map slot args) s = Some (kputs (t @ o2) s)"
      if c: "convert ?d c (map slot args) s = Some (map slot as, kputs t s)" and o2: "printf_text xs as = Some o2"
        and as: "list_all (text_ok video_window (mem s)) as" for t o2 as
    proof -
      have "kvprintf (concat (map format_bytes xs)) (map slot as) (kputs t s) = Some (kputs o2 (kputs t s))"
        using Cons.prems(2) by (intro Cons.IH [OF o2] ok [OF as]) simp
      then show ?thesis using kvprintf_conversion [OF f c] by (simp only: list.map concat.simps Conversion kputs_append)
    qed
    show ?thesis
    proof (cases "c \<in> set (lit ''diuxXcsp'')")
      case True
      then obtain a as t o2 where a: "args = a # as" "out = t @ o2" "printf_text xs as = Some o2"
        "(if c = ch CHR ''p'' then Some (pointer_text (slot a))
          else map_option (\<lambda>(z, t). padded l z (decimal_value w) t) (argument_text pr z c a)) = Some t"
        using Cons.prems(1) Conversion by (auto split: list.splits bind_splits)
      have "convert ?d c (slot a # map slot as) s = Some (map slot as, kputs t s)"
      proof (cases "c = ch CHR ''p''")
        case p: True
        then show ?thesis using a(4) by (simp add: convert_def put_pointer_text)
      next
        case False
        then obtain z' u where u: "argument_text pr z c a = Some (z', u)" "t = padded l z' (decimal_value w) u"
          using a(4) by auto
        have "c \<in> set (lit ''diuxXcs'')" using True False by auto
        moreover have "text_ok video_window (mem s) a" using Cons.prems(3) a(1) by simp
        ultimately show ?thesis unfolding u(2) by (intro convert_text [OF _ u(1)])
      qed
      then show ?thesis using step [of as t o2] Cons.prems(3) a by simp
    next
      case False
      let ?t = "if c = ch CHR ''%'' then lit ''%'' else [ch CHR ''%'', c]"
      obtain o2 where o2: "printf_text xs args = Some o2" "out = ?t @ o2" using Cons.prems(1) Conversion False by auto
      have "convert ?d c (map slot args) s = Some (map slot args, kputs ?t s)"
        using False by (simp add: convert_def kputs_Cons)
      then show ?thesis using step [of args ?t o2] o2 Cons.prems(3) by simp
    qed
  qed
qed simp

text \<open>The format \<open>%-6s|%05d|%.3x|%%|%llx\<close> with \<open>"ok"\<close>, -42 and 10.\<close>

theorem kvprintf_prints_witness:
  "kvprintf (lit ''%-6s|%05d|%.3x|%%|%llx'') [0x510000, - 42, 10] (boot_machine\<lparr>mem := (\<lambda>_. 0)(0x510000 := 111, 0x510001 := 107)\<rparr>) =
    Some (kputs (lit ''ok    |00-42|00a|%|%lx'') (boot_machine\<lparr>mem := (\<lambda>_. 0)(0x510000 := 111, 0x510001 := 107)\<rparr>))"
proof -
  let ?s = "boot_machine\<lparr>mem := (\<lambda>_. 0)(0x510000 := 111, 0x510001 := 107)\<rparr>"
  let ?c = "\<lambda>l z w pr c. Conversion l z w pr False (ch c)"
  let ?xs = "[?c True False (lit ''6'') None CHR ''s'', Literal 124, ?c False True (lit ''5'') None CHR ''d'', Literal 124,
    ?c False False [] (Some (lit ''3'')) CHR ''x'', Literal 124, ?c False False [] None CHR ''%'', Literal 124,
    Conversion False False [] None True (ch CHR ''l''), Literal 120]"
  let ?args = "[Text 0x510000 [111, 107], Number (- 42), Number 10]"
  have r: "region 0x510000 (Suc (length [111, 107 :: u8])) \<inter> video_window = {}"
    using region_of_nat_disjoint [of "0xb8000" 65537 "0x510000" 3]
    by (simp add: video_window_def VIDEO_ADDRESS_def Int_commute numeral_3_eq_3)
  then have t: "list_all (text_ok video_window (mem ?s)) ?args" by simp
  have n: "numeral_text 10 42 = lit ''42''" "numeral_text 16 10 = lit ''a''"
    by (simp_all add: numeral_text.simps digit_def)
  have v: "decimal_value (lit ''6'') = 6" "decimal_value (lit ''5'') = 5" "decimal_value (lit ''3'') = 3" "decimal_value [] = 0"
    by (simp_all add: numeral_value_def dec_val_def)
  have o: "printf_text ?xs ?args = Some (lit ''ok    |00-42|00a|%|%lx'')"
    by (simp add: argument_text_def signed_text_def with_zeros_def cut_to_def padded_def v [simplified] n [simplified],
        simp add: numeral_eq_Suc)
  have f: "list_all format_ok ?xs"
    by (simp add: digits_ok_def is_digit_def v [simplified] INT_MAX_def)
  have b: "concat (map format_bytes ?xs) = lit ''%-6s|%05d|%.3x|%%|%llx''" by (simp add: spec_text_def)
  show ?thesis using kvprintf_prints [OF o f t] unfolding b by simp
qed

end
