(* ===== verification/VgaFormat.thy ===== *)
theory VgaFormat
  imports FtosLaws NumeralLaws PrintfFormat
begin

text \<open>
  What the second formatted output, \<open>kprintf\<close> of \<open>drivers/output/vga.c\<close>, prints: an abstract formatter on a list of
  directives and a list of arguments, and the proof that the code, on bytes in memory, prints its characters in its
  colours.
\<close>

section \<open>What intToString leaves alone\<close>

lemma intToString_loop_frame:
  "n < 10 ^ k \<Longrightarrow> i + Suc k \<le> N \<Longrightarrow> N < 2 ^ 63 \<Longrightarrow>
    agree_on (- region str N) m (fst (intToString_loop m str (int i) (int n)))"
proof (induction k arbitrary: n i m)
  case 0
  have "str + of_nat i \<in> region str N" using 0 by (intro offset_in_region) simp_all
  then show ?case using 0 by (subst intToString_loop.simps) (auto simp: Let_def agree_on_def)
next
  case (Suc k)
  let ?m = "m(str + of_nat i := of_int (int n mod 10 + 48))"
  have "str + of_nat i \<in> region str N" using Suc.prems by (intro offset_in_region) simp_all
  then have "agree_on (- region str N) m ?m" by (auto simp: agree_on_def)
  moreover have "n div 10 < 10 ^ k" using Suc.prems(1) by (simp add: div_less_iff_less_mult mult.commute)
  then have "agree_on (- region str N) ?m (fst (intToString_loop ?m str (int (Suc i)) (int (n div 10))))"
    using Suc.prems by (intro Suc.IH) simp_all
  ultimately show ?case
    by (subst intToString_loop.simps) (auto simp: Let_def add.commute zdiv_int intro: agree_on_trans)
qed

lemma reverse_frame:
  assumes "bytes_at m str (bs @ [0])" and "0 \<notin> set bs" and "length bs < n" and "n < 2 ^ 31"
  shows "\<exists>m'. reverse m str = Some m' \<and> agree_on (- region str n) m m'"
proof -
  have "cstr m str bs" using assms(1,2) by (simp add: cstr_bytes_at)
  then have "strlen m str = Some (int (length bs))" using assms(3,4) by (intro strlen_cstr) simp_all
  moreover have "agree_on (- region str n) m (reverse_loop m str 0 (int (length bs) - 1))"
    using assms(3,4) by (intro reverse_loop_frame) simp_all
  ultimately show ?thesis by (simp add: reverse_def)
qed

lemma intToString_frame:
  assumes v: "INT_MIN < v" "v \<le> INT_MAX" and r: "intToString m v str = Some m'"
  shows "agree_on (- region str 13) m m'"
proof -
  let ?n = "nat \<bar>v\<bar>" and ?neg = "v < 0"
  let ?bs = "(if v = 0 then [48] else ndigits ?n) @ (if ?neg then [45 :: u8] else [])"
  have n: "?n < 2 ^ 31" using v by (simp add: INT_MIN_def INT_MAX_def)
  have len: "length (ndigits ?n) \<le> 10" using n by (intro ndigits_length) simp
  obtain m1 where m1: "intToString_loop m str 0 (int ?n) = (m1, int (length (if v = 0 then [48 :: u8] else ndigits ?n)))"
    "bytes_at m1 str (if v = 0 then [48] else ndigits ?n)"
  proof (cases "v = 0")
    case True
    then show thesis by (intro that [of "m(str := 48)"]) (simp_all add: intToString_loop.simps bytes_at_def)
  next
    case False
    then have "0 < ?n" by simp
    then show thesis using itoa_loop_digits [of m str "[]" ?n] n len that False by auto
  qed
  have f1: "agree_on (- region str 13) m m1"
    using intToString_loop_frame [of ?n 11 0 13 str m] n m1(1) by simp
  define m2 where "m2 = (if ?neg then m1(str + of_nat (length (ndigits ?n)) := 45) else m1)"
  have nz: "?neg \<Longrightarrow> v \<noteq> 0" by simp
  have m2: "bytes_at m2 str ?bs" "agree_on (- region str 13) m1 m2"
    using m1(2) write_step [OF m1(2), of 13 45] nz len by (auto simp: m2_def)
  let ?m3 = "m2(str + of_nat (length ?bs) := 0)"
  have l: "length ?bs < 12" by (cases "v < 0") (use len in auto)
  have m3: "bytes_at ?m3 str (?bs @ [0])" "agree_on (- region str 13) m2 ?m3"
    using write_step [OF m2(1), of 13 0] l by simp_all
  have "(0 :: u8) \<notin> set ?bs" using ndigits_digits by auto
  from reverse_frame [OF m3(1) this, of 13] l
  obtain m4 where m4: "reverse ?m3 str = Some m4" "agree_on (- region str 13) ?m3 m4" by auto
  have "(if v < 0 then c_int (- v) else Some v) = Some (int ?n)"
    using v by (simp add: c_int_def INT_MIN_def INT_MAX_def)
  then have "intToString m v str = reverse ?m3 str"
    using m1(1) nz by (auto simp: intToString_def m2_def Let_def add.commute)
  then have "m' = m4" using r m4(1) by simp
  then show ?thesis
    using agree_on_trans [OF f1 agree_on_trans [OF m2(2) agree_on_trans [OF m3(2) m4(2)]]] by simp
qed

section \<open>The abstract formatter\<close>

text \<open>A conversion has the digits of its width and its letter.  The arguments are those of \<open>PrintfFormat\<close>.\<close>

datatype directive_item = Plain u8 | Colour u8 u8 | Conv "u8 list" u8

definition arg_text :: "fp_format \<Rightarrow> u8 list \<Rightarrow> u8 \<Rightarrow> argument \<Rightarrow> u8 list option" where
  "arg_text fmt ds c a =
    (if c = ch CHR ''d'' \<or> c = ch CHR ''u'' then
       let v = sint (ucast (slot a) :: u32) in if v = INT_MIN then None else Some (int_text v)
     else if c = ch CHR ''x'' \<or> c = ch CHR ''X'' then
       let t = upper_hex (ucast (slot a)) in Some (replicate (nat (digits_value ds 0) - length t) (ch CHR ''0'') @ t)
     else if c = ch CHR ''c'' then Some [ucast (slot a)]
     else if c = ch CHR ''s'' then (case a of Text p bs \<Rightarrow> Some bs | Number w \<Rightarrow> None)
     else (case double_of_bits fmt (slot a) of
         Some (neg, k) \<Rightarrow> if k < one fmt then Some (rev (ftos_raw fmt neg 2 k)) else None
       | None \<Rightarrow> None))"

fun format_text :: "fp_format \<Rightarrow> u8 \<Rightarrow> directive_item list \<Rightarrow> argument list \<Rightarrow> (u8 \<times> u8) list option" where
  "format_text fmt color [] args = Some []"
| "format_text fmt color (Plain b # xs) args = map_option (Cons (b, color)) (format_text fmt color xs args)"
| "format_text fmt color (Colour bg fg # xs) args = format_text fmt (of_nat (16 * hex_place bg + hex_place fg)) xs args"
| "format_text fmt color (Conv ds c # xs) args =
    (if c \<in> set (lit ''duxXcsf'') then
       (case args of
          [] \<Rightarrow> None
        | a # args \<Rightarrow> do {
            t \<leftarrow> arg_text fmt ds c a;
            out \<leftarrow> format_text fmt color xs args;
            Some (map (\<lambda>b. (b, color)) t @ out) })
     else map_option (Cons (c, color)) (format_text fmt color xs args))"

fun item_bytes :: "directive_item \<Rightarrow> u8 list" where
  "item_bytes (Plain b) = [b]"
| "item_bytes (Colour bg fg) = lit ''<('' @ [bg, fg] @ lit '')>''"
| "item_bytes (Conv ds c) = ch CHR ''%'' # ds @ [c]"

fun item_ok :: "directive_item \<Rightarrow> bool" where
  "item_ok (Plain b) \<longleftrightarrow> b \<noteq> ch CHR ''%'' \<and> b \<noteq> ch CHR ''<''"
| "item_ok (Colour bg fg) \<longleftrightarrow> True"
| "item_ok (Conv ds c) \<longleftrightarrow> list_all digit_char ds \<and> digits_value ds 0 \<le> INT_MAX \<and> \<not> digit_char c"

section \<open>Output with a scratch buffer\<close>

text \<open>
  \<open>emits R s xs t\<close>: from \<open>s\<close> to \<open>t\<close> exactly the characters \<open>xs\<close>, each with its colour, go to the console in this
  order, and in between only memory in \<open>R\<close> is written.
\<close>

inductive emits :: "u64 set \<Rightarrow> 'a machine_scheme \<Rightarrow> (u8 \<times> u8) list \<Rightarrow> 'a machine_scheme \<Rightarrow> bool" for R where
  emits_done: "emits R s [] s"
| emits_put: "emits R (kputchar c color s) xs t \<Longrightarrow> emits R s ((c, color) # xs) t"
| emits_scratch: "emits R (s\<lparr>mem := m\<rparr>) xs t \<Longrightarrow> agree_on (- R) (mem s) m \<Longrightarrow> emits R s xs t"

lemma emits_append: "emits R s xs t \<Longrightarrow> emits R t ys u \<Longrightarrow> emits R s (xs @ ys) u"
  by (induction rule: emits.induct) (auto intro: emits.intros)

lemma emits_colored: "emits R s (map (\<lambda>b. (b, color)) bs) (put_colored color bs s)"
  by (induction bs arbitrary: s) (auto simp: put_colored_def intro: emits.intros)

lemma emits_mem: "emits R s xs t \<Longrightarrow> agree_on (- (video_window \<union> R)) (mem s) (mem t)"
proof (induction rule: emits.induct)
  case (emits_put c color s xs t)
  have "agree_on (- (video_window \<union> R)) (mem s) (mem (kputchar c color s))"
    using con_frame_mem [OF con_frame_kputchar, of _ c color s] by (auto simp: agree_on_def)
  then show ?case using emits_put.IH by (rule agree_on_trans)
next
  case (emits_scratch s m xs t)
  then show ?case by (auto simp: agree_on_def)
qed simp

section \<open>The conversions\<close>

lemma put_text_ok:
  "cstr (mem s) q bs \<Longrightarrow> region q (Suc (length bs)) \<inter> video_window = {} \<Longrightarrow> length bs < 2 ^ 31 \<Longrightarrow>
    put_text q color s = Some (put_colored color bs s)"
proof (induction bs arbitrary: q s)
  case Nil
  then show ?case by (subst put_text.simps) (simp add: put_colored_def)
next
  case (Cons b bs)
  let ?s = "kputchar b color s"
  have st: "safe_text s q (b # bs)" using Cons.prems by (simp add: safe_text_def)
  note t = safe_text_tail [OF st]
  have "safe_text ?s (q + 1) bs" using t by (auto intro: safe_text_frame [OF con_frame_kputchar])
  then have "put_text (q + 1) color ?s = Some (put_colored color bs ?s)" by (intro Cons.IH) (simp_all add: safe_text_def)
  then show ?case using t by (subst put_text.simps) (simp add: put_colored_def)
qed

lemma put_zeros: "fold (\<lambda>_. kputchar b color) xs s = put_colored color (replicate (length xs) b) s"
  by (induction xs arbitrary: s) (simp_all add: put_colored_def)

lemma parse_width_ok:
  "cstr m p (ds @ c # rest) \<Longrightarrow> list_all digit_char ds \<Longrightarrow> \<not> digit_char c \<Longrightarrow> 0 \<le> r \<Longrightarrow> digits_value ds r \<le> INT_MAX \<Longrightarrow>
    parse_width m (m p) (p + 1) r = Some (digits_value ds r, c, p + of_nat (length ds) + 1)"
proof (induction ds arbitrary: p r)
  case Nil
  then have "\<not> (48 \<le> sint c \<and> sint c \<le> 57)" "m p = c" by (simp_all add: digit_char_def)
  then show ?case by (subst parse_width.simps) (auto simp: digits_value_def)
next
  case (Cons d ds)
  let ?r = "r * 10 + (sint d - 48)"
  have d: "48 \<le> sint d" "sint d \<le> 57" using Cons.prems(2) by (simp_all add: digit_char_def)
  have dg: "\<forall>d \<in> set ds. digit_char d" using Cons.prems(2) by (simp add: list_all_iff)
  have r: "0 \<le> ?r" using Cons.prems(4) d by simp
  have "?r \<le> INT_MAX" using digits_value_ge [OF dg r] Cons.prems(5) by (simp add: digits_value_Cons)
  then have c: "c_int (r * 10) = Some (r * 10)" "c_int ?r = Some ?r"
    using r d Cons.prems(4) by (simp_all add: c_int_def INT_MIN_def)
  have "parse_width m (m (p + 1)) (p + 1 + 1) ?r = Some (digits_value ds ?r, c, p + 1 + of_nat (length ds) + 1)"
    using Cons.prems r by (intro Cons.IH) (simp_all add: digits_value_Cons)
  moreover have "m p = d" using Cons.prems(1) by simp
  ultimately show ?case using c d by (subst parse_width.simps) (simp add: digits_value_Cons add.commute add.left_commute)
qed

lemma rd32_rd64: "rd32 m a = ucast (rd64 m a)"
  by (rule bit_word_eqI) (simp add: rd64_def bit_simps)

text \<open>The local buffers, and what the console and the buffers leave alone.\<close>

definition buffers :: "u64 \<Rightarrow> u64 \<Rightarrow> u64 set" where
  "buffers float_buf num_buf = region float_buf 32 \<union> region num_buf 32"

lemma emits_buffer:
  assumes "agree_on (- region b n) (mem s) m" and "region b n \<subseteq> R" and "cstr m b bs"
    and "region b (Suc (length bs)) \<inter> video_window = {}" and "length bs < 2 ^ 31"
  shows "put_text b color (s\<lparr>mem := m\<rparr>) = Some (put_colored color bs (s\<lparr>mem := m\<rparr>))"
    and "emits R s (map (\<lambda>b. (b, color)) bs) (put_colored color bs (s\<lparr>mem := m\<rparr>))"
proof -
  show "put_text b color (s\<lparr>mem := m\<rparr>) = Some (put_colored color bs (s\<lparr>mem := m\<rparr>))"
    using assms(3-5) by (intro put_text_ok) simp_all
  have "agree_on (- R) (mem s) m" using assms(1,2) by (auto intro: agree_on_subset)
  then show "emits R s (map (\<lambda>b. (b, color)) bs) (put_colored color bs (s\<lparr>mem := m\<rparr>))"
    by (intro emits_scratch [OF emits_colored])
qed

lemma region_mono: "n \<le> l \<Longrightarrow> region a n \<subseteq> region a l"
  by (auto simp: region_def)

lemma int_text_length: "INT_MIN < v \<Longrightarrow> v \<le> INT_MAX \<Longrightarrow> length (int_text v) \<le> 11"
proof -
  assume "INT_MIN < v" "v \<le> INT_MAX"
  then have "length (ndigits (nat \<bar>v\<bar>)) \<le> 10" by (intro ndigits_length) (simp add: INT_MIN_def INT_MAX_def)
  then show ?thesis by (cases "v < 0") (auto simp: int_text_def)
qed

lemma sint_range: "INT_MIN \<le> sint (w :: u32)" "sint (w :: u32) \<le> INT_MAX"
  using sint_ge [of w] sint_lt [of w] by (simp_all add: INT_MIN_def INT_MAX_def)

lemma convert_decimal:
  assumes b: "buffers fb nb \<inter> video_window = {}" and c: "c = ch CHR ''d'' \<or> c = ch CHR ''u''"
    and v: "sint (rd32 (mem s) arg) \<noteq> INT_MIN"
  shows "\<exists>u. vga_convert fmt fb nb c wd color arg s = Some (arg + 8, u) \<and>
    emits (buffers fb nb) s (map (\<lambda>b. (b, color)) (int_text (sint (rd32 (mem s) arg)))) u"
proof -
  let ?v = "sint (rd32 (mem s) arg)"
  have r: "INT_MIN < ?v" "?v \<le> INT_MAX" using v sint_range [of "rd32 (mem s) arg"] by simp_all
  obtain m where m: "intToString (mem s) ?v nb = Some m" "cstr m nb (int_text ?v)" using itoa_text [OF r] by blast
  have l: "Suc (length (int_text ?v)) \<le> 32" "length (int_text ?v) < 2 ^ 31" using int_text_length [OF r] by simp_all
  have R: "region nb 13 \<subseteq> buffers fb nb" using region_mono [of 13 32 nb] by (auto simp: buffers_def)
  have "region nb (Suc (length (int_text ?v))) \<inter> video_window = {}"
    using b region_mono [OF l(1), of nb] by (auto simp: buffers_def)
  note e = emits_buffer [OF intToString_frame [OF r m(1)] R m(2) this l(2), of color]
  then show ?thesis using c m(1) by (intro exI conjI, unfold vga_convert_def, simp) (rule e(2))
qed

lemma convert_hex:
  assumes b: "buffers fb nb \<inter> video_window = {}" and c: "c = ch CHR ''x'' \<or> c = ch CHR ''X''"
  shows "\<exists>u. vga_convert fmt fb nb c wd color arg s = Some (arg + 8, u) \<and>
    emits (buffers fb nb) s (map (\<lambda>b. (b, color)) (replicate (nat wd - length (upper_hex (rd32 (mem s) arg))) 48 @
      upper_hex (rd32 (mem s) arg))) u"
proof -
  let ?t = "upper_hex (rd32 (mem s) arg)" and ?m = "hex_to_str (mem s) (rd32 (mem s) arg) nb"
  let ?z = "replicate (nat wd - length ?t) (48 :: u8)" and ?s = "s\<lparr>mem := ?m\<rparr>"
  have l: "Suc (length ?t) \<le> 32" "length ?t < 2 ^ 31" using upper_hex_length [of "rd32 (mem s) arg"] by simp_all
  have R: "region nb 9 \<subseteq> buffers fb nb" using region_mono [of 9 32 nb] by (auto simp: buffers_def)
  have d: "region nb (Suc (length ?t)) \<inter> video_window = {}"
    using b region_mono [OF l(1), of nb] by (auto simp: buffers_def)
  note h = hex_to_str_ok [where m = "mem s" and num = "rd32 (mem s) arg" and str = nb]
  have len: "strlen ?m nb = Some (int (length ?t))" using strlen_cstr [OF h(1)] l(2) by simp
  have "safe_text ?s nb ?t" using h(1) d l(2) by (simp add: safe_text_def)
  then have "safe_text (put_colored color ?z ?s) nb ?t" by (rule safe_text_frame [OF con_frame_put_colored])
  then have "put_text nb color (put_colored color ?z ?s) = Some (put_colored color ?t (put_colored color ?z ?s))"
    by (intro put_text_ok) (simp_all add: safe_text_def)
  moreover have "put_colored color ?t (put_colored color ?z ?s) = put_colored color (?z @ ?t) ?s"
    by (simp add: put_colored_def)
  moreover have "nat (wd - int (length ?t)) = nat wd - length ?t" by simp
  ultimately have "vga_convert fmt fb nb c wd color arg s = Some (arg + 8, put_colored color (?z @ ?t) ?s)"
    using c len by (elim disjE) (simp_all add: vga_convert_def Let_def put_zeros)
  moreover have "emits (buffers fb nb) s (map (\<lambda>b. (b, color)) (?z @ ?t)) (put_colored color (?z @ ?t) ?s)"
    using agree_on_subset [OF h(2), of "- buffers fb nb"] R by (intro emits_scratch [OF emits_colored]) auto
  ultimately show ?thesis by blast
qed

lemma convert_double:
  assumes b: "buffers fb nb \<inter> video_window = {}" and c: "c = ch CHR ''f''"
    and w: "double_of_bits fmt (rd64 (mem s) arg) = Some (neg, k)" and k: "k < one fmt"
  shows "\<exists>u. vga_convert fmt fb nb c wd color arg s = Some (arg + 8, u) \<and>
    emits (buffers fb nb) s (map (\<lambda>b. (b, color)) (rev (ftos_raw fmt neg 2 k))) u"
proof -
  let ?raw = "ftos_raw fmt neg 2 k"
  have k31: "k < 2 ^ 31 * one fmt" using k by simp
  obtain m where m: "ftos fmt (mem s) (rd64 (mem s) arg) fb (int 2) = Some m" "cstr m fb (rev ?raw)"
    "agree_on (- region fb (Suc (length ?raw))) (mem s) m"
    by (rule ftos_writes [OF w k31, of 2 "mem s" fb]) simp_all
  have l: "Suc (length ?raw) \<le> 32" "length (rev ?raw) < 2 ^ 31" using k by (simp_all add: ftos_raw_def)
  have R: "region fb (Suc (length ?raw)) \<subseteq> buffers fb nb" using region_mono [OF l(1), of fb] by (auto simp: buffers_def)
  then have "region fb (Suc (length (rev ?raw))) \<inter> video_window = {}" using b by auto
  note e = emits_buffer [OF m(3) R m(2) this l(2), of color]
  show ?thesis using c m(1) e by (intro exI conjI, unfold vga_convert_def, simp) (rule e(2))
qed

lemma vga_convert_ok:
  assumes b: "buffers fb nb \<inter> video_window = {}" and c: "c \<in> set (lit ''duxXcsf'')"
    and a: "rd64 (mem s) arg = slot a" "text_ok video_window (mem s) a" and t: "arg_text fmt ds c a = Some t"
  shows "\<exists>u. vga_convert fmt fb nb c (digits_value ds 0) color arg s = Some (arg + 8, u) \<and>
    emits (buffers fb nb) s (map (\<lambda>b. (b, color)) t) u"
proof -
  have r: "rd32 (mem s) arg = ucast (slot a)" using a(1) by (simp add: rd32_rd64)
  consider (dec) "c = ch CHR ''d'' \<or> c = ch CHR ''u''" | (hex) "c = ch CHR ''x'' \<or> c = ch CHR ''X''"
    | (char) "c = ch CHR ''c''" | (str) "c = ch CHR ''s''" | (dbl) "c = ch CHR ''f''"
    using c by auto
  then show ?thesis
  proof cases
    case dec
    then have "sint (rd32 (mem s) arg) \<noteq> INT_MIN" "t = int_text (sint (rd32 (mem s) arg))"
      using t by (auto simp: arg_text_def r Let_def split: if_splits)
    then show ?thesis using convert_decimal [OF b dec] by simp
  next
    case hex
    then have "t = replicate (nat (digits_value ds 0) - length (upper_hex (rd32 (mem s) arg))) 48 @ upper_hex (rd32 (mem s) arg)"
      using t by (auto simp: arg_text_def r Let_def)
    then show ?thesis using convert_hex [OF b hex] by simp
  next
    case char
    have "(ucast (rd32 (mem s) arg) :: u8) = ucast (slot a)" unfolding r by (rule bit_word_eqI) (simp add: bit_simps)
    then show ?thesis using char t by (auto simp: arg_text_def vga_convert_def intro: emits_put [OF emits_done])
  next
    case str
    then obtain p where p: "a = Text p t" using t by (auto simp: arg_text_def split: argument.splits)
    then have "put_text p color s = Some (put_colored color t s)" using a(2) by (intro put_text_ok) simp_all
    then show ?thesis using str a(1) p emits_colored [of "buffers fb nb" s color t] by (auto simp: vga_convert_def)
  next
    case dbl
    then obtain neg k where k: "double_of_bits fmt (rd64 (mem s) arg) = Some (neg, k)" "k < one fmt"
      "t = rev (ftos_raw fmt neg 2 k)"
      using t a(1) by (auto simp: arg_text_def split: option.splits if_splits)
    then show ?thesis using convert_double [OF b dbl k(1,2)] by simp
  qed
qed

lemma vga_convert_other: "c \<notin> set (lit ''duxXcsf'') \<Longrightarrow> vga_convert fmt fb nb c wd color arg s = Some (arg, kputchar c color s)"
  by (simp add: vga_convert_def)

section \<open>The loop\<close>

text \<open>The arguments in memory; nothing of them lies in \<open>W\<close>.\<close>

fun args_at :: "u64 set \<Rightarrow> memory \<Rightarrow> u64 \<Rightarrow> argument list \<Rightarrow> bool" where
  "args_at W m a [] \<longleftrightarrow> True"
| "args_at W m a (x # xs) \<longleftrightarrow> rd64 m a = slot x \<and> region a 8 \<inter> W = {} \<and> text_ok W m x \<and> args_at W m (a + 8) xs"

lemma cstr_kept:
  "agree_on (- W) m m' \<Longrightarrow> cstr m p bs \<Longrightarrow> region p (Suc (length bs)) \<inter> W = {} \<Longrightarrow> length bs < 2 ^ 31 \<Longrightarrow> cstr m' p bs"
  by (rule cstr_agree) (auto intro: agree_on_subset)

lemma arg_kept:
  assumes "agree_on (- (video_window \<union> R)) m m'" and "args_at (video_window \<union> R) m a (x # xs)"
  shows "rd64 m' a = slot x" and "text_ok video_window m' x"
proof -
  have "agree_on (region a 8) m m'" using assms by (auto intro: agree_on_subset)
  then show "rd64 m' a = slot x" using assms(2) by (simp add: rd64_cong)
  show "text_ok video_window m' x"
  proof (cases x)
    case (Text p bs)
    then have t: "cstr m p bs" "region p (Suc (length bs)) \<inter> (video_window \<union> R) = {}" "length bs < 2 ^ 31"
      using assms(2) by simp_all
    have "region p (Suc (length bs)) \<inter> video_window = {}" using t(2) by blast
    then show ?thesis using cstr_kept [OF assms(1) t] assms(2) Text by simp
  qed simp
qed

definition format_at :: "u64 set \<Rightarrow> memory \<Rightarrow> u64 \<Rightarrow> directive_item list \<Rightarrow> bool" where
  "format_at W m p xs \<longleftrightarrow> cstr m p (concat (map item_bytes xs)) \<and>
     region p (Suc (length (concat (map item_bytes xs)))) \<inter> W = {} \<and> length (concat (map item_bytes xs)) < 2 ^ 31"

lemma format_at_next:
  assumes "format_at W m p (x # xs)"
  shows "format_at W m (p + of_nat (length (item_bytes x))) xs"
proof -
  let ?n = "length (concat (map item_bytes xs))" and ?k = "length (item_bytes x)"
  have l: "?k + ?n < 2 ^ 31" using assms by (simp add: format_at_def)
  have "unat (of_nat ?k :: u64) = ?k" using l by (intro unat_of_nat_small) simp
  then have "region (p + of_nat ?k) (Suc ?n) \<subseteq> region p (Suc (?k + ?n))"
    using l by (intro region_offset_subset) simp_all
  moreover have "cstr m (p + of_nat ?k) (concat (map item_bytes xs))"
    using assms bytes_at_append [of m p "item_bytes x" "concat (map item_bytes xs) @ [0]"]
    by (simp add: format_at_def cstr_bytes_at)
  ultimately show ?thesis using assms l by (auto simp: format_at_def)
qed

lemma loop_plain:
  assumes "cstr (mem s) p (b # rest)" and "b \<noteq> 37" and "b \<noteq> 60"
  shows "vga_kprintf_loop fmt fb nb p color arg s = vga_kprintf_loop fmt fb nb (p + 1) color arg (kputchar b color s)"
  using assms by (subst vga_kprintf_loop.simps) (simp add: Let_def)

lemma loop_conv:
  assumes "cstr (mem s) p (item_bytes (Conv ds c) @ rest)" and "item_ok (Conv ds c)"
    and "vga_convert fmt fb nb c (digits_value ds 0) color arg s = Some (arg', t)"
  shows "vga_kprintf_loop fmt fb nb p color arg s =
    vga_kprintf_loop fmt fb nb (p + of_nat (length (item_bytes (Conv ds c)))) color arg' t"
proof -
  have c: "mem s p = 37" "cstr (mem s) (p + 1) (ds @ c # rest)" using assms(1) by simp_all
  have "parse_width (mem s) (mem s (p + 1)) (p + 1 + 1) 0 = Some (digits_value ds 0, c, p + 1 + of_nat (length ds) + 1)"
    using assms(2) by (intro parse_width_ok [OF c(2)]) simp_all
  moreover have "p + of_nat (length (item_bytes (Conv ds c))) = p + 1 + of_nat (length ds) + 1" by simp
  ultimately show ?thesis
    using c(1) assms(3) by (subst vga_kprintf_loop.simps) (simp only: Let_def, simp)
qed

lemma vga_loop_format:
  assumes buf: "buffers fb nb \<inter> video_window = {}" and W: "W = video_window \<union> buffers fb nb"
  shows "format_text fmt color xs args = Some out \<Longrightarrow> list_all item_ok xs \<Longrightarrow> format_at W m p xs \<Longrightarrow>
    args_at W m arg args \<Longrightarrow> agree_on (- W) m (mem s) \<Longrightarrow>
    \<exists>t. vga_kprintf_loop fmt fb nb p color arg s = Some t \<and> emits (buffers fb nb) s out t"
proof (induction xs arbitrary: color args out p arg s)
  case Nil
  have "p \<in> region p 1" by (simp add: region_def)
  then have "m p = 0" "p \<in> - W" using Nil.prems(3) by (auto simp: format_at_def)
  then have "mem s p = 0" using agree_onD [OF Nil.prems(5)] by simp
  then show ?case using Nil by (subst vga_kprintf_loop.simps) (simp add: Let_def emits_done)
next
  case (Cons x xs)
  let ?rest = "concat (map item_bytes xs)" and ?R = "buffers fb nb"
  let ?p = "p + of_nat (length (item_bytes x))"
  note nx = format_at_next [OF Cons.prems(3)]
  have ok: "item_ok x" "list_all item_ok xs" using Cons.prems(2) by simp_all
  have f: "cstr (mem s) p (item_bytes x @ ?rest)" "region p (Suc (length (item_bytes x @ ?rest))) \<inter> video_window = {}"
    "length (item_bytes x @ ?rest) < 2 ^ 31"
    using cstr_kept [OF Cons.prems(5)] Cons.prems(3) by (auto simp: format_at_def W)
  have step: "\<exists>t. vga_kprintf_loop fmt fb nb p color arg s = Some t \<and> emits ?R s (o1 @ o2) t"
    if l: "vga_kprintf_loop fmt fb nb p color arg s = vga_kprintf_loop fmt fb nb ?p col arg' u"
      and e: "emits ?R s o1 u" and r: "format_text fmt col xs args' = Some o2" and a: "args_at W m arg' args'"
    for col arg' args' u o1 o2
  proof -
    have "agree_on (- W) m (mem u)" using agree_on_trans [OF Cons.prems(5)] emits_mem [OF e] by (simp add: W)
    then obtain t where "vga_kprintf_loop fmt fb nb ?p col arg' u = Some t" "emits ?R u o2 t"
      using Cons.IH [OF r ok(2) nx a] by blast
    then show ?thesis using l emits_append [OF e] by auto
  qed
  show ?case
  proof (cases x)
    case (Plain b)
    then obtain o2 where o2: "format_text fmt color xs args = Some o2" "out = [(b, color)] @ o2" using Cons.prems(1) by auto
    have "vga_kprintf_loop fmt fb nb p color arg s = vga_kprintf_loop fmt fb nb ?p color arg (kputchar b color s)"
      using loop_plain [of s p b ?rest] f(1) ok(1) Plain by simp
    from step [OF this emits_put [OF emits_done] o2(1) Cons.prems(4)] show ?thesis by (simp add: o2(2))
  next
    case (Colour bg fg)
    have "safe_text s p ([60, 40, bg, fg, 41, 62] @ ?rest)" using f Colour by (simp add: safe_text_def)
    from conjunct1 [OF vga_loop_code [OF this, of fmt fb nb color arg]]
    have "vga_kprintf_loop fmt fb nb p color arg s =
        vga_kprintf_loop fmt fb nb ?p (of_nat (16 * hex_place bg + hex_place fg)) arg s"
      by (simp add: Colour parse_color_code_hex)
    from step [OF this emits_done _ Cons.prems(4), of out] show ?thesis using Cons.prems(1) Colour by simp
  next
    case (Conv ds c)
    note lc = loop_conv [OF f(1) [unfolded Conv] ok(1) [unfolded Conv], folded Conv]
    show ?thesis
    proof (cases "c \<in> set (lit ''duxXcsf'')")
      case True
      then obtain a as t o2 where a: "args = a # as" "arg_text fmt ds c a = Some t" "format_text fmt color xs as = Some o2"
        "out = map (\<lambda>b. (b, color)) t @ o2"
        using Cons.prems(1) Conv by (auto split: list.splits bind_splits)
      have k: "rd64 (mem s) arg = slot a" "text_ok video_window (mem s) a"
        using arg_kept [OF Cons.prems(5) [unfolded W]] Cons.prems(4) unfolding a(1) W by blast+
      obtain u where u: "vga_convert fmt fb nb c (digits_value ds 0) color arg s = Some (arg + 8, u)"
        "emits ?R s (map (\<lambda>b. (b, color)) t) u"
        using vga_convert_ok [OF buf True k a(2)] by blast
      have "args_at W m (arg + 8) as" using Cons.prems(4) a(1) by simp
      from step [OF lc [OF u(1)] u(2) a(3) this] show ?thesis by (simp add: a(4))
    next
      case False
      then obtain o2 where o2: "format_text fmt color xs args = Some o2" "out = [(c, color)] @ o2"
        using Cons.prems(1) Conv by auto
      from step [OF lc [OF vga_convert_other [OF False]] emits_put [OF emits_done] o2(1) Cons.prems(4)]
      show ?thesis by (simp add: o2(2))
    qed
  qed
qed

section \<open>The whole call\<close>

text \<open>
  A format that takes no argument.  It is printed as it stands, with the characters of the formatter, and the buffers are
  not used.
\<close>

lemma format_kept:
  assumes "format_at W m p xs" and "agree_on (- W) m m'"
  shows "format_at W m' p xs"
  using assms cstr_kept [OF assms(2)] unfolding format_at_def by blast

lemma vga_loop_no_args:
  "format_text fmt color xs [] = Some out \<Longrightarrow> list_all item_ok xs \<Longrightarrow> format_at video_window (mem s) p xs \<Longrightarrow>
    vga_kprintf_loop fmt fb nb p color arg s = Some (fold (\<lambda>(b, col). kputchar b col) out s)"
proof (induction xs arbitrary: color out p s)
  case Nil
  then show ?case by (subst vga_kprintf_loop.simps) (simp add: format_at_def Let_def)
next
  case (Cons x xs)
  let ?rest = "concat (map item_bytes xs)" and ?p = "p + of_nat (length (item_bytes x))"
  have ok: "item_ok x" "list_all item_ok xs" using Cons.prems(2) by simp_all
  have f: "cstr (mem s) p (item_bytes x @ ?rest)" "region p (Suc (length (item_bytes x @ ?rest))) \<inter> video_window = {}"
    "length (item_bytes x @ ?rest) < 2 ^ 31"
    using Cons.prems(3) by (simp_all add: format_at_def)
  have nx: "format_at video_window (mem s) ?p xs" by (rule format_at_next [OF Cons.prems(3)])
  have put: "format_at video_window (mem (kputchar b col s)) ?p xs" for b col
    using con_frame_mem [OF con_frame_kputchar, of _ b col s] by (intro format_kept [OF nx]) (simp add: agree_on_def)
  show ?case
  proof (cases x)
    case (Plain b)
    then obtain o2 where o2: "format_text fmt color xs [] = Some o2" "out = (b, color) # o2" using Cons.prems(1) by auto
    have "vga_kprintf_loop fmt fb nb p color arg s = vga_kprintf_loop fmt fb nb ?p color arg (kputchar b color s)"
      using loop_plain [of s p b ?rest] f(1) ok(1) Plain by simp
    then show ?thesis using Cons.IH [OF o2(1) ok(2) put] by (simp add: o2(2))
  next
    case (Colour bg fg)
    have "safe_text s p ([60, 40, bg, fg, 41, 62] @ ?rest)" using f Colour by (simp add: safe_text_def)
    from conjunct1 [OF vga_loop_code [OF this, of fmt fb nb color arg]]
    have "vga_kprintf_loop fmt fb nb p color arg s =
        vga_kprintf_loop fmt fb nb ?p (of_nat (16 * hex_place bg + hex_place fg)) arg s"
      by (simp add: Colour parse_color_code_hex)
    then show ?thesis using Cons.IH [OF _ ok(2) nx] Cons.prems(1) Colour by simp
  next
    case (Conv ds c)
    then have c: "c \<notin> set (lit ''duxXcsf'')" using Cons.prems(1) by (auto split: if_splits)
    then obtain o2 where o2: "format_text fmt color xs [] = Some o2" "out = (c, color) # o2"
      using Cons.prems(1) Conv by auto
    have "vga_kprintf_loop fmt fb nb p color arg s = vga_kprintf_loop fmt fb nb ?p color arg (kputchar c color s)"
      using loop_conv [OF f(1) [unfolded Conv] ok(1) [unfolded Conv] vga_convert_other [OF c]] unfolding Conv by simp
    then show ?thesis using Cons.IH [OF o2(1) ok(2) put] by (simp add: o2(2))
  qed
qed

text \<open>
  C26.  \<open>kprintf\<close> of \<open>vga.c\<close> on a format that takes no argument (text without \<open>%\<close> and \<open><\<close>, complete colour codes
  \<open><(bf)>\<close>, and \<open>%\<close> with a width and a character that is none of \<open>duxXcsf\<close>, as in \<open>%%\<close>) is a formatter: it returns, and all it does to
  the machine is to send exactly the characters of the abstract formatter, each in its colour, to the console, in order.  A
  colour code changes the colour of what follows, its first digit being the background, and is not printed; after
  an unknown conversion only its character is printed.
\<close>

theorem vga_kprintf_formats:
  assumes "format_text fmt 0x07 xs [] = Some out" and "list_all item_ok xs"
    and "format_at video_window (mem s) (rd64 (mem s) format_addr) xs"
  shows "vga_kprintf fmt float_buf num_buf format_addr s = Some (fold (\<lambda>(b, color). kputchar b color) out s)"
  unfolding vga_kprintf_def by (rule vga_loop_no_args [OF assms])

text \<open>
  With arguments.  The code takes them from the memory behind the address of its first parameter, eight bytes each; what it
  prints when they stand there, apart from its local buffers, is the text of the formatter (no \<open>INT_MIN\<close> for \<open>%d\<close>, doubles below 1
  for \<open>%f\<close>).  A call after the x86-64 convention does not put them there, so this says how the
  conversions work and not what a call with arguments does.
\<close>

theorem vga_kprintf_arguments:
  assumes "format_text fmt 0x07 xs args = Some out" and "list_all item_ok xs"
    and "format_at (video_window \<union> buffers float_buf num_buf) (mem s) (rd64 (mem s) format_addr) xs"
    and "args_at (video_window \<union> buffers float_buf num_buf) (mem s) (format_addr + 8) args"
    and "buffers float_buf num_buf \<inter> video_window = {}"
  shows "\<exists>t. vga_kprintf fmt float_buf num_buf format_addr s = Some t \<and> emits (buffers float_buf num_buf) s out t"
  unfolding vga_kprintf_def by (rule vga_loop_format [OF assms(5) refl assms(1-4)]) simp

text \<open>The format \<open>a<(1F)>%4x%s\<close> with 0xAB and \<open>"ok"\<close>.\<close>

definition format_machine :: machine where
  "format_machine = boot_machine\<lparr>mem := (\<lambda>_. 0)(0x400002 := 0x50, 0x400008 := 0xAB, 0x400012 := 0x51,
     0x500000 := 97, 0x500001 := 60, 0x500002 := 40, 0x500003 := 49, 0x500004 := 70, 0x500005 := 41, 0x500006 := 62,
     0x500007 := 37, 0x500008 := 52, 0x500009 := 120, 0x50000A := 37, 0x50000B := 115,
     0x510000 := 111, 0x510001 := 107)\<rparr>"

lemma region_free:
  assumes "0xd0000 \<le> a" and "a + n \<le> 0x600000"
  shows "region (of_nat a) n \<inter> (video_window \<union> buffers 0x700000 0x600000) = {}"
  using region_of_nat_disjoint [of "0xb8000" 65537 a n] region_of_nat_disjoint [of a n "0x600000" 32]
    region_of_nat_disjoint [of a n "0x700000" 32] assms
  by (auto simp: video_window_def VIDEO_ADDRESS_def buffers_def)

theorem vga_kprintf_formats_witness:
  "vga_kprintf X87_extended 0x700000 0x600000 0x400000 (boot_machine\<lparr>mem := (\<lambda>_. 0)(0x400002 := 0x50, 0x500000 := 97,
      0x500001 := 60, 0x500002 := 40, 0x500003 := 49, 0x500004 := 70, 0x500005 := 41, 0x500006 := 62, 0x500007 := 37,
      0x500008 := 37)\<rparr>) =
    Some (kputchar 37 0x1F (kputchar 97 7 (boot_machine\<lparr>mem := (\<lambda>_. 0)(0x400002 := 0x50, 0x500000 := 97,
      0x500001 := 60, 0x500002 := 40, 0x500003 := 49, 0x500004 := 70, 0x500005 := 41, 0x500006 := 62, 0x500007 := 37,
      0x500008 := 37)\<rparr>)))"
  (is "vga_kprintf _ _ _ _ ?s = _")
proof -
  let ?xs = "[Plain 97, Colour 49 70, Conv [] 37]"
  have h: "hex_place 49 = 1" "hex_place 70 = 15" by (simp_all add: hex_place_def)
  have out: "format_text X87_extended 7 ?xs [] = Some [(97, 7), (37, 0x1F)]" by (simp add: h)
  have ok: "list_all item_ok ?xs" by (simp add: digit_char_def digits_value_def INT_MAX_def)
  have "region 0x500000 (Suc (length (concat (map item_bytes ?xs)))) \<inter> video_window = {}"
    using region_free [where a = "0x500000" and n = "Suc (length (concat (map item_bytes ?xs)))"] by (simp add: Int_Un_distrib)
  then have f: "format_at video_window (mem ?s) (rd64 (mem ?s) 0x400000) ?xs"
    by (simp add: format_at_def rd64_def rd32_def)
  show ?thesis using vga_kprintf_formats [OF out ok f] by simp
qed

theorem vga_kprintf_arguments_witness:
  "\<exists>t. vga_kprintf X87_extended 0x700000 0x600000 0x400000 format_machine = Some t \<and>
    emits (buffers 0x700000 0x600000) format_machine
      [(97, 7), (48, 0x1F), (48, 0x1F), (65, 0x1F), (66, 0x1F), (111, 0x1F), (107, 0x1F)] t"
proof -
  let ?xs = "[Plain 97, Colour 49 70, Conv [52] 120, Conv [] 115]" and ?args = "[Number 0xAB, Text 0x510000 [111, 107]]"
  let ?W = "video_window \<union> buffers 0x700000 0x600000" and ?s = format_machine
  have h: "hex_place 49 = 1" "hex_place 70 = 15" by (simp_all add: hex_place_def)
  have u: "upper_hex 0xAB = [65, 66]" by (simp add: upper_hex_def xdigits_pos xdigit_def)
  have out: "format_text X87_extended 7 ?xs ?args =
      Some [(97, 7), (48, 0x1F), (48, 0x1F), (65, 0x1F), (66, 0x1F), (111, 0x1F), (107, 0x1F)]"
    by (simp add: h u arg_text_def digits_value_def Let_def, simp add: numeral_2_eq_2)
  have ok: "list_all item_ok ?xs" by (simp add: digit_char_def digits_value_def INT_MAX_def)
  have f: "format_at ?W (mem ?s) (rd64 (mem ?s) 0x400000) ?xs"
    using region_free [where a = "0x500000" and n = "Suc (length (concat (map item_bytes ?xs)))"]
    by (simp add: format_at_def format_machine_def rd64_def rd32_def)
  have a: "args_at ?W (mem ?s) (0x400000 + 8) ?args"
    using region_free [of "0x400008" 8] region_free [of "0x400010" 8] 
      region_free [where a = "0x510000" and n = "Suc (length [111, 107 :: u8])"]
    by (simp add: format_machine_def rd64_def rd32_def)
  have "buffers 0x700000 0x600000 \<inter> video_window = {}"
    using region_of_nat_disjoint [of "0xb8000" 65537 "0x600000" 32] region_of_nat_disjoint [of "0xb8000" 65537 "0x700000" 32]
    by (auto simp: video_window_def VIDEO_ADDRESS_def buffers_def)
  from vga_kprintf_arguments [OF out ok f a this] show ?thesis .
qed

end
