(* ===== verification/Userland.thy ===== *)
theory Userland
  imports InterruptLaws
begin

text \<open>
  The C library of user programs, \<open>include/libc/unistd.h\<close> and \<open>include/libc/stdio.h\<close>: system calls as inline assembly and
  the character functions on top of them, run against the kernel's own interrupt path.
\<close>

section \<open>System calls\<close>

text \<open>
  \<open>int $0x80\<close> with the number in \<open>eax\<close> and the operands in \<open>rdi\<close>, \<open>rsi\<close> and \<open>rdx\<close>; the result is the \<open>int\<close> in \<open>eax\<close>.
  The other registers, \<open>regs\<close>, are the program's.
\<close>

definition trap ::
  "('a kernel_scheme \<Rightarrow> 'a kernel_scheme option) \<Rightarrow> cpu_registers \<Rightarrow> u64 \<Rightarrow> u64 \<Rightarrow> u64 \<Rightarrow> u64 \<Rightarrow> 'a kernel_scheme \<Rightarrow>
    (int \<times> 'a kernel_scheme) option" where
  "trap hlt regs num a b c s = do {
     (regs, s) \<leftarrow> interrupt hlt
       (regs\<lparr>int_no := 0x80, err_code := 0, rax := num, rdi := a, rsi := b, rdx := c\<rparr>) s;
     Some (sint (ucast (rax regs) :: u32), s) }"

definition libc_read ::
  "('a kernel_scheme \<Rightarrow> 'a kernel_scheme option) \<Rightarrow> cpu_registers \<Rightarrow> u32 \<Rightarrow> u64 \<Rightarrow> u64 \<Rightarrow> 'a kernel_scheme \<Rightarrow>
    (int \<times> 'a kernel_scheme) option" where
  "libc_read hlt regs fd buf count s = trap hlt regs 0 (ucast fd) buf count s"

definition libc_write ::
  "('a kernel_scheme \<Rightarrow> 'a kernel_scheme option) \<Rightarrow> cpu_registers \<Rightarrow> u32 \<Rightarrow> u64 \<Rightarrow> u64 \<Rightarrow> 'a kernel_scheme \<Rightarrow>
    (int \<times> 'a kernel_scheme) option" where
  "libc_write hlt regs fd buf count s = trap hlt regs 1 (ucast fd) buf count s"

text \<open>
  \<open>_exit\<close> has no way back to its caller: behind the system call stands \<open>__builtin_unreachable()\<close>.  The result
  says whether control gets there: \<open>Some (Unreachable, s)\<close> if the system call comes back, in the state \<open>s\<close>, so that the
  program's behaviour is undefined from there on; \<open>None\<close> if the system call itself does not return.
\<close>

datatype exit_outcome = Unreachable

definition libc_exit ::
  "('a kernel_scheme \<Rightarrow> 'a kernel_scheme option) \<Rightarrow> cpu_registers \<Rightarrow> u32 \<Rightarrow> 'a kernel_scheme \<Rightarrow>
    (exit_outcome \<times> 'a kernel_scheme) option" where
  "libc_exit hlt regs status s = do {
     (_, s) \<leftarrow> trap hlt regs 60 (ucast status) (rsi regs) (rdx regs) s;
     Some (Unreachable, s) }"

section \<open>Characters\<close>

definition EOF :: int where "EOF = - 1"

text \<open>\<open>loc\<close> is the address of the local variable \<open>ch\<close>, and \<open>nl\<close> that of the literal \<open>"\n"\<close>.\<close>

definition putchar ::
  "('a kernel_scheme \<Rightarrow> 'a kernel_scheme option) \<Rightarrow> cpu_registers \<Rightarrow> u64 \<Rightarrow> int \<Rightarrow> 'a kernel_scheme \<Rightarrow>
    (int \<times> 'a kernel_scheme) option" where
  "putchar hlt regs loc c s = do {
     (r, s) \<leftarrow> libc_write hlt regs 1 loc 1 (s\<lparr>mem := (mem s)(loc := word_of_int c)\<rparr>);
     Some (if r = 1 then c else EOF, s) }"

definition getchar ::
  "('a kernel_scheme \<Rightarrow> 'a kernel_scheme option) \<Rightarrow> cpu_registers \<Rightarrow> u64 \<Rightarrow> 'a kernel_scheme \<Rightarrow>
    (int \<times> 'a kernel_scheme) option" where
  "getchar hlt regs loc s = do {
     (r, s) \<leftarrow> libc_read hlt regs 0 loc 1 s;
     Some (if r = 1 then uint (mem s loc) else EOF, s) }"

text \<open>The loop that measures the string is the one of \<open>strlen\<close>.\<close>

definition puts ::
  "('a kernel_scheme \<Rightarrow> 'a kernel_scheme option) \<Rightarrow> cpu_registers \<Rightarrow> u64 \<Rightarrow> u64 \<Rightarrow> 'a kernel_scheme \<Rightarrow>
    (int \<times> 'a kernel_scheme) option" where
  "puts hlt regs nl str s = do {
     len \<leftarrow> strlen_loop (mem s) str 0;
     (r, s) \<leftarrow> libc_write hlt regs 1 str (word_of_int len) s;
     if r < 0 then Some (EOF, s)
     else do {
       (r, s) \<leftarrow> libc_write hlt regs 1 nl 1 s;
       if r < 0 then Some (EOF, s)
       else do { n \<leftarrow> c_int (len + 1); Some (n, s) } } }"

section \<open>Output\<close>

lemma libc_write_prints:
  assumes "interrupt_handlers s 0x80 = Some Syscall_handler" and "bytes_at (mem s) buf xs"
    and "length xs < 2 ^ 31" and "region buf (length xs) \<inter> video_window = {}"
  obtains t where "debug_only (s\<lparr>iflag := False\<rparr>) t"
    and "libc_write hlt regs 1 buf (of_nat (length xs)) s = Some (int (length xs), (kputs xs t)\<lparr>iflag := iflag s\<rparr>)"
proof -
  let ?n = "of_nat (length xs) :: u64"
  let ?r = "regs\<lparr>int_no := 0x80, err_code := 0, rax := 1, rdi := 1, rsi := buf, rdx := ?n\<rparr>"
  obtain t where t: "debug_only (s\<lparr>iflag := False\<rparr>) t" "interrupt hlt ?r s =
      Option.bind (syscall_handler hlt ?r t) (\<lambda>(regs, s'). Some (regs, s'\<lparr>iflag := iflag s\<rparr>))"
    by (rule interrupt_syscall [OF assms(1), of ?r hlt]) simp_all
  have u: "unat ?n = length xs" using assms(3) by (intro unat_of_nat_small) simp
  have "mem t = mem s" using t(1) by (auto simp: debug_only_def)
  then have "write_chars buf 0 (length xs) t = Some (kputs xs t)"
    using assms by (intro write_chars_prints) simp_all
  then have "libc_write hlt regs 1 buf ?n s = Some (int (length xs), (kputs xs t)\<lparr>iflag := iflag s\<rparr>)"
    using t(2) sint_low [OF assms(3)] u by (simp add: libc_write_def trap_def syscall_handler_def sys_write_def)
  then show thesis using that t(1) by blast
qed

theorem putchar_prints:
  assumes "interrupt_handlers s 0x80 = Some Syscall_handler" and "loc \<notin> video_window"
  shows "\<exists>t. debug_only (s\<lparr>mem := (mem s)(loc := word_of_int c), iflag := False\<rparr>) t \<and>
    putchar hlt regs loc c s = Some (c, (kputc (word_of_int c) t)\<lparr>iflag := iflag s\<rparr>)"
proof -
  let ?s = "s\<lparr>mem := (mem s)(loc := word_of_int c)\<rparr>" and ?xs = "[word_of_int c :: u8]"
  have "region loc (length ?xs) \<inter> video_window = {}" using assms(2) by (simp add: region_Suc)
  then obtain t where t: "debug_only (?s\<lparr>iflag := False\<rparr>) t"
    "libc_write hlt regs 1 loc (of_nat (length ?xs)) ?s = Some (int (length ?xs), (kputs ?xs t)\<lparr>iflag := iflag ?s\<rparr>)"
    using libc_write_prints [of ?s loc ?xs hlt regs] assms(1) by (auto simp: bytes_at_def)
  then show ?thesis by (intro exI [of _ t]) (simp add: putchar_def kputs_def)
qed

text \<open>
  C24.  \<open>puts\<close> of a NUL-terminated string, run by a program against the kernel's system calls, prints the string and a
  newline through the kernel's console and returns the number of bytes printed; besides the console only the debug
  port 0xE9 is written to (by the trace of the two system calls), and the interrupt flag is what it was.
\<close>

theorem puts_prints:
  assumes "interrupt_handlers s 0x80 = Some Syscall_handler" and "cstr (mem s) str xs" and "length xs < 2 ^ 31 - 1"
    and "region str (length xs) \<inter> video_window = {}" and "mem s nl = 10" and "nl \<notin> video_window"
  shows "\<exists>t u. debug_only (s\<lparr>iflag := False\<rparr>) t \<and> debug_only (kputs xs t) u \<and>
    puts hlt regs nl str s = Some (int (length xs) + 1, (kputs [10] u)\<lparr>iflag := iflag s\<rparr>)"
proof -
  have len: "strlen_loop (mem s) str 0 = Some (int (length xs))"
    using strlen_cstr [OF assms(2)] assms(3) by (simp add: strlen_def)
  have b: "bytes_at (mem s) str xs" using assms(2) bytes_at_append [of "mem s" str xs "[0]"] by (simp add: cstr_bytes_at)
  obtain t where t: "debug_only (s\<lparr>iflag := False\<rparr>) t"
    "libc_write hlt regs 1 str (of_nat (length xs)) s = Some (int (length xs), (kputs xs t)\<lparr>iflag := iflag s\<rparr>)"
    using libc_write_prints [OF assms(1) b _ assms(4)] assms(3) by auto
  let ?s = "(kputs xs t)\<lparr>iflag := iflag s\<rparr>" and ?nl = "[10 :: u8]"
  have f: "con_frame t (kputs xs t)" by simp
  have k: "mem t = mem s" "interrupt_handlers t = interrupt_handlers s" "\<not> iflag t"
    using t(1) by (auto simp: debug_only_def)
  have h: "interrupt_handlers ?s 0x80 = Some Syscall_handler"
    using f k(2) assms(1) by (cases t; cases "kputs xs t") (simp add: con_frame_def)
  have n: "bytes_at (mem ?s) nl ?nl" using con_frame_mem [OF f assms(6)] k(1) assms(5) by (simp add: bytes_at_def)
  have r: "region nl (length ?nl) \<inter> video_window = {}" using assms(6) by (simp add: region_Suc)
  obtain u where u: "debug_only (?s\<lparr>iflag := False\<rparr>) u"
    "libc_write hlt regs 1 nl (of_nat (length ?nl)) ?s = Some (int (length ?nl), (kputs ?nl u)\<lparr>iflag := iflag ?s\<rparr>)"
    by (rule libc_write_prints [OF h n _ r]) simp_all
  have "\<not> iflag (kputs xs t)" using f k(3) by (simp add: con_frame_def)
  then have "?s\<lparr>iflag := False\<rparr> = kputs xs t" by simp
  moreover have "puts hlt regs nl str s = Some (int (length xs) + 1, (kputs ?nl u)\<lparr>iflag := iflag s\<rparr>)"
    using t(2) u(2) assms(3) by (simp add: puts_def len INT_MAX_def INT_MIN_def c_int_def)
  ultimately show ?thesis using t(1) u(1) by auto
qed

theorem puts_prints_witness:
  "\<exists>s'. puts Some (irq_frame 0 0) 0x500000 0x400000 (boot_kernel\<lparr>interrupt_handlers := [0x80 \<mapsto> Syscall_handler],
      mem := (\<lambda>_. 0)(0x400000 := 72, 0x400001 := 105, 0x500000 := 10)\<rparr>) = Some (3, s')"
proof -
  let ?s = "boot_kernel\<lparr>interrupt_handlers := [0x80 \<mapsto> Syscall_handler],
      mem := (\<lambda>_. 0)(0x400000 := 72, 0x400001 := 105, 0x500000 := 10)\<rparr>"
  have c: "cstr (mem ?s) 0x400000 [72, 105]" by simp
  have r: "region 0x400000 (length [72, 105 :: u8]) \<inter> video_window = {}" "(0x500000 :: u64) \<notin> video_window"
    using region_of_nat_disjoint [of "0xb8000" 65537 "0x400000" 2]
    by (simp_all add: video_window_def VIDEO_ADDRESS_def Int_commute region_def numeral_2_eq_2 [symmetric])
  show ?thesis using puts_prints [OF _ c _ r(1) _ r(2), of Some "irq_frame 0 0"] by auto
qed

section \<open>Input\<close>

lemma kb_contents_Nil:
  assumes "kb_ok k" and "kb_contents k = []"
  shows "kb_empty k"
proof -
  obtain r k' where "keyboard_buffer_pop k = (r, k')" "list_pop (kb_contents k) = (r, kb_contents k')"
    using kbq.pop_split [OF assms(1)] by blast
  then show ?thesis using assms(2) by (auto simp: keyboard_buffer_pop_def kb_empty_def split: if_splits)
qed

text \<open>
  C25.  \<open>getchar\<close> takes the oldest character out of the keyboard buffer and returns it as an unsigned value; on an empty
  buffer it does not return, whatever interrupts of the kernel end the halt; and \<open>_exit\<close> never gets to the
  \<open>__builtin_unreachable()\<close> behind its system call, because the kernel's \<open>sys_exit\<close> halts for ever.
\<close>

theorem getchar_reads:
  assumes "interrupt_handlers s 0x80 = Some Syscall_handler" and "kb_ok (kb s)" and "never_pushes hlt"
  shows "(case kb_contents (kb s) of
      [] \<Rightarrow> getchar hlt regs loc s = None
    | c # q \<Rightarrow> \<exists>s'. getchar hlt regs loc s = Some (uint c, s') \<and> kb_ok (kb s') \<and> kb_contents (kb s') = q) \<and>
    libc_exit hlt regs status s = None"
proof
  let ?r = "regs\<lparr>int_no := 0x80, err_code := 0, rax := 0, rdi := 0, rsi := loc, rdx := 1\<rparr>"
  obtain t where t: "debug_only (s\<lparr>iflag := False\<rparr>) t" "interrupt hlt ?r s =
      Option.bind (syscall_handler hlt ?r t) (\<lambda>(regs, s'). Some (regs, s'\<lparr>iflag := iflag s\<rparr>))"
    by (rule interrupt_syscall [OF assms(1), of ?r hlt]) simp_all
  have k: "kb t = kb s" using t(1) by (auto simp: debug_only_def)
  show "case kb_contents (kb s) of
      [] \<Rightarrow> getchar hlt regs loc s = None
    | c # q \<Rightarrow> \<exists>s'. getchar hlt regs loc s = Some (uint c, s') \<and> kb_ok (kb s') \<and> kb_contents (kb s') = q"
  proof (cases "kb_contents (kb s)")
    case Nil
    have "sys_read hlt 0 loc 1 t = None"
      using kb_contents_Nil [OF assms(2) Nil] assms(3) by (intro sys_read_empty) (simp_all add: k)
    then show ?thesis using t(2) Nil by (simp add: getchar_def libc_read_def trap_def syscall_handler_def)
  next
    case (Cons c q)
    obtain m k' where r: "read_chars hlt loc 0 1 t = Some (t\<lparr>mem := m, kb := k'\<rparr>)" "kb_ok k'" "kb_contents k' = q"
      "bytes_at m loc [c]"
      using read_chars_available [of t "[c]" q 0 hlt loc] assms(2) Cons by (auto simp: k)
    then have "sys_read hlt 0 loc 1 t = Some (1, t\<lparr>mem := m, kb := k'\<rparr>)" by (simp add: sys_read_def)
    then show ?thesis using t(2) r(2-4) Cons
      by (simp add: getchar_def libc_read_def trap_def syscall_handler_def bytes_at_def)
  qed
next
  let ?r = "regs\<lparr>int_no := 0x80, err_code := 0, rax := 60, rdi := ucast status, rsi := rsi regs, rdx := rdx regs\<rparr>"
  obtain t where "interrupt hlt ?r s =
      Option.bind (syscall_handler hlt ?r t) (\<lambda>(regs, s'). Some (regs, s'\<lparr>iflag := iflag s\<rparr>))"
    by (rule interrupt_syscall [OF assms(1), of ?r hlt]) simp_all
  then show "libc_exit hlt regs status s = None"
    by (simp add: libc_exit_def trap_def syscall_handler_def sys_exit_def)
qed

theorem getchar_reads_witness:
  "\<exists>s'. getchar Some (irq_frame 0 0) 0x400000 (boot_kernel\<lparr>interrupt_handlers := [0x80 \<mapsto> Syscall_handler],
      kb := keyboard_buffer_push 200 keyboard_start\<rparr>) = Some (200, s')"
proof -
  let ?s = "boot_kernel\<lparr>interrupt_handlers := [0x80 \<mapsto> Syscall_handler], kb := keyboard_buffer_push 200 keyboard_start\<rparr>"
  have k: "kb_ok (kb ?s)" "kb_contents (kb ?s) = [200]"
    using kb_push_ok [OF keyboard_start_ok(1)] kb_push_contents [OF keyboard_start_ok(1)] keyboard_start_ok(2)
    by (simp_all add: list_push_def)
  have "never_pushes Some" by (simp add: never_pushes_def)
  then show ?thesis
    using getchar_reads [OF _ k(1), of Some "irq_frame 0 0" "0x400000" 0] k(2) by auto
qed

end
