(* ===== verification/Spec2Isabelle.thy ===== *)
theory Spec2Isabelle
  imports PrintfSpec HeapLimits NumeralLaws BootLaws ShellLaws KernelSafety VgaFormat Userland
begin

text \<open>
  A model of the Alphix kernel, a small x86-64 kernel in C, with the theorems that say what its parts do.  File names are
  those of the repository.

  \<^bold>\<open>The program.\<close>  GRUB loads the kernel; \<open>boot/boot.asm\<close> enters \<open>kernel_main\<close> of \<open>kernel/kernel.c\<close>, which scans the boot
  information, builds the page tables (\<open>mem/paging.c\<close>), the descriptor tables (\<open>cpu/gdt.c\<close>, \<open>cpu/tss.c\<close>, \<open>cpu/idt.c\<close>), sets
  up the interrupt controllers (\<open>cpu/pic.c\<close>) and the timer (\<open>cpu/apic.c\<close>), registers the system calls (\<open>cpu/syscall.c\<close>),
  clears the screen (\<open>drivers/output/vga.c\<close>), initialises the heap (\<open>mem/heap.c\<close>), enables interrupts and runs a loop
  that echoes keys.  Keys arrive by interrupt: the assembler stubs call \<open>isr_dispatch\<close>, which calls the handler that
  \<open>kgetch\<close> or \<open>kscan\<close> (\<open>cpu/kprintf.c\<close>) have registered for vector 33.  Every part prints through
  \<open>kprintf\<close> and copies through \<open>libc/string.c\<close>.

  \<^bold>\<open>The state.\<close>  Memory is flat: \<open>mem :: u64 \<Rightarrow> u8\<close> (\<open>ByteMemory\<close>), and pointers are 64-bit words, so aliasing, overlap and
  stray writes within it are those of the program.  The heap, the page tables, the TSS, the screen, the APIC's registers, the line buffer and
  all buffers of callers are bytes of it.  The record \<open>machine\<close> (\<open>Machine\<close>) adds the control registers, the MSRs, the
  interrupt flag and the port bus: \<open>io\<close> is the history of port accesses and \<open>bus\<close> an arbitrary function from
  histories to answers.  It is extended, in the order of the C modules, by the static variables of the heap
  (\<open>heap_machine\<close>), of keyboard input (\<open>input_machine\<close>), and of the interrupt side (\<open>kernel\<close>): handler table, ring
  buffer, APIC pointer, descriptor tables.  These static objects have no bytes in \<open>mem\<close>: a stray write that in the
  program would hit them is not seen in their fields.  \<open>KernelSafety\<close> closes the gap: it takes the addresses \<open>K\<close> at which the
  linker has placed them and shows under which conditions on the pointers of callers no operation writes to \<open>K\<close>.  An operation is a function on the state; \<open>None\<close> means that the C call does not
  return, or that C leaves its behaviour undefined (signed overflow, division by zero, a missing argument).

  \<^bold>\<open>The theories.\<close>
  \<^item> \<open>Prelude\<close>, \<open>ByteMemory\<close>, \<open>CString\<close>: widths, C integer ranges, bytes, 32- and 64-bit accesses (the locale \<open>scalar\<close>,
    interpreted for both), NUL-terminated strings.
  \<^item> \<open>MemOps\<close>, \<open>Strings\<close>, \<open>Numerals\<close>: \<open>libc/string.c\<close>; \<open>StringLaws\<close>, \<open>StringEdit\<close>, \<open>StringCopy\<close>, \<open>NumeralLaws\<close>: that copies
    are exact whatever overlaps, that the loops end on NUL-terminated strings, that \<open>itoa\<close> and \<open>atoi\<close> are inverse.
  \<^item> \<open>Machine\<close>, \<open>Vga\<close>, \<open>Console\<close>: ports and registers of \<open>cpu/cpu.c\<close>; the text console of \<open>vga.c\<close>, with the cursor in
    the CRT controller behind the bus; what every kind of character does to the cells and the cursor.
    \<open>con_frame\<close> is the frame of all output: only the memory window of the screen and the CRT ports change.
  \<^item> \<open>Printf\<close>, \<open>PrintfSpec\<close>, \<open>PrintfFormat\<close>: \<open>kvprintf\<close> of \<open>cpu/kprintf.c\<close>, directive by directive; that it implements an
    abstract formatter; where it departs from C's \<open>printf\<close>.  \<open>VgaText\<close>: the second \<open>kprintf\<close>, in \<open>vga.c\<close>, with its colour
    codes and \<open>ftos\<close>; \<open>Doubles\<close> is the floating-point arithmetic of \<open>ftos\<close> with its rounding; \<open>VgaTextLaws\<close>, \<open>FtosLaws\<close>
    and \<open>VgaFormat\<close> show what its parts write and that the whole implements an abstract formatter with colours: as a
    property for formats without arguments, and as a theorem about the words behind \<open>&format\<close> for conversions, because x86-64
    calls pass their arguments elsewhere.
  \<^item> \<open>Heap\<close>: \<open>mem/heap.c\<close>.  \<open>HeapSpec\<close> is the abstract allocator on lists of blocks; \<open>HeapChain\<close>, \<open>HeapProof\<close> and
    \<open>HeapFree\<close> prove that the code, on headers in memory, implements it (the invariant \<open>heap_ok\<close> relates machine and list);
    \<open>HeapLive\<close> and \<open>HeapClient\<close> give the client's view, a locale interpreted by \<open>kmalloc\<close> and \<open>kmfree\<close>; \<open>HeapLaws\<close>
    states the properties and \<open>HeapLimits\<close> where the code breaks its own contract.
  \<^item> \<open>Paging\<close>: \<open>paging_init\<close> against the page walk of the processor.  \<open>Descriptors\<close>: the tables against what the processor
    reads from their entries.  \<open>Debug\<close>, \<open>Pic\<close>: \<open>debug.c\<close> and \<open>cpu/pic.c\<close>, against the documented 8259A.
  \<^item> \<open>KeyTables\<close>, \<open>Keyboard\<close>, \<open>Input\<close>: scancodes, the ring buffer (the locale of a bounded queue, interpreted by it), the
    two keyboard handlers.
  \<^item> \<open>Interrupts\<close>, \<open>InterruptLaws\<close>: the handler table, \<open>isr_dispatch\<close>, the timer, the system calls; \<open>Userland\<close>: the
    library of user programs (\<open>include/libc/unistd.h\<close>, \<open>stdio.h\<close>), its calls run through \<open>isr_dispatch\<close>.
  \<^item> \<open>KernelMain\<close>: \<open>kgetch\<close>, \<open>kscan\<close> and \<open>kernel_main\<close>.  \<open>GetchLaws\<close>, \<open>KscanLaws\<close> and \<open>ShellLaws\<close> relate input to the
    stream of scancodes: the first key, the line that an abstract editor makes, the end of the shell.
    \<open>BootLaws\<close> is the start-up as a whole; \<open>KernelInvariant\<close> shows which fields no later operation assigns, \<open>KernelSafety\<close>
    where later operations write memory and that the kernel's own tables are safe from it; and this theory is the whole run.

  \<^bold>\<open>Devices and other code outside the repository\<close> enter as named hypotheses on \<open>bus\<close>, each shown satisfiable by a concrete
  bus: \<open>crtc_ok\<close> (the cursor registers read back what was written), \<open>pic_ok\<close> (the mask register reads back the mask),
  \<open>kbd_ok\<close> (port 0x60 delivers a stream of scancodes).  The page walk, the descriptor fields and the reaction of the
  8259A to its initialisation words are definitions after the processor and device manuals.  The halt instruction is the parameter
  \<open>hlt\<close>.  The addresses that the linker chooses (\<open>layout\<close>, \<open>kscan_buf\<close>) are arguments, and so is the format in which the compiler
  evaluates \<open>double\<close> (\<open>fp_format\<close>: C allows a wider one, and without SSE the x87 unit has it).

  \<^bold>\<open>Interrupts\<close> that arrive while the process context waits are a list; each is dispatched completely, with the
  interrupt flag off as behind an interrupt gate.  An interrupt is taken in the body of a waiting loop, not between the other
  statements of the process context.  \<open>KernelSafety\<close> has a step relation in which interrupts and calls of the process
  context follow one another in any order.

  \<^bold>\<open>Loops and bounds.\<close>  There is no fuel: a C loop is structural recursion, \<open>function\<close> with a measure, or
  \<open>partial_function (option)\<close> where it may run for ever, and then the theorems prove that it returns (or, for \<open>sys_read\<close>
  on an empty buffer, \<open>sys_exit\<close> and a tag of size 0, that it does not).  \<open>_exit\<close> of the user library, whose code ends in
  \<open>__builtin_unreachable()\<close>, has a result of its own for getting there, apart from not returning.  The theorem on \<open>kscan\<close> is for at most 510
  scancodes, because the handler does not check the 512 bytes of its buffer.

  \<^bold>\<open>Not modelled.\<close>  \<open>boot/boot.asm\<close>, \<open>cpu/isr.asm\<close> and the linker script (assembly; the model starts where the C code does,
  and \<open>interrupt\<close> stands for stub and \<open>iretq\<close>); the reload of the segment registers at the end of \<open>gdt_init\<close>;
  \<open>cpu_init\<close>, \<open>cpu_get_info\<close> and \<open>base_init\<close>, which do nothing; \<open>include/libc/printf.h\<close>, whose functions are
  declared and not defined, and the font table, which no file includes.  Timing, the caches and the effect of paging on the
  model's own memory accesses (the mapping is the identity below 4 GiB, see the property on paging) are left out.
\<close>

section \<open>The kernel from start to end\<close>

lemma heap_ok_console:
  assumes "heap_ok s bs" and "agree_on (- video_window) (mem s) (mem t)" and "kernel_heap t = kernel_heap s"
  shows "heap_ok t bs"
proof -
  have "con_frame s (s\<lparr>mem := mem t\<rparr>)" using assms(2) by (simp add: con_frame_def)
  from con_frame_heap_ok [OF this assms(1)] show ?thesis using assms(3) by (simp add: heap_ok_def)
qed

lemma kernel_main_panics:
  assumes "mgc \<noteq> 0x36d76289"
  shows "\<exists>s'. kernel_main hlt l irqs mgc mboot_info s = Some s' \<and> con_frame s s'"
proof -
  have "kprintf ''panic: invalid magic number\<newline>kernel ended.'' [] s =
      Some (kputs (lit ''panic: invalid magic number\<newline>kernel ended.'') s)"
    unfolding kprintf_def by (rule kvprintf_plain) simp
  then show ?thesis using assms by (simp add: kernel_main_def del: lit_Cons)
qed

text \<open>
  The start-up leaves the kernel in a state from which \<open>KernelSafety\<close> starts, provided that the linker has placed things apart and
  the line buffer still holds a string (it is zero in the image).
\<close>

lemma booted_kernel_ok:
  assumes "gdt s = gdt_start" "idt s = idt_start"
    and "pic_ok (bus s)" "pic1 (io s) = (0, Some m1)" "pic2 (io s) = (0, Some m2)"
    and "tag_chain (mem s) (mboot_info + 8) n"
    and "tables_ok (tables l)" "regions_apart l (apic_base s)"
    and "interrupt_handlers s = (\<lambda>_. None)" and "kb_ok (kb s)"
  shows "\<exists>s'. kernel_init l mboot_info s = Some s' \<and> (placed K s' \<longrightarrow> line_string s' \<longrightarrow> kernel_ok K s')"
  using kernel_boots_ok [OF assms(1-8)] assms(9,10) by (auto simp: kernel_ok_def boot_handlers_def)

text \<open>
  C5.  The kernel as a whole.  With another magic number \<open>kernel_main\<close> prints its complaint and returns, having touched
  nothing but the console.  With the right one, on a machine as in the property of the start-up and with a keyboard that
  brings the scancodes \<open>codes n\<close>, \<open>codes (n + 1)\<close>, ..., it initialises everything and then returns if and only if one of
  the keys that the interrupts bring is a \<open>q\<close>; the heap is then still the one free block that the start-up made.
\<close>

theorem kernel_main_ends:
  assumes "gdt s = gdt_start" "idt s = idt_start"
    and "pic_ok (bus s)" "pic1 (io s) = (0, Some m1)" "pic2 (io s) = (0, Some m2)"
    and "tag_chain (mem s) (mboot_info + 8) k"
    and "tables_ok (tables l)" "regions_apart l (apic_base s)"
    and "kbd_ok (bus s) codes" and "\<forall>r \<in> set irqs. int_no r = 33" and "n = kbd_reads (io s)"
  shows "(mgc \<noteq> 0x36d76289 \<longrightarrow> (\<exists>s'. kernel_main hlt l irqs mgc mboot_info s = Some s' \<and> con_frame s s')) \<and>
    (mgc = 0x36d76289 \<longrightarrow>
      (case after_q (shift s) (capslock s) (map codes [n ..< n + length irqs]) of
         None \<Rightarrow> kernel_main hlt l irqs mgc mboot_info s = None
       | Some rest \<Rightarrow> \<exists>s'. kernel_main hlt l irqs mgc mboot_info s = Some s' \<and> heap_ok s' [(0x100000, False)] \<and> iflag s'))"
proof (intro conjI impI)
  assume "mgc \<noteq> 0x36d76289"
  then show "\<exists>s'. kernel_main hlt l irqs mgc mboot_info s = Some s' \<and> con_frame s s'" by (rule kernel_main_panics)
next
  assume m: "mgc = 0x36d76289"
  obtain t where t: "kernel_init l mboot_info s = Some t" "heap_ok t [(0x100000, False)]" "iflag t" "bus t = bus s"
    "shift t = shift s" "capslock t = capslock s" "kbd_reads (io t) = n"
    using kernel_boots_ok [OF assms(1-8)] unfolding assms(11) by blast
  have "shell_result hlt (map codes [n ..< n + length irqs]) irqs t"
    by (rule shell_steps [where codes = codes, OF _ t(3) assms(10)]) (use assms(9) t(4,7) in simp_all)
  then show "case after_q (shift s) (capslock s) (map codes [n ..< n + length irqs]) of
         None \<Rightarrow> kernel_main hlt l irqs mgc mboot_info s = None
       | Some rest \<Rightarrow> \<exists>s'. kernel_main hlt l irqs mgc mboot_info s = Some s' \<and> heap_ok s' [(0x100000, False)] \<and> iflag s'"
    using m t heap_ok_console [OF t(2)]
    by (auto simp: shell_result_def shell_frame_def kernel_main_def split: option.splits)
qed

text \<open>The machine of the start-up with a keyboard on which only \<open>q\<close> is pressed.\<close>

definition q_bus :: "io_history \<Rightarrow> io_width \<Rightarrow> u16 \<Rightarrow> u32" where
  "q_bus h w p = (if p = 0x60 then 0x10 else pic_bus h w p)"

theorem kernel_main_ends_witness:
  "\<exists>s'. kernel_main Some example_layout [irq_frame 33 0] 0x36d76289 0x90000 (loaded_kernel\<lparr>bus := q_bus\<rparr>) = Some s' \<and>
    heap_ok s' [(0x100000, False)]"
proof -
  let ?s = "loaded_kernel\<lparr>bus := q_bus\<rparr>"
  have s: "gdt ?s = gdt_start" "idt ?s = idt_start" "pic1 (io ?s) = (0, Some 0xFF)" "pic2 (io ?s) = (0, Some 0xFF)"
    "tag_chain (mem ?s) (0x90000 + 8) 1" "regions_apart example_layout (apic_base ?s)"
    using loaded_kernel_ok by (simp_all add: apic_base_def)
  have b: "pic_ok (bus ?s)" "kbd_ok (bus ?s) (\<lambda>_. 0x10)"
    using pic_bus_ok by (simp_all add: q_bus_def pic_ok_def kbd_ok_def pic_defs)
  have i: "\<forall>r \<in> set [irq_frame 33 0]. int_no r = 33" and n: "0 = kbd_reads (io ?s)" and k: "\<not> shift ?s" "\<not> capslock ?s"
    by (simp_all add: irq_frame_def loaded_kernel_def boot_kernel_def)
  have d: "decode_key False 0x10 = Char_key 113" by code_simp
  have "after_q False False (map (\<lambda>_. 0x10) [0 ..< 0 + length [irq_frame 33 0]]) = Some []"
    by (simp add: upt_rec after_q.simps d)
  then show ?thesis
    using kernel_main_ends [OF s(1,2) b(1) s(3,4,5) loaded_kernel_ok(8) s(6) b(2) i n, of "0x36d76289" Some] k by auto
qed

end
